(* ===== verification/Prelude.thy ===== *)
theory Prelude
  imports Main "HOL-Library.Word"
begin

text \<open>
  Shared by every component: the machine integers of the C++ code, C++ pointers, bytes and their
  big- and little-endian readings, and the generic lemmas on lists and words that the component
  proofs use. The collection \<open>lib_simps\<close> holds the unfolding equations of small
  wrappers; \<open>len_simps\<close> the length facts.
\<close>

unbundle bit_operations_syntax

section \<open>Machine integers\<close>

type_synonym byte = "8 word"
type_synonym u32 = "32 word"
type_synonym u64 = "64 word"

text \<open>C++ \<open>int\<close>, \<open>int32_t\<close> (read by \<open>sint\<close>) and \<open>int64_t\<close>, \<open>long\<close>.\<close>

type_synonym s32 = "32 word"
type_synonym s64 = "64 word"

text \<open>Implicit conversions: a signed int widens by its sign, an unsigned one by zeros,
  a wider value narrows modulo the target's width.\<close>

abbreviation s32_to_u64 :: "s32 \<Rightarrow> u64" where
  "s32_to_u64 x \<equiv> scast x"

abbreviation u32_to_u64 :: "u32 \<Rightarrow> u64" where
  "u32_to_u64 x \<equiv> ucast x"

abbreviation u64_to_s32 :: "u64 \<Rightarrow> s32" where
  "u64_to_s32 x \<equiv> ucast x"

named_theorems lib_simps \<open>unfolding equations of the small wrappers\<close>
named_theorems len_simps \<open>lengths of encodings\<close>

section \<open>Pointers\<close>

text \<open>A C++ object pointer: null, never initialised, or the address of an object.\<close>

datatype 'a ptr = Null | Wild | Ptr (pointee: 'a)

section \<open>Bytes of a number\<close>

fun le_bytes :: "nat \<Rightarrow> nat \<Rightarrow> byte list" where
  "le_bytes 0 v = []"
| "le_bytes (Suc n) v = of_nat v # le_bytes n (v div 256)"

fun le_val :: "byte list \<Rightarrow> nat" where
  "le_val [] = 0"
| "le_val (b # bs) = unat b + 256 * le_val bs"

definition be_bytes :: "nat \<Rightarrow> nat \<Rightarrow> byte list" where
  "be_bytes n v = rev (le_bytes n v)"

definition be_val :: "byte list \<Rightarrow> nat" where
  "be_val bs = le_val (rev bs)"

lemma length_le_bytes [simp, len_simps]: "length (le_bytes n v) = n"
  by (induction n arbitrary: v) auto

lemma length_be_bytes [simp, len_simps]: "length (be_bytes n v) = n"
  by (simp add: be_bytes_def)

lemma unat_byte_bound: "unat (b :: byte) < 256"
  using unsigned_less [of b] by simp

lemma unat_of_nat_byte: "unat (of_nat v :: byte) = v mod 256"
  by (simp add: unat_of_nat)

lemma le_val_le_bytes [simp]: "le_val (le_bytes n v) = v mod 256 ^ n"
  by (induction n arbitrary: v) (auto simp: unat_of_nat_byte mod_mult2_eq)

lemma be_val_be_bytes [simp]: "be_val (be_bytes n v) = v mod 256 ^ n"
  by (simp add: be_val_def be_bytes_def)

lemma le_bytes_mod: "le_bytes n (v mod 256 ^ n) = le_bytes n v"
proof (induction n arbitrary: v)
  case 0
  show ?case by simp
next
  case (Suc n)
  have "v mod 256 ^ Suc n div 256 = v div 256 mod 256 ^ n"
    by (simp add: mod_mult2_eq)
  moreover have "(of_nat (v mod 256 ^ Suc n) :: byte) = of_nat v"
    by (simp add: word_unat_eq_iff unat_of_nat mod_mod_cancel )
  ultimately show ?case using Suc.IH [of "v div 256"] by simp
qed

lemma be_bytes_mod: "be_bytes n (v mod 256 ^ n) = be_bytes n v"
  by (simp add: be_bytes_def le_bytes_mod)

lemma le_val_bound: "le_val bs < 256 ^ length bs"
proof (induction bs)
  case Nil
  show ?case by simp
next
  case (Cons b bs)
  have "unat b < 256" by (rule unat_byte_bound)
  moreover from Cons.IH have "256 * (le_val bs + 1) \<le> 256 * 256 ^ length bs"
    by (intro mult_le_mono2) simp
  ultimately show ?case by simp
qed

lemma be_bytes_2: "be_bytes 2 v = [of_nat (v div 256), of_nat v]"
  by (simp add: be_bytes_def numeral_2_eq_2)

lemma be_val_bound: "be_val bs < 256 ^ length bs"
  using le_val_bound [of "rev bs"] by (simp add: be_val_def)

lemma le_bytes_le_val [simp]: "le_bytes (length bs) (le_val bs) = bs"
proof (induction bs)
  case Nil
  show ?case by simp
next
  case (Cons b bs)
  have lt: "unat b < 256" by (rule unat_byte_bound)
  then have "(of_nat (unat b + 256 * le_val bs) :: byte) = b"
    by (simp add: word_unat_eq_iff unat_of_nat del: of_nat_add of_nat_mult)
  moreover from lt have "(unat b + 256 * le_val bs) div 256 = le_val bs" by simp
  ultimately show ?case using Cons.IH by simp
qed

lemma be_bytes_be_val [simp]: "be_bytes (length bs) (be_val bs) = bs"
  using le_bytes_le_val [of "rev bs"] by (simp add: be_bytes_def be_val_def)

section \<open>Lists\<close>

lemma take_prefix_append [simp]: "n = length xs \<Longrightarrow> take n (xs @ ys) = xs"
  by simp

lemma drop_prefix_append [simp]: "n = length xs \<Longrightarrow> drop n (xs @ ys) = ys"
  by simp

section \<open>Words\<close>

lemma unat_of_nat_u64: "n < 2 ^ 64 \<Longrightarrow> unat (of_nat n :: u64) = n"
  by (simp add: unat_of_nat)

lemma of_nat_u64_less: "\<lbrakk>n < 2 ^ 64; m < 2 ^ 64\<rbrakk> \<Longrightarrow> (of_nat n :: u64) < of_nat m \<longleftrightarrow> n < m"
  by (simp add: word_less_nat_alt unat_of_nat)

lemma unat_u32_bound: "unat (x :: u32) < 4294967296"
  using unsigned_less [of x] by simp

lemma unat_u32_to_u64 [simp]: "unat (u32_to_u64 x) = unat x"
  by (simp add: unsigned_ucast_eq take_bit_nat_eq_self_iff less_trans [OF unat_u32_bound])

lemma unat_ucast_8_64: "unat (ucast (x :: 8 word) :: u64) = unat x"
  using unat_byte_bound [of x] by (simp add: unsigned_ucast_eq take_bit_nat_eq_self_iff)

lemma unat_u16_bound: "unat (x :: 16 word) < 65536"
  using unsigned_less [of x] by simp

lemma unat_ucast_16_64: "unat (ucast (x :: 16 word) :: u64) = unat x"
  using unat_u16_bound [of x] by (simp add: unsigned_ucast_eq take_bit_nat_eq_self_iff)

lemma s32_to_u64_of_int: "s32_to_u64 x = word_of_int (sint x)"
  by (rule scast_eq)

lemma u64_to_s32_of_int [simp]: "u64_to_s32 (word_of_int z) = word_of_int z"
  by (transfer fixing: z) (simp add: take_bit_take_bit)

lemma sint_of_int_s32:
  assumes "- 2147483648 \<le> z" "z < 2147483648"
  shows "sint (word_of_int z :: s32) = z"
  using assms by (simp add: signed_of_int signed_take_bit_int_eq_self)

lemma len64: "LENGTH(64) = 64"
  by simp

lemma word_of_int_add_sint: "word_of_int z + (x :: s32) = word_of_int (z + sint x)"
  by simp

lemma sint_s32_bounds: "- 2147483648 \<le> sint (x :: s32)" "sint (x :: s32) < 2147483648"
  using sint_greater_eq [of x] sint_less [of x] by simp_all

lemma unat_sint_nonneg:
  assumes "0 \<le> sint (x :: s32)"
  shows "unat x = nat (sint x)"
proof -
  have "uint x = take_bit 32 (sint x)" by (simp add: uint_sint)
  also have "\<dots> = sint x"
    using assms sint_s32_bounds(2) [of x] by (simp add: take_bit_int_eq_self)
  finally show ?thesis by (metis nat_uint_eq)
qed

lemma unat_scast_nonneg:
  assumes "0 \<le> sint x"
  shows "unat (s32_to_u64 x) = nat (sint x)"
proof -
  have "uint (s32_to_u64 x) = take_bit 64 (sint x)"
    by (simp only: s32_to_u64_of_int uint_word_of_int_eq len64)
  also have "\<dots> = sint x"
    using assms sint_s32_bounds(2) [of x] by (simp add: take_bit_int_eq_self)
  finally show ?thesis by (metis nat_uint_eq)
qed

lemma uint_of_int_negative:
  assumes "- 18446744073709551616 \<le> z" "z < 0"
  shows "uint (word_of_int z :: u64) = z + 18446744073709551616"
proof -
  have "uint (word_of_int z :: u64) = z mod 18446744073709551616"
    by (simp add: uint_word_of_int_eq take_bit_eq_mod)
  also have "\<dots> = (z + 18446744073709551616) mod 18446744073709551616" by simp
  also have "\<dots> = z + 18446744073709551616"
    using assms by (intro mod_pos_pos_trivial) auto
  finally show ?thesis .
qed

lemma unat_less_helper_int: "unat x < numeral n \<Longrightarrow> uint x < numeral n"
  by (metis uint_nat of_nat_less_iff of_nat_numeral)

lemma sint_u32_small:
  assumes "unat (x :: u32) < 2147483648"
  shows "sint x = int (unat x)"
proof -
  have "int (unat x) < 2147483648" using assms by linarith
  then have "signed_take_bit 31 (uint x) = uint x"
    by (simp add: signed_take_bit_int_eq_self order_trans [OF _ uint_ge_0])
  then show ?thesis by (simp add: sint_uint)
qed

lemma unat_s32_to_u64_small: "unat (x :: u32) < 2147483648 \<Longrightarrow> unat (s32_to_u64 x) = unat x"
  by (simp add: unat_scast_nonneg sint_u32_small)

lemma unat_u64_bound: "unat (x :: u64) < 18446744073709551616"
  using unsigned_less [of x] by simp

end
