(* ===== verification/Wire_Lib.thy ===== *)
theory Wire_Lib
  imports Prelude
begin

text \<open>
  The interface of the protobuf runtime that the generated code of \<open>RpcMessage\<close> calls:
  \<open>WireFormatLite\<close>, \<open>WireFormat\<close>, the coded streams and the unknown-field set. The runtime is
  not part of the repository: it is a record of operations, an argument of the definitions that use
  it, and a locale \<open>wire\<close> with what protobuf documents of them (a field is a key, the number
  times 8 plus a wire type, followed by its value; reading back what was written gives the value).
  The type variable is the unknown-field set. \<open>varint_lib\<close> is an implementation with base-128
  varints.
\<close>

section \<open>The operations the generated code calls\<close>

text \<open>A write is the bytes it appends; the \<open>ToArray\<close> writes take the array written so far. A read
  takes the target's old value and the rest of the input, and gives the target's new value and,
  when it succeeds, the input after it.\<close>

record 'u wire_lib =
  WriteEnum :: "nat \<Rightarrow> s32 \<Rightarrow> byte list"
  WriteInt64 :: "nat \<Rightarrow> s64 \<Rightarrow> byte list"
  WriteUInt32 :: "nat \<Rightarrow> u32 \<Rightarrow> byte list"
  WriteBytesMaybeAliased :: "nat \<Rightarrow> byte list \<Rightarrow> byte list"
  SerializeUnknownFields :: "'u \<Rightarrow> byte list"
  WriteEnumToArray :: "nat \<Rightarrow> s32 \<Rightarrow> byte list \<Rightarrow> byte list"
  WriteInt64ToArray :: "nat \<Rightarrow> s64 \<Rightarrow> byte list \<Rightarrow> byte list"
  WriteUInt32ToArray :: "nat \<Rightarrow> u32 \<Rightarrow> byte list \<Rightarrow> byte list"
  WriteBytesToArray :: "nat \<Rightarrow> byte list \<Rightarrow> byte list \<Rightarrow> byte list"
  SerializeUnknownFieldsToArray :: "'u \<Rightarrow> byte list \<Rightarrow> byte list"
  EnumSize :: "s32 \<Rightarrow> u64"
  Int64Size :: "s64 \<Rightarrow> u64"
  UInt32Size :: "u32 \<Rightarrow> u64"
  BytesSize :: "byte list \<Rightarrow> u64"
  ComputeUnknownFieldsSize :: "'u \<Rightarrow> u64"
  ToCachedSize :: "u64 \<Rightarrow> s32"
  ReadTagWithCutoffNoLastTag :: "byte list \<Rightarrow> (u32 \<times> bool) \<times> byte list"
  GetTagFieldNumber :: "u32 \<Rightarrow> u32"
  ReadEnum :: "s32 \<Rightarrow> byte list \<Rightarrow> s32 \<times> byte list option"
  ReadInt64 :: "s64 \<Rightarrow> byte list \<Rightarrow> s64 \<times> byte list option"
  ReadUInt32 :: "u32 \<Rightarrow> byte list \<Rightarrow> u32 \<times> byte list option"
  ReadBytes :: "byte list \<Rightarrow> byte list \<Rightarrow> byte list \<times> byte list option"
  SkipField :: "u32 \<Rightarrow> 'u \<Rightarrow> byte list \<Rightarrow> 'u \<times> byte list option"
  no_unknown_fields :: 'u
  have_unknown_fields :: "'u \<Rightarrow> bool"
  AddVarint :: "nat \<Rightarrow> u64 \<Rightarrow> 'u \<Rightarrow> 'u"
  MergeUnknownFields :: "'u \<Rightarrow> 'u \<Rightarrow> 'u" \<comment> \<open>from, into\<close>

section \<open>What protobuf documents of them\<close>

locale wire =
  fixes W :: "'u wire_lib"
  assumes enum_field: "\<lbrakk>1 \<le> k; k \<le> 15\<rbrakk> \<Longrightarrow>
      \<exists>r. ReadTagWithCutoffNoLastTag W (WriteEnum W k v @ rest) = ((of_nat (8 * k), True), r)
        \<and> (\<forall>old. ReadEnum W old r = (v, Some rest))"
    and int64_field: "\<lbrakk>1 \<le> k; k \<le> 15\<rbrakk> \<Longrightarrow>
      \<exists>r. ReadTagWithCutoffNoLastTag W (WriteInt64 W k i @ rest) = ((of_nat (8 * k), True), r)
        \<and> (\<forall>old. ReadInt64 W old r = (i, Some rest))"
    and uint32_field: "\<lbrakk>1 \<le> k; k \<le> 15\<rbrakk> \<Longrightarrow>
      \<exists>r. ReadTagWithCutoffNoLastTag W (WriteUInt32 W k n @ rest) = ((of_nat (8 * k), True), r)
        \<and> (\<forall>old. ReadUInt32 W old r = (n, Some rest))"
    and bytes_field: "\<lbrakk>1 \<le> k; k \<le> 15; length bs < 2147483648\<rbrakk> \<Longrightarrow>
      \<exists>r. ReadTagWithCutoffNoLastTag W (WriteBytesMaybeAliased W k bs @ rest)
          = ((of_nat (8 * k + 2), True), r)
        \<and> (\<forall>old. ReadBytes W old r = (bs, Some rest))"
    and field_number: "\<lbrakk>k \<le> 15; wt < 8\<rbrakk> \<Longrightarrow> GetTagFieldNumber W (of_nat (8 * k + wt)) = of_nat k"
    and tag_at_end: "\<exists>b. ReadTagWithCutoffNoLastTag W [] = ((0, b), [])"
    and tag_consumes: "\<lbrakk>ReadTagWithCutoffNoLastTag W inp = ((t, b), r); t \<noteq> 0\<rbrakk> \<Longrightarrow>
      length r < length inp"
    and read_enum_shrinks: "ReadEnum W v inp = (v', Some r) \<Longrightarrow> length r \<le> length inp"
    and read_int64_shrinks: "ReadInt64 W i inp = (i', Some r) \<Longrightarrow> length r \<le> length inp"
    and read_uint32_shrinks: "ReadUInt32 W n inp = (n', Some r) \<Longrightarrow> length r \<le> length inp"
    and read_bytes_shrinks: "ReadBytes W bs inp = (bs', Some r) \<Longrightarrow> length r \<le> length inp"
    and skip_shrinks: "SkipField W t u inp = (u', Some r) \<Longrightarrow> length r \<le> length inp"
    and to_array: "WriteEnumToArray W k v tgt = tgt @ WriteEnum W k v"
      "WriteInt64ToArray W k i tgt = tgt @ WriteInt64 W k i"
      "WriteUInt32ToArray W k n tgt = tgt @ WriteUInt32 W k n"
      "WriteBytesToArray W k bs tgt = tgt @ WriteBytesMaybeAliased W k bs"
      "SerializeUnknownFieldsToArray W u tgt = tgt @ SerializeUnknownFields W u"
    and sizes: "\<lbrakk>1 \<le> k; k \<le> 15\<rbrakk> \<Longrightarrow> of_nat (length (WriteEnum W k v)) = 1 + EnumSize W v"
      "\<lbrakk>1 \<le> k; k \<le> 15\<rbrakk> \<Longrightarrow> of_nat (length (WriteInt64 W k i)) = 1 + Int64Size W i"
      "\<lbrakk>1 \<le> k; k \<le> 15\<rbrakk> \<Longrightarrow> of_nat (length (WriteUInt32 W k n)) = 1 + UInt32Size W n"
      "\<lbrakk>1 \<le> k; k \<le> 15\<rbrakk> \<Longrightarrow> of_nat (length (WriteBytesMaybeAliased W k bs)) = 1 + BytesSize W bs"
      "of_nat (length (SerializeUnknownFields W u)) = ComputeUnknownFieldsSize W u"
    and cached_size: "l < 2147483648 \<Longrightarrow> ToCachedSize W (of_nat l) = of_nat l"
    and unknown: "\<not> have_unknown_fields W (no_unknown_fields W)"
      "MergeUnknownFields W u (no_unknown_fields W) = u"
      "MergeUnknownFields W (no_unknown_fields W) u = u"

section \<open>An implementation with varints\<close>

fun varint_enc :: "nat \<Rightarrow> byte list" where
  "varint_enc n = (if n < 128 then [of_nat n]
     else of_nat (n mod 128 + 128) # varint_enc (n div 128))"

declare varint_enc.simps [simp del]

fun varint_dec :: "nat \<Rightarrow> byte list \<Rightarrow> (nat \<times> byte list) option" where
  "varint_dec 0 bs = None"
| "varint_dec (Suc k) [] = None"
| "varint_dec (Suc k) (b # bs) = (if unat b < 128 then Some (unat b, bs)
     else map_option (\<lambda>(v, r). (unat b - 128 + 128 * v, r)) (varint_dec k bs))"

lemma varint_dec_enc: "\<lbrakk>n < 128 ^ k; 0 < k\<rbrakk> \<Longrightarrow> varint_dec k (varint_enc n @ rest) = Some (n, rest)"
proof (induction k arbitrary: n)
  case 0
  then show ?case by simp
next
  case (Suc k)
  show ?case
  proof (cases "n < 128")
    case True
    then show ?thesis by (simp add: varint_enc.simps [of n] unat_of_nat)
  next
    case False
    have "n mod 128 < 128" by simp
    then have u: "unat (of_nat (n mod 128 + 128) :: byte) = n mod 128 + 128"
      by (simp add: unat_of_nat del: of_nat_add)
    from False Suc.prems have "0 < k" by (cases k) auto
    moreover have "n div 128 < 128 ^ k" using Suc.prems by (simp add: less_mult_imp_div_less mult.commute)
    ultimately have "varint_dec k (varint_enc (n div 128) @ rest) = Some (n div 128, rest)"
      by (rule Suc.IH [rotated])
    with False u show ?thesis by (simp add: varint_enc.simps [of n])
  qed
qed

lemma varint_dec_shrinks: "varint_dec k bs = Some (n, r) \<Longrightarrow> length r < length bs"
  by (induction k bs arbitrary: n rule: varint_dec.induct) (auto split: if_splits simp: less_Suc_eq)

lemma varint_dec_u64: "varint_dec 10 (varint_enc (unat (x :: u64)) @ rest) = Some (unat x, rest)"
  using unat_u64_bound [of x] by (intro varint_dec_enc) auto

text \<open>A key byte, the fields and their readers.\<close>

definition vtag :: "nat \<Rightarrow> nat \<Rightarrow> byte list" where
  "vtag k wt = varint_enc (8 * k + wt)"

definition v_readtag :: "byte list \<Rightarrow> (u32 \<times> bool) \<times> byte list" where
  "v_readtag bs = (case varint_dec 5 bs of
      None \<Rightarrow> ((0, False), bs)
    | Some (n, r) \<Rightarrow> ((of_nat n, 0 < n \<and> n \<le> 127), r))"

definition v_read :: "(u64 \<Rightarrow> 'a) \<Rightarrow> 'a \<Rightarrow> byte list \<Rightarrow> 'a \<times> byte list option" where
  "v_read f old bs = (case varint_dec 10 bs of
      None \<Rightarrow> (old, None)
    | Some (n, r) \<Rightarrow> (f (of_nat n), Some r))"

definition v_bytes :: "byte list \<Rightarrow> byte list" where
  "v_bytes bs = varint_enc (length bs) @ bs"

definition v_readbytes :: "byte list \<Rightarrow> byte list \<Rightarrow> byte list \<times> byte list option" where
  "v_readbytes old bs = (case varint_dec 10 bs of
      None \<Rightarrow> (old, None)
    | Some (n, r) \<Rightarrow> if n \<le> length r then (take n r, Some (drop n r)) else (r, None))"

text \<open>Unknown fields are kept as their bytes; groups are refused.\<close>

definition v_skip :: "u32 \<Rightarrow> byte list \<Rightarrow> byte list \<Rightarrow> byte list \<times> byte list option" where
  "v_skip t u bs =
     (let wt = unat t mod 8; key = varint_enc (unat t);
          cut = (\<lambda>n. if n \<le> length bs then (u @ key @ take n bs, Some (drop n bs)) else (u, None))
      in if wt = 0 then
           (case varint_dec 10 bs of
              None \<Rightarrow> (u, None)
            | Some (n, r) \<Rightarrow> (u @ key @ varint_enc n, Some r))
         else if wt = 1 then cut 8
         else if wt = 2 then
           (case v_readbytes [] bs of
              (s, None) \<Rightarrow> (u, None)
            | (s, Some r) \<Rightarrow> (u @ key @ v_bytes s, Some r))
         else if wt = 5 then cut 4
         else (u, None))"

definition v_size :: "nat \<Rightarrow> u64" where
  "v_size n = of_nat (length (varint_enc n))"

definition varint_lib :: "byte list wire_lib" where
  "varint_lib = \<lparr>
     WriteEnum = (\<lambda>k v. vtag k 0 @ varint_enc (unat (scast v :: u64))),
     WriteInt64 = (\<lambda>k v. vtag k 0 @ varint_enc (unat v)),
     WriteUInt32 = (\<lambda>k v. vtag k 0 @ varint_enc (unat (ucast v :: u64))),
     WriteBytesMaybeAliased = (\<lambda>k bs. vtag k 2 @ v_bytes bs),
     SerializeUnknownFields = (\<lambda>u. u),
     WriteEnumToArray = (\<lambda>k v t. t @ vtag k 0 @ varint_enc (unat (scast v :: u64))),
     WriteInt64ToArray = (\<lambda>k v t. t @ vtag k 0 @ varint_enc (unat v)),
     WriteUInt32ToArray = (\<lambda>k v t. t @ vtag k 0 @ varint_enc (unat (ucast v :: u64))),
     WriteBytesToArray = (\<lambda>k bs t. t @ vtag k 2 @ v_bytes bs),
     SerializeUnknownFieldsToArray = (\<lambda>u t. t @ u),
     EnumSize = (\<lambda>v. v_size (unat (scast v :: u64))),
     Int64Size = (\<lambda>v. v_size (unat v)),
     UInt32Size = (\<lambda>v. v_size (unat (ucast v :: u64))),
     BytesSize = (\<lambda>bs. of_nat (length (v_bytes bs))),
     ComputeUnknownFieldsSize = (\<lambda>u. of_nat (length u)),
     ToCachedSize = ucast,
     ReadTagWithCutoffNoLastTag = v_readtag,
     GetTagFieldNumber = drop_bit 3,
     ReadEnum = v_read ucast,
     ReadInt64 = v_read (\<lambda>x. x),
     ReadUInt32 = v_read ucast,
     ReadBytes = v_readbytes,
     SkipField = v_skip,
     no_unknown_fields = [],
     have_unknown_fields = (\<lambda>u. u \<noteq> []),
     AddVarint = (\<lambda>k v u. u @ vtag k 0 @ varint_enc (unat v)),
     MergeUnknownFields = (\<lambda>from u. u @ from) \<rparr>"

lemma v_readtag_vtag:
  assumes "1 \<le> k" "k \<le> 15" "wt < 8"
  shows "v_readtag (vtag k wt @ rest) = ((of_nat (8 * k + wt), True), rest)"
  using assms by (simp add: v_readtag_def vtag_def varint_dec_enc)

lemma length_vtag: "\<lbrakk>k \<le> 15; wt < 8\<rbrakk> \<Longrightarrow> length (vtag k wt) = 1"
  by (simp add: vtag_def varint_enc.simps)

lemma v_readtag_nil: "v_readtag [] = ((0, False), [])"
  by (simp add: v_readtag_def numeral_eq_Suc)

lemma v_read_enc: "v_read f old (varint_enc (unat (x :: u64)) @ rest) = (f x, Some rest)"
  by (simp add: v_read_def varint_dec_u64)

lemma v_readbytes_bytes:
  "length bs < 2147483648 \<Longrightarrow> v_readbytes old (v_bytes bs @ rest) = (bs, Some rest)"
  by (simp add: v_readbytes_def v_bytes_def varint_dec_enc)

lemma v_readtag_shrinks:
  "\<lbrakk>v_readtag bs = ((t, b), r); t \<noteq> 0\<rbrakk> \<Longrightarrow> length r < length bs"
  by (auto simp: v_readtag_def dest: varint_dec_shrinks split: option.splits)

lemma v_read_shrinks: "v_read f old bs = (v, Some r) \<Longrightarrow> length r \<le> length bs"
  by (auto simp: v_read_def split: option.splits dest!: varint_dec_shrinks)

lemma v_readbytes_shrinks: "v_readbytes old bs = (v, Some r) \<Longrightarrow> length r \<le> length bs"
  by (auto simp: v_readbytes_def split: option.splits if_splits dest!: varint_dec_shrinks)

lemma v_skip_shrinks: "v_skip t u bs = (u', Some r) \<Longrightarrow> length r \<le> length bs"
  by (auto simp: v_skip_def Let_def split: option.splits if_splits prod.splits
      dest!: varint_dec_shrinks dest: v_readbytes_shrinks)

lemma ucast_scast_s32: "u64_to_s32 (s32_to_u64 v) = v"
  unfolding s32_to_u64_of_int u64_to_s32_of_int by simp

lemma v_read_enc_s32:
  "v_read u64_to_s32 old (varint_enc (unat (s32_to_u64 v)) @ rest) = (v, Some rest)"
  by (simp only: v_read_enc ucast_scast_s32)

lemma v_read_enc_u32: "v_read u64_to_s32 old (varint_enc (unat (n :: u32)) @ rest) = (n, Some rest)"
proof -
  have "u64_to_s32 (u32_to_u64 n) = n"
    by (rule bit_word_eqI) (simp add: bit_simps)
  then show ?thesis
    using v_read_enc [of u64_to_s32 old "u32_to_u64 n" rest] by simp
qed

lemma length_v_fields:
  assumes "1 \<le> k" "k \<le> 15"
  shows "(of_nat (length (vtag k 0 @ varint_enc n)) :: u64) = 1 + v_size n"
    and "(of_nat (length (vtag k 2 @ v_bytes bs)) :: u64) = 1 + of_nat (length (v_bytes bs))"
  using assms by (simp_all add: length_vtag v_size_def)

lemma v_readtag_field:
  assumes "1 \<le> k" "k \<le> 15" "\<And>old. rd old (payload @ rest) = (v, Some rest)"
  shows "wt < 8 \<Longrightarrow> \<exists>r. v_readtag ((vtag k wt @ payload) @ rest) = ((of_nat (8 * k + wt), True), r)
    \<and> (\<forall>old. rd old r = (v, Some rest))"
  using assms v_readtag_vtag [OF assms(1,2), of wt "payload @ rest"] by simp

lemma v_field_number:
  assumes "k \<le> 15" "wt < 8"
  shows "drop_bit 3 (of_nat (8 * k + wt) :: u32) = of_nat k"
proof -
  have u: "unat (of_nat (8 * k + wt) :: u32) = 8 * k + wt"
    unfolding unat_of_nat using assms by simp
  have v: "unat (of_nat k :: u32) = k"
    unfolding unat_of_nat using assms by simp
  have "unat (drop_bit 3 (of_nat (8 * k + wt) :: u32)) = drop_bit 3 (8 * k + wt)"
    unfolding unsigned_drop_bit_eq u using assms by (simp add: take_bit_nat_eq_self)
  also have "\<dots> = k" using assms by (simp add: drop_bit_eq_div)
  finally have "unat (drop_bit 3 (of_nat (8 * k + wt) :: u32)) = unat (of_nat k :: u32)"
    by (simp only: v)
  then show ?thesis by (rule unsigned_word_eqI)
qed

lemma ucast_of_nat: "u64_to_s32 (of_nat l) = of_nat l"
  using u64_to_s32_of_int [of "int l"] by simp

interpretation varint: wire varint_lib
  apply unfold_locales
  subgoal for k v rest
    using v_readtag_field [of k "v_read u64_to_s32" _ rest v 0, OF _ _ v_read_enc_s32]
    by (simp add: varint_lib_def)
  subgoal for k i rest
    using v_readtag_field [of k "v_read (\<lambda>x. x)" _ rest i 0, OF _ _ v_read_enc]
    by (simp add: varint_lib_def)
  subgoal for k n rest
    using v_readtag_field [of k "v_read u64_to_s32" _ rest n 0, OF _ _ v_read_enc_u32]
    by (simp add: varint_lib_def)
  subgoal for k bs rest
    using v_readtag_field [of k v_readbytes _ rest bs 2, OF _ _ v_readbytes_bytes]
    by (simp add: varint_lib_def)
  subgoal for k wt using v_field_number [of k wt] by (simp add: varint_lib_def)
  subgoal by (auto simp: varint_lib_def v_readtag_nil)
  subgoal by (simp add: varint_lib_def v_readtag_shrinks)
  subgoal by (simp add: varint_lib_def v_read_shrinks)
  subgoal by (simp add: varint_lib_def v_read_shrinks)
  subgoal by (simp add: varint_lib_def v_read_shrinks)
  subgoal by (simp add: varint_lib_def v_readbytes_shrinks)
  subgoal by (simp add: varint_lib_def v_skip_shrinks)
  by (simp_all add: varint_lib_def length_v_fields ucast_of_nat del: length_append)

section \<open>Messages of any class\<close>

text \<open>What \<open>DynamicCastToGenerated\<close> finds out about a \<open>const Message&\<close>: an object of the generated class that
  asks, or one of another class, which is merged by protobuf's reflection (a parameter).\<close>

datatype ('m, 'o) any_message = SameClass 'm | OtherClass 'o

end
