(* ===== verification/RpcMessage.thy ===== *)
theory RpcMessage
  imports Wire_Lib
begin

text \<open>
  The message of the protocol, \<open>rpc.codec.RpcMessage\<close>, as its generated class keeps it
  (\<open>protobufCoder/RpcMessage.pb.h\<close>, \<open>RpcMessage.pb.cc\<close>): the field values, the has-bits that say
  which fields are present, the unknown fields and the cached size. Here are the accessors,
  \<open>Clear\<close>, \<open>MergeFrom\<close>, \<open>CopyFrom\<close>, the copy constructor and \<open>Swap\<close>, and the class invariant
  \<open>rpc_wf\<close>: no has-bit beyond the seven, and a field whose bit is clear holds its default.
\<close>

section \<open>Enumerations\<close>

datatype MsgType = REQUEST | RESPONSE | ERROR

datatype ErrorCode = NO_ERROR | WRONG_PROTO | NO_SERVICE | NO_METHOD | INVALID_REQUEST
  | INVALID_RESPONSE | TIMEOUT | PENDDING_LIMIT

fun MsgType_int :: "MsgType \<Rightarrow> s32" where
  "MsgType_int REQUEST = 1"
| "MsgType_int RESPONSE = 2"
| "MsgType_int ERROR = 3"

fun ErrorCode_int :: "ErrorCode \<Rightarrow> s32" where
  "ErrorCode_int NO_ERROR = 0"
| "ErrorCode_int WRONG_PROTO = 1"
| "ErrorCode_int NO_SERVICE = 2"
| "ErrorCode_int NO_METHOD = 3"
| "ErrorCode_int INVALID_REQUEST = 4"
| "ErrorCode_int INVALID_RESPONSE = 5"
| "ErrorCode_int TIMEOUT = 6"
| "ErrorCode_int PENDDING_LIMIT = 7"

definition MsgType_IsValid :: "s32 \<Rightarrow> bool" where
  "MsgType_IsValid value \<longleftrightarrow> value = 1 \<or> value = 2 \<or> value = 3"

definition ErrorCode_IsValid :: "s32 \<Rightarrow> bool" where
  "ErrorCode_IsValid value \<longleftrightarrow> value = 0 \<or> value = 1 \<or> value = 2 \<or> value = 3 \<or> value = 4
     \<or> value = 5 \<or> value = 6 \<or> value = 7"

text \<open>\<open>static_cast\<close> of a valid number to the enumeration.\<close>

definition MsgType_cast :: "s32 \<Rightarrow> MsgType" where
  "MsgType_cast v = (if v = 1 then REQUEST else if v = 2 then RESPONSE else ERROR)"

definition ErrorCode_cast :: "s32 \<Rightarrow> ErrorCode" where
  "ErrorCode_cast v = (if v = 0 then NO_ERROR else if v = 1 then WRONG_PROTO
     else if v = 2 then NO_SERVICE else if v = 3 then NO_METHOD else if v = 4 then INVALID_REQUEST
     else if v = 5 then INVALID_RESPONSE else if v = 6 then TIMEOUT else PENDDING_LIMIT)"

lemma MsgType_int_valid [simp]: "MsgType_IsValid (MsgType_int t)"
  by (cases t) (simp_all add: MsgType_IsValid_def)

lemma ErrorCode_int_valid [simp]: "ErrorCode_IsValid (ErrorCode_int e)"
  by (cases e) (simp_all add: ErrorCode_IsValid_def)

lemma MsgType_cast_int [simp]: "MsgType_cast (MsgType_int t) = t"
  by (cases t) (simp_all add: MsgType_cast_def)

lemma ErrorCode_cast_int [simp]: "ErrorCode_cast (ErrorCode_int e) = e"
  by (cases e) (simp_all add: ErrorCode_cast_def)

lemma MsgType_int_cast: "MsgType_IsValid v \<Longrightarrow> MsgType_int (MsgType_cast v) = v"
  by (auto simp: MsgType_IsValid_def MsgType_cast_def)

lemma ErrorCode_int_cast: "ErrorCode_IsValid v \<Longrightarrow> ErrorCode_int (ErrorCode_cast v) = v"
  by (auto simp: ErrorCode_IsValid_def ErrorCode_cast_def)

text \<open>The enumerators are ordered by their numbers; \<open>ErrorCode_MIN\<close> and \<open>ErrorCode_MAX\<close> bound
  them.\<close>

instantiation ErrorCode :: linorder
begin

definition less_eq_ErrorCode :: "ErrorCode \<Rightarrow> ErrorCode \<Rightarrow> bool" where
  "less_eq_ErrorCode a b \<longleftrightarrow> ErrorCode_int a \<le> ErrorCode_int b"

definition less_ErrorCode :: "ErrorCode \<Rightarrow> ErrorCode \<Rightarrow> bool" where
  "less_ErrorCode a b \<longleftrightarrow> ErrorCode_int a < ErrorCode_int b"

instance
proof
  fix a b c :: ErrorCode
  show "a < b \<longleftrightarrow> a \<le> b \<and> \<not> b \<le> a"
    unfolding less_ErrorCode_def less_eq_ErrorCode_def by (rule less_le_not_le)
  show "a \<le> a" unfolding less_eq_ErrorCode_def by (rule order_refl)
  show "a \<le> b \<or> b \<le> a" unfolding less_eq_ErrorCode_def by (rule linear)
  show "a \<le> b \<Longrightarrow> b \<le> c \<Longrightarrow> a \<le> c"
    unfolding less_eq_ErrorCode_def by (rule order_trans)
  show "a \<le> b \<Longrightarrow> b \<le> a \<Longrightarrow> a = b"
    unfolding less_eq_ErrorCode_def using ErrorCode_cast_int by (metis order_antisym)
qed

end

definition ErrorCode_MIN :: ErrorCode where
  "ErrorCode_MIN = NO_ERROR"

definition ErrorCode_MAX :: ErrorCode where
  "ErrorCode_MAX = PENDDING_LIMIT"

lemma ErrorCode_bounds: "ErrorCode_MIN \<le> e" "e \<le> ErrorCode_MAX"
  by (cases e; simp add: ErrorCode_MIN_def ErrorCode_MAX_def less_eq_ErrorCode_def)+

section \<open>The object and its accessors\<close>

record 'u RpcMessage =
  rm_internal_metadata :: 'u
  rm_has_bits :: u32
  rm_cached_size :: s32
  rm_request :: "byte list"
  rm_response :: "byte list"
  rm_id :: s64
  rm_serviceid :: u32
  rm_methodid :: u32
  rm_error :: ErrorCode
  rm_type :: MsgType

text \<open>The constructor: \<open>SharedCtor\<close> zeroes the fields from \<open>id_\<close> to \<open>error_\<close> and sets \<open>type_\<close> to 1.\<close>

definition RpcMessage_new :: "'u wire_lib \<Rightarrow> 'u RpcMessage" where
  "RpcMessage_new W = \<lparr>rm_internal_metadata = no_unknown_fields W, rm_has_bits = 0,
     rm_cached_size = 0, rm_request = [], rm_response = [], rm_id = 0, rm_serviceid = 0,
     rm_methodid = 0, rm_error = NO_ERROR, rm_type = REQUEST\<rparr>"

named_theorems rpc_accessors \<open>definitions of the accessors\<close>

definition has_type :: "'u RpcMessage \<Rightarrow> bool" where
  [rpc_accessors]: "has_type m \<longleftrightarrow> rm_has_bits m AND 0x40 \<noteq> 0"

definition clear_type :: "'u RpcMessage \<Rightarrow> 'u RpcMessage" where
  [rpc_accessors]: "clear_type m = m\<lparr>rm_type := REQUEST, rm_has_bits := rm_has_bits m AND NOT 0x40\<rparr>"

definition set_type :: "MsgType \<Rightarrow> 'u RpcMessage \<Rightarrow> 'u RpcMessage" where
  [rpc_accessors]: "set_type value m = m\<lparr>rm_has_bits := rm_has_bits m OR 0x40, rm_type := value\<rparr>"

definition has_id :: "'u RpcMessage \<Rightarrow> bool" where
  [rpc_accessors]: "has_id m \<longleftrightarrow> rm_has_bits m AND 0x04 \<noteq> 0"

definition clear_id :: "'u RpcMessage \<Rightarrow> 'u RpcMessage" where
  [rpc_accessors]: "clear_id m = m\<lparr>rm_id := 0, rm_has_bits := rm_has_bits m AND NOT 0x04\<rparr>"

definition set_id :: "s64 \<Rightarrow> 'u RpcMessage \<Rightarrow> 'u RpcMessage" where
  [rpc_accessors]: "set_id value m = m\<lparr>rm_has_bits := rm_has_bits m OR 0x04, rm_id := value\<rparr>"

definition has_serviceid :: "'u RpcMessage \<Rightarrow> bool" where
  [rpc_accessors]: "has_serviceid m \<longleftrightarrow> rm_has_bits m AND 0x08 \<noteq> 0"

definition clear_serviceid :: "'u RpcMessage \<Rightarrow> 'u RpcMessage" where
  [rpc_accessors]: "clear_serviceid m =
     m\<lparr>rm_serviceid := 0, rm_has_bits := rm_has_bits m AND NOT 0x08\<rparr>"

definition set_serviceid :: "u32 \<Rightarrow> 'u RpcMessage \<Rightarrow> 'u RpcMessage" where
  [rpc_accessors]: "set_serviceid value m =
     m\<lparr>rm_has_bits := rm_has_bits m OR 0x08, rm_serviceid := value\<rparr>"

definition has_methodid :: "'u RpcMessage \<Rightarrow> bool" where
  [rpc_accessors]: "has_methodid m \<longleftrightarrow> rm_has_bits m AND 0x10 \<noteq> 0"

definition clear_methodid :: "'u RpcMessage \<Rightarrow> 'u RpcMessage" where
  [rpc_accessors]: "clear_methodid m =
     m\<lparr>rm_methodid := 0, rm_has_bits := rm_has_bits m AND NOT 0x10\<rparr>"

definition set_methodid :: "u32 \<Rightarrow> 'u RpcMessage \<Rightarrow> 'u RpcMessage" where
  [rpc_accessors]: "set_methodid value m =
     m\<lparr>rm_has_bits := rm_has_bits m OR 0x10, rm_methodid := value\<rparr>"

definition has_error :: "'u RpcMessage \<Rightarrow> bool" where
  [rpc_accessors]: "has_error m \<longleftrightarrow> rm_has_bits m AND 0x20 \<noteq> 0"

definition clear_error :: "'u RpcMessage \<Rightarrow> 'u RpcMessage" where
  [rpc_accessors]: "clear_error m =
     m\<lparr>rm_error := NO_ERROR, rm_has_bits := rm_has_bits m AND NOT 0x20\<rparr>"

definition set_error :: "ErrorCode \<Rightarrow> 'u RpcMessage \<Rightarrow> 'u RpcMessage" where
  [rpc_accessors]: "set_error value m =
     m\<lparr>rm_has_bits := rm_has_bits m OR 0x20, rm_error := value\<rparr>"


text \<open>The byte strings \<open>request_\<close> and \<open>response_\<close>. A C string ends before its first zero byte; the
  pointer \<open>release\<close> gives and \<open>set_allocated\<close> takes is \<open>None\<close> when null.\<close>

definition c_string :: "byte list \<Rightarrow> byte list" where
  "c_string value = takeWhile (\<lambda>b. b \<noteq> 0) value"

definition has_request :: "'u RpcMessage \<Rightarrow> bool" where
  [rpc_accessors]: "has_request m \<longleftrightarrow> rm_has_bits m AND 0x01 \<noteq> 0"

definition clear_request :: "'u RpcMessage \<Rightarrow> 'u RpcMessage" where
  [rpc_accessors]: "clear_request m =
     m\<lparr>rm_request := [], rm_has_bits := rm_has_bits m AND NOT 0x01\<rparr>"

definition set_request :: "byte list \<Rightarrow> 'u RpcMessage \<Rightarrow> 'u RpcMessage" where
  [rpc_accessors]: "set_request value m =
     m\<lparr>rm_has_bits := rm_has_bits m OR 0x01, rm_request := value\<rparr>"

definition set_request_c_string :: "byte list \<Rightarrow> 'u RpcMessage \<Rightarrow> 'u RpcMessage" where
  [rpc_accessors]: "set_request_c_string value m =
     m\<lparr>rm_has_bits := rm_has_bits m OR 0x01, rm_request := c_string value\<rparr>"

definition set_request_mem :: "byte list \<Rightarrow> nat \<Rightarrow> 'u RpcMessage \<Rightarrow> 'u RpcMessage" where
  [rpc_accessors]: "set_request_mem value n m =
     m\<lparr>rm_has_bits := rm_has_bits m OR 0x01, rm_request := take n value\<rparr>"

text \<open>\<open>mutable_request\<close> gives the caller the string to write; what it writes is \<open>f\<close>.\<close>

definition mutable_request :: "(byte list \<Rightarrow> byte list) \<Rightarrow> 'u RpcMessage \<Rightarrow> 'u RpcMessage" where
  [rpc_accessors]: "mutable_request f m =
     m\<lparr>rm_has_bits := rm_has_bits m OR 0x01, rm_request := f (rm_request m)\<rparr>"

definition release_request :: "'u RpcMessage \<Rightarrow> byte list option \<times> 'u RpcMessage" where
  [rpc_accessors]: "release_request m =
     (if \<not> has_request m then (None, m)
      else (Some (rm_request m),
            m\<lparr>rm_has_bits := rm_has_bits m AND NOT 0x01, rm_request := []\<rparr>))"

definition set_allocated_request :: "byte list option \<Rightarrow> 'u RpcMessage \<Rightarrow> 'u RpcMessage" where
  [rpc_accessors]: "set_allocated_request request m =
     (case request of
        Some s \<Rightarrow> m\<lparr>rm_has_bits := rm_has_bits m OR 0x01, rm_request := s\<rparr>
      | None \<Rightarrow> m\<lparr>rm_has_bits := rm_has_bits m AND NOT 0x01, rm_request := []\<rparr>)"

definition has_response :: "'u RpcMessage \<Rightarrow> bool" where
  [rpc_accessors]: "has_response m \<longleftrightarrow> rm_has_bits m AND 0x02 \<noteq> 0"

definition clear_response :: "'u RpcMessage \<Rightarrow> 'u RpcMessage" where
  [rpc_accessors]: "clear_response m =
     m\<lparr>rm_response := [], rm_has_bits := rm_has_bits m AND NOT 0x02\<rparr>"

definition set_response :: "byte list \<Rightarrow> 'u RpcMessage \<Rightarrow> 'u RpcMessage" where
  [rpc_accessors]: "set_response value m =
     m\<lparr>rm_has_bits := rm_has_bits m OR 0x02, rm_response := value\<rparr>"

definition set_response_c_string :: "byte list \<Rightarrow> 'u RpcMessage \<Rightarrow> 'u RpcMessage" where
  [rpc_accessors]: "set_response_c_string value m =
     m\<lparr>rm_has_bits := rm_has_bits m OR 0x02, rm_response := c_string value\<rparr>"

definition set_response_mem :: "byte list \<Rightarrow> nat \<Rightarrow> 'u RpcMessage \<Rightarrow> 'u RpcMessage" where
  [rpc_accessors]: "set_response_mem value n m =
     m\<lparr>rm_has_bits := rm_has_bits m OR 0x02, rm_response := take n value\<rparr>"

definition mutable_response :: "(byte list \<Rightarrow> byte list) \<Rightarrow> 'u RpcMessage \<Rightarrow> 'u RpcMessage" where
  [rpc_accessors]: "mutable_response f m =
     m\<lparr>rm_has_bits := rm_has_bits m OR 0x02, rm_response := f (rm_response m)\<rparr>"

definition release_response :: "'u RpcMessage \<Rightarrow> byte list option \<times> 'u RpcMessage" where
  [rpc_accessors]: "release_response m =
     (if \<not> has_response m then (None, m)
      else (Some (rm_response m),
            m\<lparr>rm_has_bits := rm_has_bits m AND NOT 0x02, rm_response := []\<rparr>))"

definition set_allocated_response :: "byte list option \<Rightarrow> 'u RpcMessage \<Rightarrow> 'u RpcMessage" where
  [rpc_accessors]: "set_allocated_response response m =
     (case response of
        Some s \<Rightarrow> m\<lparr>rm_has_bits := rm_has_bits m OR 0x02, rm_response := s\<rparr>
      | None \<Rightarrow> m\<lparr>rm_has_bits := rm_has_bits m AND NOT 0x02, rm_response := []\<rparr>)"

section \<open>Operations on whole messages\<close>

definition SetCachedSize :: "s32 \<Rightarrow> 'u RpcMessage \<Rightarrow> 'u RpcMessage" where
  "SetCachedSize cached m = m\<lparr>rm_cached_size := cached\<rparr>"

text \<open>The copy constructor copies the has-bits, the unknown fields and the block of scalars; the
  strings only where present. The cached size of the copy is zero.\<close>

definition RpcMessage_copy :: "'u wire_lib \<Rightarrow> 'u RpcMessage \<Rightarrow> 'u RpcMessage" where
  "RpcMessage_copy W from = \<lparr>
     rm_internal_metadata = MergeUnknownFields W (rm_internal_metadata from) (no_unknown_fields W),
     rm_has_bits = rm_has_bits from,
     rm_cached_size = 0,
     rm_request = (if has_request from then rm_request from else []),
     rm_response = (if has_response from then rm_response from else []),
     rm_id = rm_id from, rm_serviceid = rm_serviceid from, rm_methodid = rm_methodid from,
     rm_error = rm_error from, rm_type = rm_type from\<rparr>"

definition Clear :: "'u wire_lib \<Rightarrow> 'u RpcMessage \<Rightarrow> 'u RpcMessage" where
  "Clear W m =
     (let cached_has_bits = rm_has_bits m;
          m = (if cached_has_bits AND 0x03 \<noteq> 0 then
                 (let m = (if cached_has_bits AND 0x01 \<noteq> 0 then m\<lparr>rm_request := []\<rparr> else m)
                  in if cached_has_bits AND 0x02 \<noteq> 0 then m\<lparr>rm_response := []\<rparr> else m)
               else m);
          m = (if cached_has_bits AND 0x7c \<noteq> 0 then
                 m\<lparr>rm_id := 0, rm_serviceid := 0, rm_methodid := 0, rm_error := NO_ERROR,
                   rm_type := REQUEST\<rparr>
               else m)
      in m\<lparr>rm_has_bits := 0, rm_internal_metadata := no_unknown_fields W\<rparr>)"

definition MergeFrom :: "'u wire_lib \<Rightarrow> 'u RpcMessage \<Rightarrow> 'u RpcMessage \<Rightarrow> 'u RpcMessage" where
  "MergeFrom W from m =
     (let m = m\<lparr>rm_internal_metadata :=
                MergeUnknownFields W (rm_internal_metadata from) (rm_internal_metadata m)\<rparr>;
          cached_has_bits = rm_has_bits from
      in if cached_has_bits AND 0x7f \<noteq> 0 then
           (let m = (if cached_has_bits AND 0x01 \<noteq> 0 then
                       m\<lparr>rm_has_bits := rm_has_bits m OR 0x01, rm_request := rm_request from\<rparr> else m);
                m = (if cached_has_bits AND 0x02 \<noteq> 0 then
                       m\<lparr>rm_has_bits := rm_has_bits m OR 0x02, rm_response := rm_response from\<rparr> else m);
                m = (if cached_has_bits AND 0x04 \<noteq> 0 then m\<lparr>rm_id := rm_id from\<rparr> else m);
                m = (if cached_has_bits AND 0x08 \<noteq> 0 then m\<lparr>rm_serviceid := rm_serviceid from\<rparr> else m);
                m = (if cached_has_bits AND 0x10 \<noteq> 0 then m\<lparr>rm_methodid := rm_methodid from\<rparr> else m);
                m = (if cached_has_bits AND 0x20 \<noteq> 0 then m\<lparr>rm_error := rm_error from\<rparr> else m);
                m = (if cached_has_bits AND 0x40 \<noteq> 0 then m\<lparr>rm_type := rm_type from\<rparr> else m)
            in m\<lparr>rm_has_bits := rm_has_bits m OR cached_has_bits\<rparr>)
         else m)"

text \<open>\<open>same\<close> is the test \<open>&from == this\<close>.\<close>

definition CopyFrom :: "'u wire_lib \<Rightarrow> bool \<Rightarrow> 'u RpcMessage \<Rightarrow> 'u RpcMessage \<Rightarrow> 'u RpcMessage" where
  "CopyFrom W same from m = (if same then m else MergeFrom W from (Clear W m))"

text \<open>The overloads for a \<open>Message\<close> of any class; \<open>reflect\<close> is \<open>ReflectionOps::Merge\<close>.\<close>

definition MergeFrom_message ::
    "'u wire_lib \<Rightarrow> ('o \<Rightarrow> 'u RpcMessage \<Rightarrow> 'u RpcMessage) \<Rightarrow> ('u RpcMessage, 'o) any_message
     \<Rightarrow> 'u RpcMessage \<Rightarrow> 'u RpcMessage" where
  "MergeFrom_message W reflect from m = (case from of
      OtherClass x \<Rightarrow> reflect x m
    | SameClass source \<Rightarrow> MergeFrom W source m)"

definition CopyFrom_message ::
    "'u wire_lib \<Rightarrow> ('o \<Rightarrow> 'u RpcMessage \<Rightarrow> 'u RpcMessage) \<Rightarrow> bool \<Rightarrow> ('u RpcMessage, 'o) any_message
     \<Rightarrow> 'u RpcMessage \<Rightarrow> 'u RpcMessage" where
  "CopyFrom_message W reflect same from m =
     (if same then m else MergeFrom_message W reflect from (Clear W m))"

definition IsInitialized :: "'u RpcMessage \<Rightarrow> bool" where
  "IsInitialized m = (if rm_has_bits m AND 0x5c \<noteq> 0x5c then False else True)"

text \<open>\<open>InternalSwap\<close> exchanges every member but the cached sizes.\<close>

definition InternalSwap :: "'u RpcMessage \<Rightarrow> 'u RpcMessage \<Rightarrow> 'u RpcMessage \<times> 'u RpcMessage" where
  "InternalSwap m other =
     (other\<lparr>rm_cached_size := rm_cached_size m\<rparr>, m\<lparr>rm_cached_size := rm_cached_size other\<rparr>)"

definition Swap :: "bool \<Rightarrow> 'u RpcMessage \<Rightarrow> 'u RpcMessage \<Rightarrow> 'u RpcMessage \<times> 'u RpcMessage" where
  "Swap same m other = (if same then (m, other) else InternalSwap m other)"


section \<open>Has-bits\<close>

lemma has_bit_simps:
  "(h :: u32) AND 0x01 = 0 \<longleftrightarrow> \<not> bit h 0" "h AND 0x02 = 0 \<longleftrightarrow> \<not> bit h 1"
  "h AND 0x04 = 0 \<longleftrightarrow> \<not> bit h 2" "h AND 0x08 = 0 \<longleftrightarrow> \<not> bit h 3" "h AND 0x10 = 0 \<longleftrightarrow> \<not> bit h 4"
  "h AND 0x20 = 0 \<longleftrightarrow> \<not> bit h 5" "h AND 0x40 = 0 \<longleftrightarrow> \<not> bit h 6"
  using and_exp_eq_0_iff_not_bit [of h 0] and_exp_eq_0_iff_not_bit [of h 1]
    and_exp_eq_0_iff_not_bit [of h 2] and_exp_eq_0_iff_not_bit [of h 3]
    and_exp_eq_0_iff_not_bit [of h 4] and_exp_eq_0_iff_not_bit [of h 5]
    and_exp_eq_0_iff_not_bit [of h 6]
  by simp_all

text \<open>A mask is zero on the has-bits when its flags are.\<close>

lemma and_or_eq_0: "(h :: u32) AND (x OR y) = 0 \<longleftrightarrow> h AND x = 0 \<and> h AND y = 0"
  by (simp add: bit.conj_disj_distrib or_eq_0_iff)

lemma mask_simps:
  "(h :: u32) AND 0x03 = 0 \<longleftrightarrow> \<not> bit h 0 \<and> \<not> bit h 1"
  "h AND 0x7c = 0 \<longleftrightarrow> \<not> bit h 2 \<and> \<not> bit h 3 \<and> \<not> bit h 4 \<and> \<not> bit h 5 \<and> \<not> bit h 6"
  "h AND 0x7f = 0 \<longleftrightarrow> \<not> bit h 0 \<and> \<not> bit h 1 \<and> \<not> bit h 2 \<and> \<not> bit h 3 \<and> \<not> bit h 4 \<and> \<not> bit h 5
     \<and> \<not> bit h 6"
  using and_or_eq_0 [of h 1 2] and_or_eq_0 [of h 4 "8 OR (16 OR (32 OR 64))"]
    and_or_eq_0 [of h 8 "16 OR (32 OR 64)"] and_or_eq_0 [of h 16 "32 OR 64"]
    and_or_eq_0 [of h 32 64] and_or_eq_0 [of h 3 "0x7c"]
  by (simp_all add: has_bit_simps)

lemma and_eq_mask_iff: "(h :: u32) AND x = x \<longleftrightarrow> NOT h AND x = 0"
proof -
  have "h AND x = x \<longleftrightarrow> (\<forall>n < 32. bit x n \<longrightarrow> bit h n)"
    by (auto simp: bit_eq_iff bit_simps)
  moreover have "NOT h AND x = 0 \<longleftrightarrow> (\<forall>n < 32. bit x n \<longrightarrow> bit h n)"
    by (auto simp: bit_eq_iff bit_simps)
  ultimately show ?thesis by simp
qed

lemma required_mask:
  "(h :: u32) AND 0x5c = 0x5c \<longleftrightarrow> bit h 2 \<and> bit h 3 \<and> bit h 4 \<and> bit h 6"
  unfolding and_eq_mask_iff
  using and_or_eq_0 [of "NOT h" 4 "8 OR (16 OR 64)"] and_or_eq_0 [of "NOT h" 8 "16 OR 64"]
    and_or_eq_0 [of "NOT h" 16 64]
  by (simp add: has_bit_simps bit_not_iff)

lemma xor_eq_0: "(x :: u32) XOR y = 0 \<longleftrightarrow> x = y"
proof
  assume x: "x XOR y = 0"
  have "bit (x XOR y) n = False" for n by (simp only: x bit_0_eq bot_apply bot_bool_def)
  then show "x = y" by (intro bit_word_eqI) (simp only: bit_xor_iff, blast)
qed simp

lemma required_mask_xor: "((h :: u32) AND 0x5c) XOR 0x5c = 0 \<longleftrightarrow> h AND 0x5c = 0x5c"
  by (rule xor_eq_0)

definition low_bits :: "u32 \<Rightarrow> bool" where
  "low_bits h \<longleftrightarrow> take_bit 7 h = h"

lemma low_bits_iff: "low_bits h \<longleftrightarrow> (\<forall>n. bit h n \<longrightarrow> n < 7)"
proof
  assume "low_bits h"
  then have "take_bit 7 h = h" by (simp only: low_bits_def)
  then have "bit (take_bit 7 h) n" if "bit h n" for n using that by (rule ssubst)
  then show "\<forall>n. bit h n \<longrightarrow> n < 7" by (simp add: bit_take_bit_iff)
next
  assume "\<forall>n. bit h n \<longrightarrow> n < 7"
  then show "low_bits h"
    unfolding low_bits_def by (intro bit_word_eqI) (auto simp: bit_take_bit_iff)
qed

lemma low_bits_or: "\<lbrakk>low_bits h; low_bits g\<rbrakk> \<Longrightarrow> low_bits (h OR g)"
  and low_bits_and: "low_bits h \<Longrightarrow> low_bits (h AND g)"
  by (auto simp: low_bits_iff bit_or_iff bit_and_iff)

lemma low_bits_flags [simp]: "low_bits 0" "low_bits 0x01" "low_bits 0x02" "low_bits 0x04"
  "low_bits 0x08" "low_bits 0x10" "low_bits 0x20" "low_bits 0x40"
  by (simp_all add: low_bits_def take_bit_eq_mod)

text \<open>Words with no bit beyond the seven are equal when their flags are.\<close>

lemma has_bits_eqI:
  assumes "low_bits h" "low_bits h'" "bit h 0 = bit h' 0" "bit h 1 = bit h' 1"
    "bit h 2 = bit h' 2" "bit h 3 = bit h' 3" "bit h 4 = bit h' 4" "bit h 5 = bit h' 5"
    "bit h 6 = bit h' 6"
  shows "h = h'"
proof (rule bit_word_eqI)
  fix n :: nat
  consider "7 \<le> n" | "n = 0" | "n = 1" | "n = 2" | "n = 3" | "n = 4" | "n = 5" | "n = 6"
    by linarith
  then show "bit h n = bit h' n"
  proof cases
    case 1
    with assms(1,2) show ?thesis by (auto simp: low_bits_iff)
  qed (use assms(3-) in simp_all)
qed

section \<open>The content of a message\<close>

text \<open>The abstract view: each field is present with a value or absent. \<open>rpc_wf\<close> is the class
  invariant that makes the representation of a content unique up to the cached size.\<close>

record 'u content =
  c_type :: "MsgType option"
  c_id :: "s64 option"
  c_serviceid :: "u32 option"
  c_methodid :: "u32 option"
  c_request :: "byte list option"
  c_response :: "byte list option"
  c_error :: "ErrorCode option"
  c_unknown :: 'u

definition content :: "'u RpcMessage \<Rightarrow> 'u content" where
  "content m = \<lparr>
     c_type = (if has_type m then Some (rm_type m) else None),
     c_id = (if has_id m then Some (rm_id m) else None),
     c_serviceid = (if has_serviceid m then Some (rm_serviceid m) else None),
     c_methodid = (if has_methodid m then Some (rm_methodid m) else None),
     c_request = (if has_request m then Some (rm_request m) else None),
     c_response = (if has_response m then Some (rm_response m) else None),
     c_error = (if has_error m then Some (rm_error m) else None),
     c_unknown = rm_internal_metadata m\<rparr>"

definition rpc_wf :: "'u RpcMessage \<Rightarrow> bool" where
  "rpc_wf m \<longleftrightarrow> low_bits (rm_has_bits m)
     \<and> (\<not> has_type m \<longrightarrow> rm_type m = REQUEST) \<and> (\<not> has_id m \<longrightarrow> rm_id m = 0)
     \<and> (\<not> has_serviceid m \<longrightarrow> rm_serviceid m = 0) \<and> (\<not> has_methodid m \<longrightarrow> rm_methodid m = 0)
     \<and> (\<not> has_request m \<longrightarrow> rm_request m = []) \<and> (\<not> has_response m \<longrightarrow> rm_response m = [])
     \<and> (\<not> has_error m \<longrightarrow> rm_error m = NO_ERROR)"

definition overlay :: "'a option \<Rightarrow> 'a option \<Rightarrow> 'a option" where
  "overlay x y = (case x of None \<Rightarrow> y | Some v \<Rightarrow> Some v)"

definition no_content :: "'u wire_lib \<Rightarrow> 'u content" where
  "no_content W = \<lparr>c_type = None, c_id = None, c_serviceid = None, c_methodid = None,
     c_request = None, c_response = None, c_error = None, c_unknown = no_unknown_fields W\<rparr>"

definition merge_content :: "'u wire_lib \<Rightarrow> 'u content \<Rightarrow> 'u content \<Rightarrow> 'u content" where
  "merge_content W new old = \<lparr>
     c_type = overlay (c_type new) (c_type old), c_id = overlay (c_id new) (c_id old),
     c_serviceid = overlay (c_serviceid new) (c_serviceid old),
     c_methodid = overlay (c_methodid new) (c_methodid old),
     c_request = overlay (c_request new) (c_request old),
     c_response = overlay (c_response new) (c_response old),
     c_error = overlay (c_error new) (c_error old),
     c_unknown = MergeUnknownFields W (c_unknown new) (c_unknown old)\<rparr>"

lemma overlay_simps [simp]: "overlay None y = y" "overlay (Some v) y = Some v" "overlay x None = x"
  by (simp_all add: overlay_def split: option.split)

lemmas has_bit_defs = has_type_def has_id_def has_serviceid_def has_methodid_def has_request_def
  has_response_def has_error_def

lemmas content_simps = content_def has_bit_defs has_bit_simps

lemma has_bit_content:
  "bit (rm_has_bits m) 6 \<longleftrightarrow> c_type (content m) \<noteq> None"
  "bit (rm_has_bits m) 2 \<longleftrightarrow> c_id (content m) \<noteq> None"
  "bit (rm_has_bits m) 3 \<longleftrightarrow> c_serviceid (content m) \<noteq> None"
  "bit (rm_has_bits m) 4 \<longleftrightarrow> c_methodid (content m) \<noteq> None"
  "bit (rm_has_bits m) 0 \<longleftrightarrow> c_request (content m) \<noteq> None"
  "bit (rm_has_bits m) 1 \<longleftrightarrow> c_response (content m) \<noteq> None"
  "bit (rm_has_bits m) 5 \<longleftrightarrow> c_error (content m) \<noteq> None"
  by (simp_all add: content_simps)

text \<open>A well-formed message is determined by its content.\<close>

lemma field_content:
  assumes "rpc_wf m"
  shows "rm_type m = (case c_type (content m) of Some v \<Rightarrow> v | None \<Rightarrow> REQUEST)"
    "rm_id m = (case c_id (content m) of Some v \<Rightarrow> v | None \<Rightarrow> 0)"
    "rm_serviceid m = (case c_serviceid (content m) of Some v \<Rightarrow> v | None \<Rightarrow> 0)"
    "rm_methodid m = (case c_methodid (content m) of Some v \<Rightarrow> v | None \<Rightarrow> 0)"
    "rm_request m = (case c_request (content m) of Some v \<Rightarrow> v | None \<Rightarrow> [])"
    "rm_response m = (case c_response (content m) of Some v \<Rightarrow> v | None \<Rightarrow> [])"
    "rm_error m = (case c_error (content m) of Some v \<Rightarrow> v | None \<Rightarrow> NO_ERROR)"
    "rm_internal_metadata m = c_unknown (content m)"
  using assms by (simp_all add: rpc_wf_def content_simps)

lemma content_eqI:
  assumes wf: "rpc_wf m" "rpc_wf m'"
    and c: "content m = content m'" and s: "rm_cached_size m = rm_cached_size m'"
  shows "m = m'"
proof -
  have "rm_has_bits m = rm_has_bits m'"
    by (rule has_bits_eqI) (use wf in \<open>simp_all add: rpc_wf_def has_bit_content c del: One_nat_def\<close>)
  then show ?thesis
    using field_content [OF wf(1)] field_content [OF wf(2)] s c
    by (intro RpcMessage.RpcMessage.equality) simp_all
qed

lemma content_new: "content (RpcMessage_new W) = no_content W"
  by (simp add: content_simps RpcMessage_new_def no_content_def)

lemma wf_new [simp]: "rpc_wf (RpcMessage_new W)"
  by (simp add: rpc_wf_def has_bit_defs RpcMessage_new_def)


section \<open>The operations on contents\<close>

text \<open>The invariant and the content after each accessor, and after the operations on whole
  messages.\<close>

lemmas wf_simps = rpc_wf_def has_bit_defs has_bit_simps low_bits_or low_bits_and bit_or_iff
  bit_and_iff bit_not_iff

lemma setters_wf:
  assumes "rpc_wf m"
  shows "rpc_wf (set_type t m)" "rpc_wf (set_id i m)" "rpc_wf (set_serviceid n m)"
    "rpc_wf (set_methodid n m)" "rpc_wf (set_request s m)" "rpc_wf (set_response s m)"
    "rpc_wf (set_error e m)" "rpc_wf (mutable_request f m)" "rpc_wf (mutable_response f m)"
    "rpc_wf (set_request_c_string s m)" "rpc_wf (set_response_c_string s m)"
    "rpc_wf (set_request_mem s k m)" "rpc_wf (set_response_mem s k m)"
    "rpc_wf (set_allocated_request p m)" "rpc_wf (set_allocated_response p m)"
  using assms by (simp_all add: rpc_accessors wf_simps split: option.split)

lemma clearers_wf:
  assumes "rpc_wf m"
  shows "rpc_wf (clear_type m)" "rpc_wf (clear_id m)" "rpc_wf (clear_serviceid m)"
    "rpc_wf (clear_methodid m)" "rpc_wf (clear_request m)" "rpc_wf (clear_response m)"
    "rpc_wf (clear_error m)" "rpc_wf (snd (release_request m))" "rpc_wf (snd (release_response m))"
  using assms by (simp_all add: rpc_accessors wf_simps)

lemma setters_content:
  "content (set_type t m) = (content m)\<lparr>c_type := Some t\<rparr>"
  "content (set_id i m) = (content m)\<lparr>c_id := Some i\<rparr>"
  "content (set_serviceid n m) = (content m)\<lparr>c_serviceid := Some n\<rparr>"
  "content (set_methodid n m) = (content m)\<lparr>c_methodid := Some n\<rparr>"
  "content (set_request s m) = (content m)\<lparr>c_request := Some s\<rparr>"
  "content (set_response s m) = (content m)\<lparr>c_response := Some s\<rparr>"
  "content (set_error e m) = (content m)\<lparr>c_error := Some e\<rparr>"
  by (simp_all add: content_simps set_type_def set_id_def set_serviceid_def set_methodid_def
      set_request_def set_response_def set_error_def bit_or_iff)

lemma clearers_content:
  "content (clear_type m) = (content m)\<lparr>c_type := None\<rparr>"
  "content (clear_id m) = (content m)\<lparr>c_id := None\<rparr>"
  "content (clear_serviceid m) = (content m)\<lparr>c_serviceid := None\<rparr>"
  "content (clear_methodid m) = (content m)\<lparr>c_methodid := None\<rparr>"
  "content (clear_request m) = (content m)\<lparr>c_request := None\<rparr>"
  "content (clear_response m) = (content m)\<lparr>c_response := None\<rparr>"
  "content (clear_error m) = (content m)\<lparr>c_error := None\<rparr>"
  by (simp_all add: content_simps clear_type_def clear_id_def clear_serviceid_def
      clear_methodid_def clear_request_def clear_response_def clear_error_def bit_and_iff bit_not_iff)

lemma clear_wf_eq:
  assumes "rpc_wf m"
  shows "Clear W m = (RpcMessage_new W)\<lparr>rm_cached_size := rm_cached_size m\<rparr>"
proof -
  have "rm_type (Clear W m) = REQUEST" "rm_id (Clear W m) = 0" "rm_serviceid (Clear W m) = 0"
    "rm_methodid (Clear W m) = 0" "rm_request (Clear W m) = []" "rm_response (Clear W m) = []"
    "rm_error (Clear W m) = NO_ERROR"
    using assms
    by (auto simp: Clear_def Let_def rpc_wf_def has_bit_defs has_bit_simps mask_simps)
  then show ?thesis
    by (intro RpcMessage.RpcMessage.equality)
      (simp_all add: RpcMessage_new_def, simp_all add: Clear_def Let_def)
qed

text \<open>A conditional assignment is an assignment of a conditional value.\<close>

lemma cond_assign:
  "(if b then m\<lparr>rm_has_bits := h, rm_request := x\<rparr> else m)
   = m\<lparr>rm_has_bits := if b then h else rm_has_bits m, rm_request := if b then x else rm_request m\<rparr>"
  "(if b then m\<lparr>rm_has_bits := h, rm_response := y\<rparr> else m)
   = m\<lparr>rm_has_bits := if b then h else rm_has_bits m, rm_response := if b then y else rm_response m\<rparr>"
  "(if b then m\<lparr>rm_id := i\<rparr> else m) = m\<lparr>rm_id := if b then i else rm_id m\<rparr>"
  "(if b then m\<lparr>rm_serviceid := n\<rparr> else m) = m\<lparr>rm_serviceid := if b then n else rm_serviceid m\<rparr>"
  "(if b then m\<lparr>rm_methodid := n\<rparr> else m) = m\<lparr>rm_methodid := if b then n else rm_methodid m\<rparr>"
  "(if b then m\<lparr>rm_error := e\<rparr> else m) = m\<lparr>rm_error := if b then e else rm_error m\<rparr>"
  "(if b then m\<lparr>rm_type := t\<rparr> else m) = m\<lparr>rm_type := if b then t else rm_type m\<rparr>"
  by simp_all

lemma or_flag:
  "(h :: u32) AND 1 \<noteq> 0 \<Longrightarrow> (g OR 1) OR h = g OR h" "h AND 2 \<noteq> 0 \<Longrightarrow> (g OR 2) OR h = g OR h"
  by (rule bit_word_eqI, auto simp: has_bit_simps bit_simps)+

lemma MergeFrom_sel:
  "rm_internal_metadata (MergeFrom W from m)
   = MergeUnknownFields W (rm_internal_metadata from) (rm_internal_metadata m)"
  "rm_cached_size (MergeFrom W from m) = rm_cached_size m"
  "rm_id (MergeFrom W from m) = (if has_id from then rm_id from else rm_id m)"
  "rm_serviceid (MergeFrom W from m) = (if has_serviceid from then rm_serviceid from else rm_serviceid m)"
  "rm_methodid (MergeFrom W from m) = (if has_methodid from then rm_methodid from else rm_methodid m)"
  "rm_request (MergeFrom W from m) = (if has_request from then rm_request from else rm_request m)"
  "rm_response (MergeFrom W from m) = (if has_response from then rm_response from else rm_response m)"
  "rm_error (MergeFrom W from m) = (if has_error from then rm_error from else rm_error m)"
  "rm_type (MergeFrom W from m) = (if has_type from then rm_type from else rm_type m)"
  unfolding MergeFrom_def cond_assign
  by (simp_all add: Let_def has_bit_defs has_bit_simps mask_simps)

lemma MergeFrom_has_bits:
  "rm_has_bits (MergeFrom W from m) = (if rm_has_bits from AND 0x7f = 0 then rm_has_bits m
     else rm_has_bits m OR rm_has_bits from)"
proof -
  have "rm_has_bits (MergeFrom W from m) =
    (let h = rm_has_bits from; g = rm_has_bits m
     in if h AND 0x7f = 0 then g
        else (let g = (if h AND 1 \<noteq> 0 then g OR 1 else g) in if h AND 2 \<noteq> 0 then g OR 2 else g) OR h)"
    unfolding MergeFrom_def cond_assign by (simp add: Let_def)
  then show ?thesis by (auto simp: Let_def or_flag)
qed

lemma merge_bit: "n < 7 \<Longrightarrow>
  bit (rm_has_bits (MergeFrom W from m)) n = (bit (rm_has_bits m) n \<or> bit (rm_has_bits from) n)"
proof -
  assume "n < 7"
  then consider "n = 0" | "n = 1" | "n = 2" | "n = 3" | "n = 4" | "n = 5" | "n = 6" by linarith
  then show ?thesis
    by cases (simp_all add: MergeFrom_has_bits bit_or_iff mask_simps)
qed

lemma MergeFrom_content: "content (MergeFrom W from m) = merge_content W (content from) (content m)"
  by (simp add: content_simps merge_content_def MergeFrom_sel merge_bit)

lemma MergeFrom_has:
  "has_type (MergeFrom W from m) \<longleftrightarrow> has_type from \<or> has_type m"
  "has_id (MergeFrom W from m) \<longleftrightarrow> has_id from \<or> has_id m"
  "has_serviceid (MergeFrom W from m) \<longleftrightarrow> has_serviceid from \<or> has_serviceid m"
  "has_methodid (MergeFrom W from m) \<longleftrightarrow> has_methodid from \<or> has_methodid m"
  "has_request (MergeFrom W from m) \<longleftrightarrow> has_request from \<or> has_request m"
  "has_response (MergeFrom W from m) \<longleftrightarrow> has_response from \<or> has_response m"
  "has_error (MergeFrom W from m) \<longleftrightarrow> has_error from \<or> has_error m"
  by (auto simp: has_bit_defs has_bit_simps merge_bit)

lemma MergeFrom_wf: "\<lbrakk>rpc_wf from; rpc_wf m\<rbrakk> \<Longrightarrow> rpc_wf (MergeFrom W from m)"
  unfolding rpc_wf_def MergeFrom_has MergeFrom_sel by (simp add: MergeFrom_has_bits low_bits_or)

lemma Clear_wf: "rpc_wf m \<Longrightarrow> rpc_wf (Clear W m)"
  by (simp add: clear_wf_eq rpc_wf_def has_bit_defs RpcMessage_new_def)

lemma Clear_content: "content (Clear W m) = no_content W"
  by (simp add: content_simps Clear_def Let_def no_content_def)

lemma copy_wf: "rpc_wf from \<Longrightarrow> rpc_wf (RpcMessage_copy W from)"
  by (simp add: rpc_wf_def has_bit_defs RpcMessage_copy_def)

lemma content_cached [simp]: "content (m\<lparr>rm_cached_size := k\<rparr>) = content m"
  by (simp add: content_simps)

lemma wf_cached [simp]: "rpc_wf (m\<lparr>rm_cached_size := k\<rparr>) = rpc_wf m"
  by (simp add: rpc_wf_def has_bit_defs)

lemma InternalSwap_wf: "\<lbrakk>rpc_wf m; rpc_wf m'; InternalSwap m m' = (a, b)\<rbrakk> \<Longrightarrow> rpc_wf a \<and> rpc_wf b"
  by (auto simp: InternalSwap_def)

lemma IsInitialized_content:
  "IsInitialized m \<longleftrightarrow> c_type (content m) \<noteq> None \<and> c_id (content m) \<noteq> None
     \<and> c_serviceid (content m) \<noteq> None \<and> c_methodid (content m) \<noteq> None"
  by (auto simp: IsInitialized_def required_mask content_simps)

context wire
begin

lemma merge_content_none: "merge_content W (no_content W) c = c" "merge_content W c (no_content W) = c"
  by (simp_all add: merge_content_def no_content_def unknown)

lemma CopyFrom_content: "content (CopyFrom W False from m) = content from"
  by (simp add: CopyFrom_def MergeFrom_content Clear_content merge_content_none)

lemma CopyFrom_eq:
  assumes "rpc_wf from" "rpc_wf m"
  shows "CopyFrom W False from m = from\<lparr>rm_cached_size := rm_cached_size m\<rparr>"
proof (rule content_eqI)
  show "rpc_wf (CopyFrom W False from m)"
    using assms by (simp add: CopyFrom_def MergeFrom_wf Clear_wf)
  show "rm_cached_size (CopyFrom W False from m)
      = rm_cached_size (from\<lparr>rm_cached_size := rm_cached_size m\<rparr>)"
    using assms by (simp add: CopyFrom_def MergeFrom_sel clear_wf_eq)
qed (simp_all add: assms CopyFrom_content)

lemma copy_eq:
  assumes "rpc_wf from"
  shows "RpcMessage_copy W from = from\<lparr>rm_cached_size := 0\<rparr>"
  by (rule content_eqI) (simp_all add: assms copy_wf, simp_all add: RpcMessage_copy_def content_simps unknown)

end

end
