(* ===== verification/RpcMessageCoding.thy ===== *)
theory RpcMessageCoding
  imports RpcMessage
begin

text \<open>
  The wire form of \<open>RpcMessage\<close> (\<open>protobufCoder/RpcMessage.pb.cc\<close>): the two serialisers, the size
  computation and the parser \<open>MergePartialFromCodedStream\<close>, over the protobuf runtime \<open>W\<close>. The
  parser is a loop over the fields of the input; \<open>parse_step\<close> is its body and the recursion is a
  partial function, so that its termination on every input is a theorem.
\<close>

section \<open>Serialisation\<close>

text \<open>\<open>SerializeWithCachedSizes\<close> is the bytes it writes to the output.\<close>

definition SerializeWithCachedSizes :: "'u wire_lib \<Rightarrow> 'u RpcMessage \<Rightarrow> byte list" where
  "SerializeWithCachedSizes W m =
     (let cached_has_bits = rm_has_bits m
      in (if cached_has_bits AND 0x40 \<noteq> 0 then WriteEnum W 1 (MsgType_int (rm_type m)) else [])
       @ (if cached_has_bits AND 0x04 \<noteq> 0 then WriteInt64 W 2 (rm_id m) else [])
       @ (if cached_has_bits AND 0x08 \<noteq> 0 then WriteUInt32 W 3 (rm_serviceid m) else [])
       @ (if cached_has_bits AND 0x10 \<noteq> 0 then WriteUInt32 W 4 (rm_methodid m) else [])
       @ (if cached_has_bits AND 0x01 \<noteq> 0 then WriteBytesMaybeAliased W 5 (rm_request m) else [])
       @ (if cached_has_bits AND 0x02 \<noteq> 0 then WriteBytesMaybeAliased W 6 (rm_response m) else [])
       @ (if cached_has_bits AND 0x20 \<noteq> 0 then WriteEnum W 7 (ErrorCode_int (rm_error m)) else [])
       @ (if have_unknown_fields W (rm_internal_metadata m)
          then SerializeUnknownFields W (rm_internal_metadata m) else []))"

definition InternalSerializeWithCachedSizesToArray ::
    "'u wire_lib \<Rightarrow> 'u RpcMessage \<Rightarrow> byte list \<Rightarrow> byte list" where
  "InternalSerializeWithCachedSizesToArray W m target =
     (let h = rm_has_bits m;
          target = (if h AND 0x40 \<noteq> 0 then WriteEnumToArray W 1 (MsgType_int (rm_type m)) target
                    else target);
          target = (if h AND 0x04 \<noteq> 0 then WriteInt64ToArray W 2 (rm_id m) target else target);
          target = (if h AND 0x08 \<noteq> 0 then WriteUInt32ToArray W 3 (rm_serviceid m) target
                    else target);
          target = (if h AND 0x10 \<noteq> 0 then WriteUInt32ToArray W 4 (rm_methodid m) target
                    else target);
          target = (if h AND 0x01 \<noteq> 0 then WriteBytesToArray W 5 (rm_request m) target else target);
          target = (if h AND 0x02 \<noteq> 0 then WriteBytesToArray W 6 (rm_response m) target
                    else target);
          target = (if h AND 0x20 \<noteq> 0 then WriteEnumToArray W 7 (ErrorCode_int (rm_error m)) target
                    else target)
      in if have_unknown_fields W (rm_internal_metadata m)
         then SerializeUnknownFieldsToArray W (rm_internal_metadata m) target else target)"

definition RequiredFieldsByteSizeFallback :: "'u wire_lib \<Rightarrow> 'u RpcMessage \<Rightarrow> u64" where
  "RequiredFieldsByteSizeFallback W m =
     (let total_size = 0;
          total_size = (if has_id m then total_size + (1 + Int64Size W (rm_id m)) else total_size);
          total_size = (if has_serviceid m then total_size + (1 + UInt32Size W (rm_serviceid m))
                        else total_size);
          total_size = (if has_methodid m then total_size + (1 + UInt32Size W (rm_methodid m))
                        else total_size)
      in if has_type m then total_size + (1 + EnumSize W (MsgType_int (rm_type m)))
         else total_size)"

text \<open>\<open>ByteSizeLong\<close> gives the size and the message with its cached size set.\<close>

definition ByteSizeLong :: "'u wire_lib \<Rightarrow> 'u RpcMessage \<Rightarrow> u64 \<times> 'u RpcMessage" where
  "ByteSizeLong W m =
     (let total_size = (if have_unknown_fields W (rm_internal_metadata m)
                        then ComputeUnknownFieldsSize W (rm_internal_metadata m) else 0);
          total_size =
            (if (rm_has_bits m AND 0x5c) XOR 0x5c = 0 then
               total_size + (1 + Int64Size W (rm_id m)) + (1 + UInt32Size W (rm_serviceid m))
                 + (1 + UInt32Size W (rm_methodid m)) + (1 + EnumSize W (MsgType_int (rm_type m)))
             else total_size + RequiredFieldsByteSizeFallback W m);
          cached_has_bits = rm_has_bits m;
          total_size =
            (if cached_has_bits AND 0x03 \<noteq> 0 then
               (let total_size = (if cached_has_bits AND 0x01 \<noteq> 0
                                  then total_size + (1 + BytesSize W (rm_request m)) else total_size)
                in if cached_has_bits AND 0x02 \<noteq> 0
                   then total_size + (1 + BytesSize W (rm_response m)) else total_size)
             else total_size);
          total_size = (if cached_has_bits AND 0x20 \<noteq> 0
                        then total_size + (1 + EnumSize W (ErrorCode_int (rm_error m)))
                        else total_size)
      in (total_size, SetCachedSize (ToCachedSize W total_size) m))"

section \<open>Parsing\<close>

text \<open>The outcome of a field: go on with the message and the rest of the input, or leave the loop
  at \<open>success\<close> or \<open>failure\<close>.\<close>

datatype 'u parse_outcome = More "'u RpcMessage" "byte list"
  | Success "'u RpcMessage" "byte list"
  | Failure "'u RpcMessage"

text \<open>\<open>DO\<close>: a failed read jumps to \<open>failure\<close>.\<close>

definition DO :: "byte list option \<Rightarrow> 'u RpcMessage \<Rightarrow> 'u parse_outcome" where
  "DO rest m = (case rest of None \<Rightarrow> Failure m | Some r \<Rightarrow> More m r)"

definition handle_unusual ::
    "'u wire_lib \<Rightarrow> u32 \<Rightarrow> 'u RpcMessage \<Rightarrow> byte list \<Rightarrow> 'u parse_outcome" where
  "handle_unusual W tag m inp =
     (if tag = 0 then Success m inp
      else (case SkipField W tag (rm_internal_metadata m) inp of
              (u, rest) \<Rightarrow> DO rest (m\<lparr>rm_internal_metadata := u\<rparr>)))"

definition add_varint :: "'u wire_lib \<Rightarrow> nat \<Rightarrow> s32 \<Rightarrow> 'u RpcMessage \<Rightarrow> 'u RpcMessage" where
  "add_varint W k value m =
     m\<lparr>rm_internal_metadata := AddVarint W k (s32_to_u64 value) (rm_internal_metadata m)\<rparr>"

definition parse_type :: "'u wire_lib \<Rightarrow> 'u RpcMessage \<Rightarrow> byte list \<Rightarrow> 'u parse_outcome" where
  "parse_type W m inp = (case ReadEnum W 0 inp of
      (value, None) \<Rightarrow> Failure m
    | (value, Some rest) \<Rightarrow>
        More (if MsgType_IsValid value then set_type (MsgType_cast value) m
              else add_varint W 1 value m) rest)"

definition parse_error :: "'u wire_lib \<Rightarrow> 'u RpcMessage \<Rightarrow> byte list \<Rightarrow> 'u parse_outcome" where
  "parse_error W m inp = (case ReadEnum W 0 inp of
      (value, None) \<Rightarrow> Failure m
    | (value, Some rest) \<Rightarrow>
        More (if ErrorCode_IsValid value then set_error (ErrorCode_cast value) m
              else add_varint W 7 value m) rest)"

definition parse_id :: "'u wire_lib \<Rightarrow> 'u RpcMessage \<Rightarrow> byte list \<Rightarrow> 'u parse_outcome" where
  "parse_id W m inp =
     (let m = m\<lparr>rm_has_bits := rm_has_bits m OR 0x04\<rparr>
      in case ReadInt64 W (rm_id m) inp of (i, rest) \<Rightarrow> DO rest (m\<lparr>rm_id := i\<rparr>))"

definition parse_serviceid :: "'u wire_lib \<Rightarrow> 'u RpcMessage \<Rightarrow> byte list \<Rightarrow> 'u parse_outcome" where
  "parse_serviceid W m inp =
     (let m = m\<lparr>rm_has_bits := rm_has_bits m OR 0x08\<rparr>
      in case ReadUInt32 W (rm_serviceid m) inp of (n, rest) \<Rightarrow> DO rest (m\<lparr>rm_serviceid := n\<rparr>))"

definition parse_methodid :: "'u wire_lib \<Rightarrow> 'u RpcMessage \<Rightarrow> byte list \<Rightarrow> 'u parse_outcome" where
  "parse_methodid W m inp =
     (let m = m\<lparr>rm_has_bits := rm_has_bits m OR 0x10\<rparr>
      in case ReadUInt32 W (rm_methodid m) inp of (n, rest) \<Rightarrow> DO rest (m\<lparr>rm_methodid := n\<rparr>))"

definition parse_request :: "'u wire_lib \<Rightarrow> 'u RpcMessage \<Rightarrow> byte list \<Rightarrow> 'u parse_outcome" where
  "parse_request W m inp = (case ReadBytes W (rm_request m) inp of
      (s, rest) \<Rightarrow> DO rest (mutable_request (\<lambda>_. s) m))"

definition parse_response :: "'u wire_lib \<Rightarrow> 'u RpcMessage \<Rightarrow> byte list \<Rightarrow> 'u parse_outcome" where
  "parse_response W m inp = (case ReadBytes W (rm_response m) inp of
      (s, rest) \<Rightarrow> DO rest (mutable_response (\<lambda>_. s) m))"

text \<open>The body of the loop: read a tag, dispatch on its field number and check its wire type.\<close>

definition parse_step :: "'u wire_lib \<Rightarrow> 'u RpcMessage \<Rightarrow> byte list \<Rightarrow> 'u parse_outcome" where
  "parse_step W m inp =
     (case ReadTagWithCutoffNoLastTag W inp of ((tag, second), inp) \<Rightarrow>
        if \<not> second then handle_unusual W tag m inp
        else let n = GetTagFieldNumber W tag; low = (ucast tag :: byte) in
          if n = 1 then if low = 8 then parse_type W m inp else handle_unusual W tag m inp
          else if n = 2 then if low = 16 then parse_id W m inp else handle_unusual W tag m inp
          else if n = 3 then if low = 24 then parse_serviceid W m inp else handle_unusual W tag m inp
          else if n = 4 then if low = 32 then parse_methodid W m inp else handle_unusual W tag m inp
          else if n = 5 then if low = 42 then parse_request W m inp else handle_unusual W tag m inp
          else if n = 6 then if low = 50 then parse_response W m inp else handle_unusual W tag m inp
          else if n = 7 then if low = 56 then parse_error W m inp else handle_unusual W tag m inp
          else handle_unusual W tag m inp)"

partial_function (option) MergePartialFromCodedStream ::
    "'u wire_lib \<Rightarrow> 'u RpcMessage \<Rightarrow> byte list \<Rightarrow> (bool \<times> 'u RpcMessage \<times> byte list) option" where
  "MergePartialFromCodedStream W m inp = (case parse_step W m inp of
      More m' rest \<Rightarrow> MergePartialFromCodedStream W m' rest
    | Success m' rest \<Rightarrow> Some (True, m', rest)
    | Failure m' \<Rightarrow> Some (False, m', []))"

declare MergePartialFromCodedStream.simps [code]

section \<open>Termination\<close>

lemmas parse_field_defs = parse_type_def parse_error_def parse_id_def parse_serviceid_def
  parse_methodid_def parse_request_def parse_response_def

lemma DO_more: "DO rest m = More m' r \<Longrightarrow> rest = Some r"
  by (simp add: DO_def split: option.splits)

text \<open>The outcome of a step on a given tag.\<close>

definition dispatch ::
    "'u wire_lib \<Rightarrow> u32 \<Rightarrow> bool \<Rightarrow> 'u RpcMessage \<Rightarrow> byte list \<Rightarrow> 'u parse_outcome" where
  "dispatch W tag second m inp =
     (if second \<and> GetTagFieldNumber W tag = 1 \<and> (ucast tag :: byte) = 8 then parse_type W m inp
      else if second \<and> GetTagFieldNumber W tag = 2 \<and> (ucast tag :: byte) = 16 then parse_id W m inp
      else if second \<and> GetTagFieldNumber W tag = 3 \<and> (ucast tag :: byte) = 24
        then parse_serviceid W m inp
      else if second \<and> GetTagFieldNumber W tag = 4 \<and> (ucast tag :: byte) = 32
        then parse_methodid W m inp
      else if second \<and> GetTagFieldNumber W tag = 5 \<and> (ucast tag :: byte) = 42
        then parse_request W m inp
      else if second \<and> GetTagFieldNumber W tag = 6 \<and> (ucast tag :: byte) = 50
        then parse_response W m inp
      else if second \<and> GetTagFieldNumber W tag = 7 \<and> (ucast tag :: byte) = 56
        then parse_error W m inp
      else handle_unusual W tag m inp)"

lemma parse_step_dispatch:
  "ReadTagWithCutoffNoLastTag W inp = ((tag, second), r) \<Longrightarrow> parse_step W m inp = dispatch W tag second m r"
  by (simp add: parse_step_def dispatch_def Let_def)

lemma if_member: "\<lbrakk>x \<in> S; y \<in> S\<rbrakk> \<Longrightarrow> (if b then x else y) \<in> S"
  by simp

lemma dispatch_zero: "dispatch W 0 second m inp = handle_unusual W 0 m inp"
  by (simp add: dispatch_def)

lemma dispatch_member:
  "dispatch W tag second m inp \<in> {parse_type W m inp, parse_id W m inp, parse_serviceid W m inp,
     parse_methodid W m inp, parse_request W m inp, parse_response W m inp, parse_error W m inp,
     handle_unusual W tag m inp}"
  unfolding dispatch_def by (intro if_member insertI1 insertI2 singletonI)

lemma dispatch_cases:
  assumes "dispatch W tag second m inp = out"
  obtains (unusual) "handle_unusual W tag m inp = out"
    | (field) f where "tag \<noteq> 0" "f \<in> {parse_type, parse_id, parse_serviceid, parse_methodid,
        parse_request, parse_response, parse_error}" "f W m inp = out"
proof (cases "tag = 0")
  case True
  with assms show ?thesis by (intro unusual) (simp add: dispatch_zero)
next
  case False
  from dispatch_member [of W tag second m inp] show ?thesis
    unfolding assms
    apply (elim insertE emptyE)
    subgoal by (rule field [OF False, of parse_type]) simp_all
    subgoal by (rule field [OF False, of parse_id]) simp_all
    subgoal by (rule field [OF False, of parse_serviceid]) simp_all
    subgoal by (rule field [OF False, of parse_methodid]) simp_all
    subgoal by (rule field [OF False, of parse_request]) simp_all
    subgoal by (rule field [OF False, of parse_response]) simp_all
    subgoal by (rule field [OF False, of parse_error]) simp_all
    by (rule unusual) simp
qed

context wire
begin

lemma parse_field_shrinks:
  assumes "f \<in> {parse_type, parse_id, parse_serviceid, parse_methodid, parse_request, parse_response,
      parse_error}" "f W m inp = More m' rest"
  shows "length rest \<le> length inp"
  using assms
  by (auto simp: parse_field_defs Let_def split: prod.splits option.splits dest!: DO_more
      dest: read_enum_shrinks read_int64_shrinks read_uint32_shrinks read_bytes_shrinks)

lemma unusual_shrinks: "handle_unusual W tag m inp = More m' rest \<Longrightarrow> tag \<noteq> 0 \<and> length rest \<le> length inp"
  by (auto simp: handle_unusual_def split: if_splits prod.splits dest!: DO_more dest: skip_shrinks)

lemma parse_step_shrinks:
  assumes "parse_step W m inp = More m' rest"
  shows "length rest < length inp"
proof -
  obtain tag second r where t: "ReadTagWithCutoffNoLastTag W inp = ((tag, second), r)"
    by (metis prod.exhaust)
  from assms have "dispatch W tag second m r = More m' rest"
    by (simp add: parse_step_dispatch [OF t])
  then have "tag \<noteq> 0 \<and> length rest \<le> length r"
  proof (cases rule: dispatch_cases)
    case unusual
    then show ?thesis by (rule unusual_shrinks)
  next
    case (field f)
    then show ?thesis using parse_field_shrinks by auto
  qed
  with tag_consumes [OF t] show ?thesis by simp
qed

lemma parse_terminates: "\<exists>res. MergePartialFromCodedStream W m inp = Some res"
proof (induction inp arbitrary: m rule: length_induct)
  case (1 inp)
  show ?case
  proof (cases "parse_step W m inp")
    case (More m' rest)
    with 1 parse_step_shrinks [OF More] show ?thesis
      by (simp add: MergePartialFromCodedStream.simps [of W m inp])
  qed (subst MergePartialFromCodedStream.simps, simp only: parse_outcome.case, blast)+
qed

end

section \<open>The class invariant\<close>

text \<open>Every exit of the parser, the failing ones included, leaves a well-formed message.\<close>

fun outcome_message :: "'u parse_outcome \<Rightarrow> 'u RpcMessage" where
  "outcome_message (More m r) = m"
| "outcome_message (Success m r) = m"
| "outcome_message (Failure m) = m"

lemma outcome_DO [simp]: "outcome_message (DO rest m) = m"
  by (simp add: DO_def split: option.split)

lemma wf_unknown [simp]: "rpc_wf (m\<lparr>rm_internal_metadata := u\<rparr>) = rpc_wf m"
  by (simp add: rpc_wf_def has_bit_defs)

lemma set_then_assign:
  "m\<lparr>rm_has_bits := rm_has_bits m OR 0x04, rm_id := i\<rparr> = set_id i m"
  "m\<lparr>rm_has_bits := rm_has_bits m OR 0x08, rm_serviceid := n\<rparr> = set_serviceid n m"
  "m\<lparr>rm_has_bits := rm_has_bits m OR 0x10, rm_methodid := n\<rparr> = set_methodid n m"
  "mutable_request (\<lambda>_. s) m = set_request s m" "mutable_response (\<lambda>_. s) m = set_response s m"
  by (simp_all add: rpc_accessors)

lemma parse_field_outcome:
  "outcome_message (parse_id W m inp) = set_id (fst (ReadInt64 W (rm_id m) inp)) m"
  "outcome_message (parse_serviceid W m inp)
     = set_serviceid (fst (ReadUInt32 W (rm_serviceid m) inp)) m"
  "outcome_message (parse_methodid W m inp)
     = set_methodid (fst (ReadUInt32 W (rm_methodid m) inp)) m"
  "outcome_message (parse_request W m inp) = set_request (fst (ReadBytes W (rm_request m) inp)) m"
  "outcome_message (parse_response W m inp) = set_response (fst (ReadBytes W (rm_response m) inp)) m"
  by (simp_all add: parse_field_defs Let_def set_then_assign split: prod.split)

lemma parse_field_wf:
  assumes "rpc_wf m" "f \<in> {parse_type, parse_id, parse_serviceid, parse_methodid, parse_request,
    parse_response, parse_error}"
  shows "rpc_wf (outcome_message (f W m inp))"
proof -
  have "rpc_wf (outcome_message (parse_type W m inp))" "rpc_wf (outcome_message (parse_error W m inp))"
    using assms(1)
    by (simp_all add: parse_type_def parse_error_def add_varint_def setters_wf
        split: prod.split option.split)
  with assms show ?thesis by (auto simp: parse_field_outcome setters_wf)
qed

lemma unusual_wf: "rpc_wf m \<Longrightarrow> rpc_wf (outcome_message (handle_unusual W tag m inp))"
  by (simp add: handle_unusual_def split: prod.split)

lemma parse_step_wf: "rpc_wf m \<Longrightarrow> rpc_wf (outcome_message (parse_step W m inp))"
proof -
  assume wf: "rpc_wf m"
  obtain tag second r where t: "ReadTagWithCutoffNoLastTag W inp = ((tag, second), r)"
    by (metis prod.exhaust)
  have "rpc_wf (outcome_message (dispatch W tag second m r))"
  proof (rule dispatch_cases [OF refl])
    assume "handle_unusual W tag m r = dispatch W tag second m r"
    with unusual_wf [OF wf, of W tag r] show ?thesis by simp
  next
    fix f
    assume "f W m r = dispatch W tag second m r" "f \<in> {parse_type, parse_id, parse_serviceid,
      parse_methodid, parse_request, parse_response, parse_error}"
    with parse_field_wf [OF wf, of f W r] show ?thesis by simp
  qed
  then show ?thesis by (simp only: parse_step_dispatch [OF t])
qed

lemma parse_wf:
  assumes "MergePartialFromCodedStream W m inp = Some res" "rpc_wf m"
  shows "rpc_wf (fst (snd res))"
  using assms
proof (induction W m inp res rule: MergePartialFromCodedStream.raw_induct [rotated, consumes 1])
  case (1 f W m inp res)
  from parse_step_wf [OF 1(3), of W inp] 1(1,2) show ?case
    by (cases "parse_step W m inp") auto
qed

section \<open>The serialisers agree\<close>

lemma append_if: "(if b then xs @ ys else xs) = xs @ (if b then ys else [])"
  by simp

lemma of_nat_length_if: "of_nat (length (if b then xs else [])) = (if b then of_nat (length xs) else 0)"
  by simp

context wire
begin

lemma to_array_serialize:
  "InternalSerializeWithCachedSizesToArray W m target = target @ SerializeWithCachedSizes W m"
  unfolding InternalSerializeWithCachedSizesToArray_def SerializeWithCachedSizes_def to_array append_if
  by (simp add: Let_def)

lemma fallback_size:
  "bit h 2 \<and> bit h 3 \<and> bit h 4 \<and> bit h 6 \<Longrightarrow> rm_has_bits m = h \<Longrightarrow>
   RequiredFieldsByteSizeFallback W m = (1 + Int64Size W (rm_id m)) + (1 + UInt32Size W (rm_serviceid m))
     + (1 + UInt32Size W (rm_methodid m)) + (1 + EnumSize W (MsgType_int (rm_type m)))"
  by (simp add: RequiredFieldsByteSizeFallback_def Let_def has_bit_defs has_bit_simps)

lemma size_serialize: "fst (ByteSizeLong W m) = of_nat (length (SerializeWithCachedSizes W m))"
proof -
  let ?h = "rm_has_bits m"
  let ?opt = "\<lambda>b x. if b then 1 + x else 0 :: u64"
  have s: "of_nat (length (SerializeWithCachedSizes W m)) =
      ?opt (bit ?h 6) (EnumSize W (MsgType_int (rm_type m)))
    + (?opt (bit ?h 2) (Int64Size W (rm_id m)) + (?opt (bit ?h 3) (UInt32Size W (rm_serviceid m))
    + (?opt (bit ?h 4) (UInt32Size W (rm_methodid m)) + (?opt (bit ?h 0) (BytesSize W (rm_request m))
    + (?opt (bit ?h 1) (BytesSize W (rm_response m))
    + (?opt (bit ?h 5) (EnumSize W (ErrorCode_int (rm_error m)))
    + (if have_unknown_fields W (rm_internal_metadata m)
       then ComputeUnknownFieldsSize W (rm_internal_metadata m) else 0)))))))"
    unfolding SerializeWithCachedSizes_def Let_def length_append of_nat_add of_nat_length_if
    by (simp add: sizes has_bit_simps)
  have r: "RequiredFieldsByteSizeFallback W m = ?opt (bit ?h 2) (Int64Size W (rm_id m))
    + ?opt (bit ?h 3) (UInt32Size W (rm_serviceid m)) + ?opt (bit ?h 4) (UInt32Size W (rm_methodid m))
    + ?opt (bit ?h 6) (EnumSize W (MsgType_int (rm_type m)))"
    by (simp add: RequiredFieldsByteSizeFallback_def Let_def has_bit_defs has_bit_simps)
  have "fst (ByteSizeLong W m) =
      (if have_unknown_fields W (rm_internal_metadata m)
       then ComputeUnknownFieldsSize W (rm_internal_metadata m) else 0)
    + RequiredFieldsByteSizeFallback W m + ?opt (bit ?h 0) (BytesSize W (rm_request m))
    + ?opt (bit ?h 1) (BytesSize W (rm_response m))
    + ?opt (bit ?h 5) (EnumSize W (ErrorCode_int (rm_error m)))"
    using fallback_size [of ?h m]
    by (simp add: ByteSizeLong_def Let_def required_mask_xor required_mask has_bit_simps mask_simps
        add.assoc)
  then show ?thesis unfolding s r by (simp only: ac_simps)
qed

lemma cached_size_serialize:
  assumes "length (SerializeWithCachedSizes W m) < 2147483648"
  shows "snd (ByteSizeLong W m)
    = SetCachedSize (of_nat (length (SerializeWithCachedSizes W m))) m"
  using cached_size [OF assms] size_serialize [of m]
  by (simp add: ByteSizeLong_def Let_def)

end

section \<open>Parsing what was serialised\<close>

lemma parse_more:
  "parse_step W m inp = More m' r \<Longrightarrow>
   MergePartialFromCodedStream W m inp = MergePartialFromCodedStream W m' r"
  by (subst MergePartialFromCodedStream.simps) simp

text \<open>A field written by the serialiser, when it is present, is one turn of the loop.\<close>

lemma parse_present:
  assumes "b \<Longrightarrow> parse_step W m (seg @ rest) = More (g m) rest"
  shows "MergePartialFromCodedStream W m ((if b then seg else []) @ rest)
    = MergePartialFromCodedStream W (if b then g m else m) rest"
  using parse_more [OF assms] by simp

definition onto :: "'u RpcMessage \<Rightarrow> 'u RpcMessage \<Rightarrow> 'u RpcMessage" where
  "onto from m =
     (let m = (if has_type from then set_type (rm_type from) m else m);
          m = (if has_id from then set_id (rm_id from) m else m);
          m = (if has_serviceid from then set_serviceid (rm_serviceid from) m else m);
          m = (if has_methodid from then set_methodid (rm_methodid from) m else m);
          m = (if has_request from then set_request (rm_request from) m else m);
          m = (if has_response from then set_response (rm_response from) m else m)
      in if has_error from then set_error (rm_error from) m else m)"

lemma wf_if: "\<lbrakk>rpc_wf x; rpc_wf y\<rbrakk> \<Longrightarrow> rpc_wf (if b then x else y)"
  by simp

lemma onto_wf: "rpc_wf m \<Longrightarrow> rpc_wf (onto from m)"
  unfolding onto_def Let_def by (intro wf_if setters_wf)

lemma content_if: "content (if b then x else y) = (if b then content x else content y)"
  by simp

lemma onto_content:
  "content (onto from m) = (content m)\<lparr>
     c_type := overlay (c_type (content from)) (c_type (content m)),
     c_id := overlay (c_id (content from)) (c_id (content m)),
     c_serviceid := overlay (c_serviceid (content from)) (c_serviceid (content m)),
     c_methodid := overlay (c_methodid (content from)) (c_methodid (content m)),
     c_request := overlay (c_request (content from)) (c_request (content m)),
     c_response := overlay (c_response (content from)) (c_response (content m)),
     c_error := overlay (c_error (content from)) (c_error (content m))\<rparr>"
proof -
  have up: "(if b then c\<lparr>c_type := Some t\<rparr> else c) = c\<lparr>c_type := overlay (if b then Some t else None) (c_type c)\<rparr>"
    "(if b then c\<lparr>c_id := Some i\<rparr> else c) = c\<lparr>c_id := overlay (if b then Some i else None) (c_id c)\<rparr>"
    "(if b then c\<lparr>c_serviceid := Some n\<rparr> else c)
      = c\<lparr>c_serviceid := overlay (if b then Some n else None) (c_serviceid c)\<rparr>"
    "(if b then c\<lparr>c_methodid := Some n\<rparr> else c)
      = c\<lparr>c_methodid := overlay (if b then Some n else None) (c_methodid c)\<rparr>"
    "(if b then c\<lparr>c_request := Some s\<rparr> else c)
      = c\<lparr>c_request := overlay (if b then Some s else None) (c_request c)\<rparr>"
    "(if b then c\<lparr>c_response := Some s\<rparr> else c)
      = c\<lparr>c_response := overlay (if b then Some s else None) (c_response c)\<rparr>"
    "(if b then c\<lparr>c_error := Some e\<rparr> else c)
      = c\<lparr>c_error := overlay (if b then Some e else None) (c_error c)\<rparr>"
    for b t i n s e and c :: "'u content" by simp_all
  have "c_type (content from) = (if has_type from then Some (rm_type from) else None)"
    "c_id (content from) = (if has_id from then Some (rm_id from) else None)"
    "c_serviceid (content from) = (if has_serviceid from then Some (rm_serviceid from) else None)"
    "c_methodid (content from) = (if has_methodid from then Some (rm_methodid from) else None)"
    "c_request (content from) = (if has_request from then Some (rm_request from) else None)"
    "c_response (content from) = (if has_response from then Some (rm_response from) else None)"
    "c_error (content from) = (if has_error from then Some (rm_error from) else None)"
    by (simp_all add: content_def)
  then show ?thesis
    unfolding onto_def Let_def content_if setters_content up by simp
qed

lemma onto_cached: "rm_cached_size (onto from m) = rm_cached_size m"
  by (simp add: onto_def Let_def rpc_accessors)

context wire
begin

lemma parse_step_type: "parse_step W m (WriteEnum W 1 (MsgType_int t) @ rest) = More (set_type t m) rest"
  using enum_field [of 1 "MsgType_int t" rest] field_number [of 1 0]
  by (auto simp: parse_step_def Let_def parse_type_def)

lemma parse_step_error:
  "parse_step W m (WriteEnum W 7 (ErrorCode_int e) @ rest) = More (set_error e m) rest"
  using enum_field [of 7 "ErrorCode_int e" rest] field_number [of 7 0]
  by (auto simp: parse_step_def Let_def parse_error_def)

lemma parse_step_id: "parse_step W m (WriteInt64 W 2 i @ rest) = More (set_id i m) rest"
  using int64_field [of 2 i rest] field_number [of 2 0]
  by (auto simp: parse_step_def Let_def parse_id_def DO_def set_then_assign)

lemma parse_step_serviceid:
  "parse_step W m (WriteUInt32 W 3 n @ rest) = More (set_serviceid n m) rest"
  using uint32_field [of 3 n rest] field_number [of 3 0]
  by (auto simp: parse_step_def Let_def parse_serviceid_def DO_def set_then_assign)

lemma parse_step_methodid:
  "parse_step W m (WriteUInt32 W 4 n @ rest) = More (set_methodid n m) rest"
  using uint32_field [of 4 n rest] field_number [of 4 0]
  by (auto simp: parse_step_def Let_def parse_methodid_def DO_def set_then_assign)

lemma parse_step_request: "length s < 2147483648 \<Longrightarrow>
   parse_step W m (WriteBytesMaybeAliased W 5 s @ rest) = More (set_request s m) rest"
  using bytes_field [of 5 s rest] field_number [of 5 2]
  by (auto simp: parse_step_def Let_def parse_request_def DO_def set_then_assign)

lemma parse_step_response: "length s < 2147483648 \<Longrightarrow>
   parse_step W m (WriteBytesMaybeAliased W 6 s @ rest) = More (set_response s m) rest"
  using bytes_field [of 6 s rest] field_number [of 6 2]
  by (auto simp: parse_step_def Let_def parse_response_def DO_def set_then_assign)

lemma parse_serialized_onto:
  assumes "rm_internal_metadata from = no_unknown_fields W"
    and "has_request from \<Longrightarrow> length (rm_request from) < 2147483648"
    and "has_response from \<Longrightarrow> length (rm_response from) < 2147483648"
  shows "MergePartialFromCodedStream W m (SerializeWithCachedSizes W from @ rest)
    = MergePartialFromCodedStream W (onto from m) rest"
proof -
  have f: "rm_has_bits from AND 0x40 \<noteq> 0 \<longleftrightarrow> has_type from" "rm_has_bits from AND 0x04 \<noteq> 0 \<longleftrightarrow> has_id from"
    "rm_has_bits from AND 0x08 \<noteq> 0 \<longleftrightarrow> has_serviceid from"
    "rm_has_bits from AND 0x10 \<noteq> 0 \<longleftrightarrow> has_methodid from"
    "rm_has_bits from AND 0x01 \<noteq> 0 \<longleftrightarrow> has_request from"
    "rm_has_bits from AND 0x02 \<noteq> 0 \<longleftrightarrow> has_response from"
    "rm_has_bits from AND 0x20 \<noteq> 0 \<longleftrightarrow> has_error from"
    by (simp_all add: has_bit_defs)
  note present = parse_present [where g = "set_type _", OF parse_step_type]
    parse_present [where g = "set_id _", OF parse_step_id]
    parse_present [where g = "set_serviceid _", OF parse_step_serviceid]
    parse_present [where g = "set_methodid _", OF parse_step_methodid]
    parse_present [where g = "set_request _", OF parse_step_request, OF assms(2)]
    parse_present [where g = "set_response _", OF parse_step_response, OF assms(3)]
    parse_present [where g = "set_error _", OF parse_step_error]
  have "SerializeWithCachedSizes W from @ rest =
      (if has_type from then WriteEnum W 1 (MsgType_int (rm_type from)) else [])
    @ (if has_id from then WriteInt64 W 2 (rm_id from) else [])
    @ (if has_serviceid from then WriteUInt32 W 3 (rm_serviceid from) else [])
    @ (if has_methodid from then WriteUInt32 W 4 (rm_methodid from) else [])
    @ (if has_request from then WriteBytesMaybeAliased W 5 (rm_request from) else [])
    @ (if has_response from then WriteBytesMaybeAliased W 6 (rm_response from) else [])
    @ (if has_error from then WriteEnum W 7 (ErrorCode_int (rm_error from)) else []) @ rest"
    unfolding SerializeWithCachedSizes_def Let_def f append_assoc
    using assms(1) unknown(1) by simp
  then show ?thesis
    by (simp only: present onto_def Let_def)
qed

lemma parse_end: "MergePartialFromCodedStream W m [] = Some (True, m, [])"
proof -
  obtain b where "ReadTagWithCutoffNoLastTag W [] = ((0, b), [])" using tag_at_end by blast
  then have "parse_step W m [] = Success m []"
    by (simp add: parse_step_dispatch dispatch_zero handle_unusual_def)
  then show ?thesis by (subst MergePartialFromCodedStream.simps) simp
qed

lemma onto_merge:
  assumes "rpc_wf from" "rpc_wf m" "rm_internal_metadata from = no_unknown_fields W"
  shows "onto from m = MergeFrom W from m"
proof (rule content_eqI)
  show "content (onto from m) = content (MergeFrom W from m)"
    using assms(3)
    by (simp add: onto_content MergeFrom_content merge_content_def unknown content_def [of "from"]
        content_def [of m])
qed (simp_all add: assms onto_wf MergeFrom_wf onto_cached MergeFrom_sel)

end

section \<open>Reachable messages\<close>

text \<open>The messages the public operations of the class can produce, a parse that fails included.\<close>

inductive rpc_reach :: "'u wire_lib \<Rightarrow> 'u RpcMessage \<Rightarrow> bool" for W where
  r_new: "rpc_reach W (RpcMessage_new W)"
| r_copy: "rpc_reach W m \<Longrightarrow> rpc_reach W (RpcMessage_copy W m)"
| r_type: "rpc_reach W m \<Longrightarrow> rpc_reach W (set_type t m)"
| r_id: "rpc_reach W m \<Longrightarrow> rpc_reach W (set_id i m)"
| r_serviceid: "rpc_reach W m \<Longrightarrow> rpc_reach W (set_serviceid n m)"
| r_methodid: "rpc_reach W m \<Longrightarrow> rpc_reach W (set_methodid n m)"
| r_error: "rpc_reach W m \<Longrightarrow> rpc_reach W (set_error e m)"
| r_request: "rpc_reach W m \<Longrightarrow> rpc_reach W (set_request s m)"
| r_request_c: "rpc_reach W m \<Longrightarrow> rpc_reach W (set_request_c_string s m)"
| r_request_mem: "rpc_reach W m \<Longrightarrow> rpc_reach W (set_request_mem s k m)"
| r_mutable_request: "rpc_reach W m \<Longrightarrow> rpc_reach W (mutable_request f m)"
| r_release_request: "rpc_reach W m \<Longrightarrow> rpc_reach W (snd (release_request m))"
| r_allocated_request: "rpc_reach W m \<Longrightarrow> rpc_reach W (set_allocated_request p m)"
| r_response: "rpc_reach W m \<Longrightarrow> rpc_reach W (set_response s m)"
| r_response_c: "rpc_reach W m \<Longrightarrow> rpc_reach W (set_response_c_string s m)"
| r_response_mem: "rpc_reach W m \<Longrightarrow> rpc_reach W (set_response_mem s k m)"
| r_mutable_response: "rpc_reach W m \<Longrightarrow> rpc_reach W (mutable_response f m)"
| r_release_response: "rpc_reach W m \<Longrightarrow> rpc_reach W (snd (release_response m))"
| r_allocated_response: "rpc_reach W m \<Longrightarrow> rpc_reach W (set_allocated_response p m)"
| r_clear_type: "rpc_reach W m \<Longrightarrow> rpc_reach W (clear_type m)"
| r_clear_id: "rpc_reach W m \<Longrightarrow> rpc_reach W (clear_id m)"
| r_clear_serviceid: "rpc_reach W m \<Longrightarrow> rpc_reach W (clear_serviceid m)"
| r_clear_methodid: "rpc_reach W m \<Longrightarrow> rpc_reach W (clear_methodid m)"
| r_clear_request: "rpc_reach W m \<Longrightarrow> rpc_reach W (clear_request m)"
| r_clear_response: "rpc_reach W m \<Longrightarrow> rpc_reach W (clear_response m)"
| r_clear_error: "rpc_reach W m \<Longrightarrow> rpc_reach W (clear_error m)"
| r_Clear: "rpc_reach W m \<Longrightarrow> rpc_reach W (Clear W m)"
| r_merge: "\<lbrakk>rpc_reach W from; rpc_reach W m\<rbrakk> \<Longrightarrow> rpc_reach W (MergeFrom W from m)"
| r_copyfrom: "\<lbrakk>rpc_reach W from; rpc_reach W m\<rbrakk> \<Longrightarrow> rpc_reach W (CopyFrom W same from m)"
| r_swap_left: "\<lbrakk>rpc_reach W m; rpc_reach W other\<rbrakk> \<Longrightarrow> rpc_reach W (fst (Swap same m other))"
| r_swap_right: "\<lbrakk>rpc_reach W m; rpc_reach W other\<rbrakk> \<Longrightarrow> rpc_reach W (snd (Swap same m other))"
| r_size: "rpc_reach W m \<Longrightarrow> rpc_reach W (snd (ByteSizeLong W m))"
| r_parse: "\<lbrakk>rpc_reach W m; MergePartialFromCodedStream W m inp = Some (ok, m', rest)\<rbrakk> \<Longrightarrow> rpc_reach W m'"

context wire
begin

lemma parse_serialized:
  assumes "rpc_wf from" "rpc_wf m" "rm_internal_metadata from = no_unknown_fields W"
    and "length (rm_request from) < 2147483648" "length (rm_response from) < 2147483648"
  shows "MergePartialFromCodedStream W m (SerializeWithCachedSizes W from @ rest)
    = MergePartialFromCodedStream W (MergeFrom W from m) rest"
  using parse_serialized_onto [of "from" m rest] assms by (simp add: onto_merge)

lemma MergeFrom_new:
  assumes "rpc_wf m"
  shows "MergeFrom W m (RpcMessage_new W) = m\<lparr>rm_cached_size := 0\<rparr>"
proof (rule content_eqI)
  show "content (MergeFrom W m (RpcMessage_new W)) = content (m\<lparr>rm_cached_size := 0\<rparr>)"
    by (simp add: MergeFrom_content content_new merge_content_none)
qed (simp_all add: assms MergeFrom_wf MergeFrom_sel, simp add: RpcMessage_new_def)

lemma roundtrip:
  assumes "rpc_wf m" "rm_internal_metadata m = no_unknown_fields W"
    and "length (rm_request m) < 2147483648" "length (rm_response m) < 2147483648"
  shows "MergePartialFromCodedStream W (RpcMessage_new W) (SerializeWithCachedSizes W m)
    = Some (True, m\<lparr>rm_cached_size := 0\<rparr>, [])"
  using parse_serialized [OF assms(1) wf_new assms(2-), where rest = "[]"]
  by (simp add: MergeFrom_new [OF assms(1)] parse_end)

end

section \<open>Properties\<close>

text \<open>C19: Whatever sequence of its public operations produced it, parses that fail in the middle
  included, a message has no has-bit beyond the seven and every absent field holds its default.
  (So the getters of absent fields return the documented defaults and \<open>Clear\<close>, which skips fields
  whose bits are clear, leaves no stale value.)\<close>

theorem message_invariant:
  assumes "rpc_reach W m"
  shows "rpc_wf m"
  using assms
proof (induction rule: rpc_reach.induct)
  case (r_parse m inp ok m' rest)
  then show ?case using parse_wf by fastforce
qed (auto simp: setters_wf clearers_wf copy_wf Clear_wf MergeFrom_wf CopyFrom_def Swap_def InternalSwap_def
    ByteSizeLong_def SetCachedSize_def Let_def)

theorem message_invariant_witness:
  "rpc_wf (clear_id (set_id 5 (set_request [1, 2] (RpcMessage_new varint_lib))))"
  by (rule message_invariant [of varint_lib]) (intro rpc_reach.intros)

text \<open>C17: Parsing is total: whatever bytes arrive, the loop of \<open>MergePartialFromCodedStream\<close> ends,
  with success or failure, and leaves a well-formed message.\<close>

theorem parse_total:
  assumes "wire W" "rpc_wf m"
  shows "\<exists>ok m' rest. MergePartialFromCodedStream W m inp = Some (ok, m', rest) \<and> rpc_wf m'"
proof -
  obtain ok m' rest where p: "MergePartialFromCodedStream W m inp = Some (ok, m', rest)"
    using wire.parse_terminates [OF assms(1), of m inp] by (metis prod.exhaust)
  with parse_wf [OF p assms(2)] show ?thesis by simp
qed

theorem parse_total_witness:
  "\<exists>ok m' rest. MergePartialFromCodedStream varint_lib (RpcMessage_new varint_lib) [0x10, 0xff]
     = Some (ok, m', rest) \<and> rpc_wf m'"
  by (rule parse_total) (simp_all add: varint.wire_axioms)

text \<open>C16: Serialising a message and parsing the bytes into a new one gives the message back, whatever
  fields are present, when it carries no unknown field and its byte strings are shorter than 2 GiB.\<close>

theorem serialize_parse_roundtrip:
  assumes "wire W" "rpc_wf m" "rm_internal_metadata m = no_unknown_fields W"
    and "length (rm_request m) < 2147483648" "length (rm_response m) < 2147483648"
  shows "MergePartialFromCodedStream W (RpcMessage_new W) (SerializeWithCachedSizes W m)
    = Some (True, m\<lparr>rm_cached_size := 0\<rparr>, [])"
  using assms by (rule wire.roundtrip)

text \<open>A request as \<open>RpcChannel::CallMethod\<close> builds it.\<close>

definition sample_message :: "byte list RpcMessage" where
  "sample_message = set_request [8, 150, 1] (set_methodid 3 (set_serviceid 77 (set_id 300
     (set_type REQUEST (RpcMessage_new varint_lib)))))"

lemma sample_message_facts:
  "rpc_wf sample_message" "rm_internal_metadata sample_message = no_unknown_fields varint_lib"
  "length (rm_request sample_message) < 2147483648" "length (rm_response sample_message) < 2147483648"
  by (simp_all add: sample_message_def setters_wf,
      simp_all add: rpc_accessors RpcMessage_new_def)

theorem serialize_parse_roundtrip_witness:
  "MergePartialFromCodedStream varint_lib (RpcMessage_new varint_lib)
     (SerializeWithCachedSizes varint_lib sample_message)
   = Some (True, sample_message\<lparr>rm_cached_size := 0\<rparr>, [])"
  by (rule serialize_parse_roundtrip [OF varint.wire_axioms sample_message_facts])

text \<open>C18: Parsing is merging: the bytes of a message in front of an input have the effect of
  \<open>MergeFrom\<close> on the message being parsed. So the concatenation of two serialised messages parses as
  the merge of the two, as protobuf documents.\<close>

theorem parse_is_merge:
  assumes "wire W" "rpc_wf m" "rpc_wf from" "rm_internal_metadata from = no_unknown_fields W"
    and "length (rm_request from) < 2147483648" "length (rm_response from) < 2147483648"
  shows "MergePartialFromCodedStream W m (SerializeWithCachedSizes W from @ rest)
    = MergePartialFromCodedStream W (MergeFrom W from m) rest"
  using wire.parse_serialized assms by blast

theorem parse_is_merge_witness:
  "MergePartialFromCodedStream varint_lib (RpcMessage_new varint_lib)
     (SerializeWithCachedSizes varint_lib sample_message @ [0x10, 0x05])
   = MergePartialFromCodedStream varint_lib
       (MergeFrom varint_lib sample_message (RpcMessage_new varint_lib)) [0x10, 0x05]"
  by (rule parse_is_merge [OF varint.wire_axioms wf_new sample_message_facts])

text \<open>C20: The two serialisers write the same bytes, and \<open>ByteSizeLong\<close> gives their number (modulo
  2^64, the width of \<open>size_t\<close>) on both of its paths, and leaves it as the cached size when it fits
  an \<open>int\<close>.\<close>

theorem serializers_agree:
  assumes "wire W"
  shows "InternalSerializeWithCachedSizesToArray W m target = target @ SerializeWithCachedSizes W m
    \<and> fst (ByteSizeLong W m) = of_nat (length (SerializeWithCachedSizes W m))
    \<and> (length (SerializeWithCachedSizes W m) < 2147483648 \<longrightarrow>
        snd (ByteSizeLong W m) = m\<lparr>rm_cached_size := of_nat (length (SerializeWithCachedSizes W m))\<rparr>)"
  using wire.to_array_serialize [OF assms] wire.size_serialize [OF assms]
    wire.cached_size_serialize [OF assms]
  by (simp add: SetCachedSize_def)

theorem serializers_agree_witness:
  "InternalSerializeWithCachedSizesToArray varint_lib sample_message [0]
     = [0] @ SerializeWithCachedSizes varint_lib sample_message
   \<and> fst (ByteSizeLong varint_lib sample_message) = 14
   \<and> rm_cached_size (snd (ByteSizeLong varint_lib sample_message)) = 14"
proof -
  have l: "length (SerializeWithCachedSizes varint_lib sample_message) = 14"
    by (simp add: sample_message_def SerializeWithCachedSizes_def Let_def rpc_accessors
        RpcMessage_new_def varint_lib_def vtag_def v_bytes_def varint_enc.simps)
  show ?thesis
    using serializers_agree [OF varint.wire_axioms, of sample_message "[0]"] by (simp add: l)
qed

text \<open>Copying from a \<open>Message\<close> of any class forgets what the target held: it is \<open>CopyFrom\<close> for the class
  itself, and reflection on an empty message for any other.\<close>

theorem general_copy:
  assumes "wire W" "rpc_wf from" "rpc_wf m"
  shows "CopyFrom_message W reflect False (SameClass from) m = from\<lparr>rm_cached_size := rm_cached_size m\<rparr>"
    "CopyFrom_message W reflect False (OtherClass x) m
      = reflect x ((RpcMessage_new W)\<lparr>rm_cached_size := rm_cached_size m\<rparr>)"
  using wire.CopyFrom_eq [OF assms] clear_wf_eq [OF assms(3)]
  by (simp_all add: CopyFrom_message_def MergeFrom_message_def CopyFrom_def)

text \<open>C22: \<open>CopyFrom\<close> and the copy constructor make an equal message, whatever the target held before
  (up to the cached size, which is not copied); \<open>Clear\<close> makes a new one; \<open>MergeFrom\<close> overlays the
  fields present in its argument.\<close>

theorem copy_clear_merge:
  assumes "wire W" "rpc_wf from" "rpc_wf m"
  shows "CopyFrom W False from m = from\<lparr>rm_cached_size := rm_cached_size m\<rparr>
    \<and> RpcMessage_copy W from = from\<lparr>rm_cached_size := 0\<rparr>
    \<and> Clear W m = (RpcMessage_new W)\<lparr>rm_cached_size := rm_cached_size m\<rparr>
    \<and> content (MergeFrom W from m) = merge_content W (content from) (content m)"
  using wire.CopyFrom_eq wire.copy_eq clear_wf_eq MergeFrom_content assms by blast

theorem copy_clear_merge_witness:
  "CopyFrom varint_lib False sample_message (set_response [9] (RpcMessage_new varint_lib))
     = sample_message\<lparr>rm_cached_size := rm_cached_size (set_response [9] (RpcMessage_new varint_lib))\<rparr>"
  using copy_clear_merge [OF varint.wire_axioms sample_message_facts(1), of "set_response [9] (RpcMessage_new varint_lib)"]
  by (simp add: setters_wf)

end
