(* ===== verification/IOBuf_Lib.thy ===== *)
theory IOBuf_Lib
  imports Prelude
begin

text \<open>
  The interface of folly's \<open>IOBuf\<close>, \<open>IOBufQueue\<close> and \<open>io::Cursor\<close>, the byte buffers the
  codecs work on. folly is not part of the repository, so the buffers stay abstract: a record of
  the operations the code calls, an argument of every definition that uses them, and a locale
  \<open>iobuf\<close> with what folly documents of them. The fields \<open>q_bytes\<close>, \<open>b_bytes\<close> and
  \<open>c_bytes\<close> are the observations the laws speak about: the bytes held by a queue, by a
  buffer chain, and in front of a cursor. The type variables are the queue, the buffer (a chain of
  \<open>IOBuf\<close>s) and the cursor. \<open>chain_lib\<close> is an implementation on lists of segments.
\<close>

section \<open>The operations the code calls\<close>

record ('q, 'b, 'c) iobuf_lib =
  q_bytes :: "'q \<Rightarrow> byte list"
  b_bytes :: "'b \<Rightarrow> byte list"
  c_bytes :: "'c \<Rightarrow> byte list"
  chainLength :: "'q \<Rightarrow> u64"
  trimStart :: "u64 \<Rightarrow> 'q \<Rightarrow> 'q option" \<comment> \<open>\<open>None\<close>: throws \<open>std::underflow_error\<close>\<close>
  trimStartAtMost :: "u64 \<Rightarrow> 'q \<Rightarrow> 'q"
  q_split :: "u64 \<Rightarrow> 'q \<Rightarrow> ('b \<times> 'q) option" \<comment> \<open>\<open>None\<close>: throws \<open>std::underflow_error\<close>\<close>
  front_cursor :: "'q \<Rightarrow> 'c" \<comment> \<open>\<open>io::Cursor c(buf.front())\<close>\<close>
  c_skip :: "u64 \<Rightarrow> 'c \<Rightarrow> 'c option" \<comment> \<open>\<open>None\<close>: throws \<open>std::out_of_range\<close>\<close>
  c_readBE :: "nat \<Rightarrow> 'c \<Rightarrow> u64 option" \<comment> \<open>\<open>readBE<T>\<close>, the size of T in bytes\<close>
  c_readLE :: "nat \<Rightarrow> 'c \<Rightarrow> u64 option"
  computeChainDataLength :: "'b \<Rightarrow> u64"
  head_data :: "'b \<Rightarrow> byte list" \<comment> \<open>\<open>data()\<close>, \<open>length()\<close> of the chain's first buffer\<close>
  copyBuffer :: "byte list \<Rightarrow> 'b"
  iobuf_create :: "u64 \<Rightarrow> 'b"
  iobuf_append :: "u64 \<Rightarrow> 'b \<Rightarrow> 'b"
  c_writeBE :: "nat \<Rightarrow> u64 \<Rightarrow> 'b \<Rightarrow> 'b option" \<comment> \<open>\<open>RWPrivateCursor(b).writeBE<T>(v)\<close>\<close>
  c_writeLE :: "nat \<Rightarrow> u64 \<Rightarrow> 'b \<Rightarrow> 'b option"
  prependChain :: "'b \<Rightarrow> 'b \<Rightarrow> 'b" \<comment> \<open>\<open>b->prependChain(c)\<close>, seen from \<open>b\<close>\<close>

section \<open>What folly documents of them\<close>

locale iobuf =
  fixes L :: "('q, 'b, 'c) iobuf_lib"
  assumes chainLength: "chainLength L q = of_nat (length (q_bytes L q))"
    and trimStart_ok: "unat n \<le> length (q_bytes L q) \<Longrightarrow>
      \<exists>q'. trimStart L n q = Some q' \<and> q_bytes L q' = drop (unat n) (q_bytes L q)"
    and trimStart_underflow: "length (q_bytes L q) < unat n \<Longrightarrow> trimStart L n q = None"
    and trimStartAtMost: "q_bytes L (trimStartAtMost L n q) = drop (unat n) (q_bytes L q)"
    and q_split_ok: "unat n \<le> length (q_bytes L q) \<Longrightarrow>
      \<exists>b q'. q_split L n q = Some (b, q') \<and> b_bytes L b = take (unat n) (q_bytes L q)
        \<and> q_bytes L q' = drop (unat n) (q_bytes L q)"
    and q_split_underflow: "length (q_bytes L q) < unat n \<Longrightarrow> q_split L n q = None"
    and front_cursor: "c_bytes L (front_cursor L q) = q_bytes L q"
    and c_skip_ok: "unat n \<le> length (c_bytes L c) \<Longrightarrow>
      \<exists>c'. c_skip L n c = Some c' \<and> c_bytes L c' = drop (unat n) (c_bytes L c)"
    and c_readBE: "\<lbrakk>k \<le> 8; k \<le> length (c_bytes L c)\<rbrakk> \<Longrightarrow>
      c_readBE L k c = Some (of_nat (be_val (take k (c_bytes L c))))"
    and c_readLE: "\<lbrakk>k \<le> 8; k \<le> length (c_bytes L c)\<rbrakk> \<Longrightarrow>
      c_readLE L k c = Some (of_nat (le_val (take k (c_bytes L c))))"
    and computeChainDataLength: "computeChainDataLength L b = of_nat (length (b_bytes L b))"
    and head_data: "\<exists>rest. b_bytes L b = head_data L b @ rest"
    and copyBuffer: "b_bytes L (copyBuffer L bs) = bs" "head_data L (copyBuffer L bs) = bs"
    and iobuf_create: "b_bytes L (iobuf_create L n) = []"
    and iobuf_append: "\<exists>junk. length junk = unat n
      \<and> b_bytes L (iobuf_append L n (iobuf_create L n)) = junk"
    and c_writeBE: "k \<le> length (b_bytes L b) \<Longrightarrow>
      \<exists>b'. c_writeBE L k v b = Some b' \<and> b_bytes L b' = be_bytes k (unat v) @ drop k (b_bytes L b)"
    and c_writeLE: "k \<le> length (b_bytes L b) \<Longrightarrow>
      \<exists>b'. c_writeLE L k v b = Some b' \<and> b_bytes L b' = le_bytes k (unat v) @ drop k (b_bytes L b)"
    and prependChain: "b_bytes L (prependChain L b b2) = b_bytes L b @ b_bytes L b2"
begin

lemma chainLength_less:
  assumes "length (q_bytes L q) < 2 ^ 64"
  shows "chainLength L q < n \<longleftrightarrow> length (q_bytes L q) < unat n"
  using assms by (simp add: chainLength word_less_nat_alt unat_of_nat_u64)

lemma trimStart_cases:
  obtains (ok) q' where "unat n \<le> length (q_bytes L q)" "trimStart L n q = Some q'"
      "q_bytes L q' = drop (unat n) (q_bytes L q)"
    | (underflow) "length (q_bytes L q) < unat n" "trimStart L n q = None"
  using trimStart_ok trimStart_underflow by (metis linorder_not_le)

lemma q_split_cases:
  obtains (ok) b q' where "unat n \<le> length (q_bytes L q)" "q_split L n q = Some (b, q')"
      "b_bytes L b = take (unat n) (q_bytes L q)" "q_bytes L q' = drop (unat n) (q_bytes L q)"
    | (underflow) "length (q_bytes L q) < unat n" "q_split L n q = None"
  using q_split_ok q_split_underflow by (metis linorder_not_le)

text \<open>A buffer of exactly \<open>k\<close> bytes, filled by one write, holds the bytes of the number.\<close>

lemma fresh_writeBE:
  assumes "unat n = k"
  shows "\<exists>b'. c_writeBE L k v (iobuf_append L n (iobuf_create L n)) = Some b'
    \<and> b_bytes L b' = be_bytes k (unat v)"
  using c_writeBE [of k "iobuf_append L n (iobuf_create L n)" v] iobuf_append [of n] assms by auto

lemma fresh_writeLE:
  assumes "unat n = k"
  shows "\<exists>b'. c_writeLE L k v (iobuf_append L n (iobuf_create L n)) = Some b'
    \<and> b_bytes L b' = le_bytes k (unat v)"
  using c_writeLE [of k "iobuf_append L n (iobuf_create L n)" v] iobuf_append [of n] assms by auto

end

section \<open>An implementation: chains of segments\<close>

text \<open>A queue, a buffer and a cursor are lists of segments; a split keeps the segments it cuts
  out, so a frame that crosses a segment boundary comes out as a chain of several buffers.\<close>

type_synonym chain = "byte list list"

fun chain_drop :: "nat \<Rightarrow> chain \<Rightarrow> chain" where
  "chain_drop n [] = []"
| "chain_drop n (s # ss) =
     (if length s \<le> n then chain_drop (n - length s) ss else drop n s # ss)"

fun chain_take :: "nat \<Rightarrow> chain \<Rightarrow> chain" where
  "chain_take n [] = []"
| "chain_take n (s # ss) =
     (if n = 0 then [] else if length s \<le> n then s # chain_take (n - length s) ss else [take n s])"

lemma concat_chain_drop [simp]: "concat (chain_drop n ss) = drop n (concat ss)"
  by (induction n ss rule: chain_drop.induct) auto

lemma concat_chain_take [simp]: "concat (chain_take n ss) = take n (concat ss)"
  by (induction n ss rule: chain_take.induct) auto

definition chain_head :: "chain \<Rightarrow> byte list" where
  "chain_head ss = (case ss of [] \<Rightarrow> [] | s # _ \<Rightarrow> s)"

definition chain_overwrite :: "nat \<Rightarrow> byte list \<Rightarrow> chain \<Rightarrow> chain option" where
  "chain_overwrite k bs ss =
     (if k \<le> length (concat ss) then Some (bs # chain_drop k ss) else None)"

definition chain_lib :: "(chain, chain, chain) iobuf_lib" where
  "chain_lib = \<lparr>
     q_bytes = concat, b_bytes = concat, c_bytes = concat,
     chainLength = (\<lambda>q. of_nat (length (concat q))),
     trimStart = (\<lambda>n q. if unat n \<le> length (concat q) then Some (chain_drop (unat n) q) else None),
     trimStartAtMost = (\<lambda>n q. chain_drop (unat n) q),
     q_split = (\<lambda>n q. if unat n \<le> length (concat q)
       then Some (chain_take (unat n) q, chain_drop (unat n) q) else None),
     front_cursor = (\<lambda>q. q),
     c_skip = (\<lambda>n c. if unat n \<le> length (concat c) then Some (chain_drop (unat n) c) else None),
     c_readBE = (\<lambda>k c. if k \<le> length (concat c)
       then Some (of_nat (be_val (take k (concat c)))) else None),
     c_readLE = (\<lambda>k c. if k \<le> length (concat c)
       then Some (of_nat (le_val (take k (concat c)))) else None),
     computeChainDataLength = (\<lambda>b. of_nat (length (concat b))),
     head_data = chain_head,
     copyBuffer = (\<lambda>bs. [bs]),
     iobuf_create = (\<lambda>n. [[]]),
     iobuf_append = (\<lambda>n b. b @ [replicate (unat n) 0]),
     c_writeBE = (\<lambda>k v b. chain_overwrite k (be_bytes k (unat v)) b),
     c_writeLE = (\<lambda>k v b. chain_overwrite k (le_bytes k (unat v)) b),
     prependChain = (\<lambda>b c. b @ c) \<rparr>"

lemma chain_lib_sel [simp]:
  "q_bytes chain_lib = concat" "b_bytes chain_lib = concat" "c_bytes chain_lib = concat"
  "head_data chain_lib = chain_head" "copyBuffer chain_lib bs = [bs]"
  by (simp_all add: chain_lib_def)

interpretation chain: iobuf chain_lib
  by unfold_locales
    (auto simp: chain_lib_def chain_head_def chain_overwrite_def split: list.splits)

end
