(* ===== verification/RpcMsgSerializeHandler.thy ===== *)
theory RpcMsgSerializeHandler
  imports RpcMessageCoding IOBuf_Lib
begin

text \<open>
  The pipeline stage between frames and messages (\<open>protobufCoder/RpcMsgSerializeHandler.cc\<close>). A
  handler call gives the events it fires on its neighbours. The parsing and serialising entry
  points it calls, \<open>ParseFromArray\<close> and \<open>SerializePartialToString\<close>, are protobuf's \<open>MessageLite\<close>
  over the generated virtual methods: a record of operations and a locale \<open>message_lite\<close> that
  extends \<open>wire\<close>.
\<close>

section \<open>The interface of \<open>MessageLite\<close>\<close>

record 'u message_lib =
  ParseFromArray :: "byte list \<Rightarrow> 'u RpcMessage \<Rightarrow> bool \<times> 'u RpcMessage"
  SerializePartialToString :: "'u RpcMessage \<Rightarrow> byte list"

text \<open>\<open>ParseFromArray\<close> clears the message and parses; it reports success when the whole array was
  a message with every required field. \<open>SerializePartialToString\<close> writes what is present.\<close>

locale message_lite = wire W for W :: "'u wire_lib" +
  fixes M :: "'u message_lib"
  assumes parse_array: "MergePartialFromCodedStream W (Clear W m) bs = Some (ok, m', rest) \<Longrightarrow>
      ParseFromArray M bs m = (ok \<and> rest = [] \<and> IsInitialized m', m')"
    and serialize_partial: "length (SerializeWithCachedSizes W m) < 2147483648 \<Longrightarrow>
      SerializePartialToString M m = SerializeWithCachedSizes W m"

definition generated_message_lib :: "'u wire_lib \<Rightarrow> 'u message_lib" where
  "generated_message_lib W = \<lparr>
     ParseFromArray = (\<lambda>bs m. case MergePartialFromCodedStream W (Clear W m) bs of
         Some (ok, m', rest) \<Rightarrow> (ok \<and> rest = [] \<and> IsInitialized m', m')
       | None \<Rightarrow> (False, m)),
     SerializePartialToString = SerializeWithCachedSizes W \<rparr>"

interpretation varint_message: message_lite varint_lib "generated_message_lib varint_lib"
  by unfold_locales (simp_all add: generated_message_lib_def)

section \<open>The handler\<close>

text \<open>The events a call fires: a message to the next handler, a buffer to the previous one, or the
  base class's forwarding of an end of file, an exception or a close.\<close>

datatype ('u, 'b) handler_event = FireRead "'u RpcMessage" | FireWrite 'b
  | ForwardReadEOF | ForwardReadException string | ForwardWriteException string | ForwardClose

definition handler_read ::
    "('q, 'b, 'c) iobuf_lib \<Rightarrow> 'u wire_lib \<Rightarrow> 'u message_lib \<Rightarrow> 'b \<Rightarrow> ('u, 'b) handler_event list" where
  "handler_read L W M msg =
     (let in_msg = RpcMessage_new W;
          in_msg = snd (ParseFromArray M (head_data L msg) in_msg)
      in [FireRead in_msg])"

definition handler_readEOF :: "('u, 'b) handler_event list" where
  "handler_readEOF = [ForwardReadEOF]"

definition handler_readException :: "string \<Rightarrow> ('u, 'b) handler_event list" where
  "handler_readException e = [ForwardReadException e]"

definition handler_write ::
    "('q, 'b, 'c) iobuf_lib \<Rightarrow> 'u message_lib \<Rightarrow> 'u RpcMessage \<Rightarrow> ('u, 'b) handler_event list" where
  "handler_write L M msg =
     (let outstr = SerializePartialToString M msg in [FireWrite (copyBuffer L outstr)])"

definition handler_writeException :: "string \<Rightarrow> ('u, 'b) handler_event list" where
  "handler_writeException e = [ForwardWriteException e]"

definition handler_close :: "('u, 'b) handler_event list" where
  "handler_close = [ForwardClose]"

section \<open>Reading and writing\<close>

text \<open>The messages that travel: well formed, without unknown fields, short enough for an \<open>int\<close>.\<close>

definition sendable :: "'u wire_lib \<Rightarrow> 'u RpcMessage \<Rightarrow> bool" where
  "sendable W m \<longleftrightarrow> rpc_wf m \<and> rm_internal_metadata m = no_unknown_fields W
     \<and> length (rm_request m) < 2147483648 \<and> length (rm_response m) < 2147483648
     \<and> length (SerializeWithCachedSizes W m) < 2147483648"

lemma Clear_new: "Clear W (RpcMessage_new W) = RpcMessage_new W"
  unfolding clear_wf_eq [OF wf_new] by (simp add: RpcMessage_new_def)

context message_lite
begin

lemma parse_array_new:
  assumes "MergePartialFromCodedStream W (RpcMessage_new W) bs = Some (ok, m', rest)"
  shows "snd (ParseFromArray M bs (RpcMessage_new W)) = m'"
  using parse_array [of "RpcMessage_new W" bs ok m' rest] assms by (simp add: Clear_new)

lemma handler_read_head:
  assumes "MergePartialFromCodedStream W (RpcMessage_new W) (head_data L b) = Some (ok, m', rest)"
  shows "handler_read L W M b = [FireRead m']"
  using parse_array_new [OF assms] by (simp add: handler_read_def)

lemma handler_read_total: "\<exists>m'. rpc_wf m' \<and> handler_read L W M b = [FireRead m']"
proof -
  obtain ok m' rest
    where p: "MergePartialFromCodedStream W (RpcMessage_new W) (head_data L b) = Some (ok, m', rest)"
    using parse_terminates by (metis prod.exhaust)
  with parse_wf [OF p] handler_read_head [OF p] show ?thesis by auto
qed

lemma handler_read_serialized:
  assumes "sendable W m" "head_data L b = SerializeWithCachedSizes W m"
  shows "handler_read L W M b = [FireRead (m\<lparr>rm_cached_size := 0\<rparr>)]"
  using assms roundtrip [of m] by (intro handler_read_head) (simp add: sendable_def)

lemma handler_write_bytes:
  assumes "sendable W m"
  shows "handler_write L M m = [FireWrite (copyBuffer L (SerializeWithCachedSizes W m))]"
  using assms by (simp add: handler_write_def sendable_def serialize_partial)

lemma parse_two:
  assumes "sendable W m1" "sendable W m2"
  shows "MergePartialFromCodedStream W (RpcMessage_new W)
      (SerializeWithCachedSizes W m1 @ SerializeWithCachedSizes W m2)
    = Some (True, MergeFrom W m2 (m1\<lparr>rm_cached_size := 0\<rparr>), [])"
proof -
  have wf: "rpc_wf (m1\<lparr>rm_cached_size := 0\<rparr>)" using assms(1) by (simp add: sendable_def)
  show ?thesis
    using parse_serialized [OF _ wf_new [of W], of m1 "SerializeWithCachedSizes W m2"]
      parse_serialized [OF _ wf, of m2 "[]"] assms
    by (simp add: sendable_def MergeFrom_new parse_end)
qed

end

section \<open>Properties\<close>

text \<open>The two directions of the handler are inverse: the buffer that \<open>write\<close> fires for a message,
  read on the other side, fires that message (with a cached size of zero), incomplete messages
  included.\<close>

theorem handler_roundtrip:
  assumes "iobuf L" "message_lite W M" "sendable W m"
  shows "\<exists>b. handler_write L M m = [FireWrite b]
    \<and> handler_read L W M b = [FireRead (m\<lparr>rm_cached_size := 0\<rparr>)]"
  using message_lite.handler_write_bytes [OF assms(2,3)]
    message_lite.handler_read_serialized [OF assms(2,3) iobuf.copyBuffer(2) [OF assms(1)]]
  by (intro exI conjI)

lemma sample_sendable: "sendable varint_lib sample_message"
proof -
  have "length (SerializeWithCachedSizes varint_lib sample_message) = 14"
    by (simp add: sample_message_def SerializeWithCachedSizes_def Let_def rpc_accessors
        RpcMessage_new_def varint_lib_def vtag_def v_bytes_def varint_enc.simps)
  then show ?thesis using sample_message_facts by (simp add: sendable_def)
qed

theorem handler_roundtrip_witness:
  "\<exists>b. handler_write chain_lib (generated_message_lib varint_lib) sample_message = [FireWrite b]
     \<and> handler_read chain_lib varint_lib (generated_message_lib varint_lib) b
       = [FireRead (sample_message\<lparr>rm_cached_size := 0\<rparr>)]"
  by (rule handler_roundtrip
      [OF chain.iobuf_axioms varint_message.message_lite_axioms sample_sendable])

text \<open>\<open>read\<close> ignores the result of \<open>ParseFromArray\<close>: every buffer, however malformed, fires
  exactly one message upstream, a well-formed one, and no exception. Bytes that do not parse reach
  the dispatcher as whatever was set before the parse failed.\<close>

theorem handler_read_never_rejects:
  assumes "message_lite W M"
  shows "\<exists>m. rpc_wf m \<and> handler_read L W M b = [FireRead m]"
  by (rule message_lite.handler_read_total [OF assms])

theorem handler_read_never_rejects_witness:
  "\<exists>m. rpc_wf m \<and> handler_read chain_lib varint_lib (generated_message_lib varint_lib)
     [[0xff, 0xff]] = [FireRead m]"
  by (rule handler_read_never_rejects) (rule varint_message.message_lite_axioms)

text \<open>\<open>read\<close> looks only at the first buffer of the chain it is given. When a frame arrives in
  several buffers (the decoder cuts frames out of the receive queue without coalescing them) and the
  first one ends between two fields, the message fired is the one made of the fields in the first
  buffer alone, although the bytes of the frame say otherwise.\<close>

theorem split_frame_truncated:
  assumes "message_lite W M" "sendable W m1" "sendable W m2"
    and "head_data L b = SerializeWithCachedSizes W m1"
    and "b_bytes L b = SerializeWithCachedSizes W m1 @ SerializeWithCachedSizes W m2"
  shows "handler_read L W M b = [FireRead (m1\<lparr>rm_cached_size := 0\<rparr>)]
    \<and> MergePartialFromCodedStream W (RpcMessage_new W) (b_bytes L b)
      = Some (True, MergeFrom W m2 (m1\<lparr>rm_cached_size := 0\<rparr>), [])"
  using message_lite.handler_read_serialized [OF assms(1,2,4)] message_lite.parse_two [OF assms(1-3)]
    assms(5) by simp

definition sample_reply :: "byte list RpcMessage" where
  "sample_reply = set_response [8, 150, 1] (RpcMessage_new varint_lib)"

lemma sample_reply_sendable: "sendable varint_lib sample_reply"
proof -
  have "length (SerializeWithCachedSizes varint_lib sample_reply) = 5"
    by (simp add: sample_reply_def SerializeWithCachedSizes_def Let_def rpc_accessors
        RpcMessage_new_def varint_lib_def vtag_def v_bytes_def varint_enc.simps)
  then show ?thesis
    by (simp add: sendable_def sample_reply_def setters_wf,
        simp add: rpc_accessors RpcMessage_new_def)
qed

theorem split_frame_truncated_witness:
  "handler_read chain_lib varint_lib (generated_message_lib varint_lib)
     [SerializeWithCachedSizes varint_lib sample_message,
      SerializeWithCachedSizes varint_lib sample_reply]
   = [FireRead (sample_message\<lparr>rm_cached_size := 0\<rparr>)]"
  using split_frame_truncated [OF varint_message.message_lite_axioms sample_sendable
      sample_reply_sendable, where L = chain_lib and b = "[SerializeWithCachedSizes varint_lib
      sample_message, SerializeWithCachedSizes varint_lib sample_reply]"]
  by (simp add: chain_head_def)

end
