(* ===== verification/LengthFieldPrepender.thy ===== *)
theory LengthFieldPrepender
  imports IOBuf_Lib
begin

text \<open>
  The outbound codec \<open>codec/LengthFieldPrepender.cpp\<close>: \<open>LengthFieldPrepender::write\<close>
  puts the length of a message in front of it. The model follows the C++ types: \<open>int\<close>
  arithmetic is 32 bits wide, the chain length is a \<open>size_t\<close>. A value \<open>Inr buf\<close> is the buffer
  handed to \<open>ctx->fireWrite\<close>, a value \<open>Inl e\<close> is an exception (or undefined behaviour).
\<close>

section \<open>The handler\<close>

record prepender =
  pre_lengthFieldLength :: s32
  pre_lengthAdjustment :: s32
  pre_lengthIncludesLengthField :: bool
  pre_networkByteOrder :: bool

datatype prepender_error =
    LengthFieldNegative \<comment> \<open>\<open>std::runtime_error("Length field < 0")\<close>\<close>
  | LengthDoesNotFit \<comment> \<open>\<open>std::runtime_error("length does not fit byte")\<close>\<close>
  | InvalidLengthFieldLength \<comment> \<open>\<open>std::runtime_error("Invalid lengthFieldLength")\<close>\<close>
  | SignedOverflow \<comment> \<open>undefined: \<open>length += lengthFieldLength_\<close> leaves the range of \<open>int\<close>\<close>
  | CursorOutOfRange \<comment> \<open>a folly cursor ran past its buffer\<close>

text \<open>The constructor; \<open>None\<close> when its \<open>CHECK\<close> aborts the process.\<close>

definition LengthFieldPrepender_new :: "s32 \<Rightarrow> s32 \<Rightarrow> bool \<Rightarrow> bool \<Rightarrow> prepender option" where
  "LengthFieldPrepender_new lengthFieldLength lengthAdjustment includesLengthField byteOrder =
     (if lengthFieldLength = 1 \<or> lengthFieldLength = 2 \<or> lengthFieldLength = 4 \<or> lengthFieldLength = 8
      then Some \<lparr>pre_lengthFieldLength = lengthFieldLength, pre_lengthAdjustment = lengthAdjustment,
                 pre_lengthIncludesLengthField = includesLengthField,
                 pre_networkByteOrder = byteOrder\<rparr>
      else None)"

text \<open>\<open>int length = lengthAdjustment_ + buf->computeChainDataLength()\<close> and the optional addition
  of the field's own length.\<close>

definition prepender_length ::
  "('q, 'b, 'c) iobuf_lib \<Rightarrow> prepender \<Rightarrow> 'b \<Rightarrow> prepender_error + s32" where
  "prepender_length L p buf =
     (let length' = u64_to_s32 (s32_to_u64 (pre_lengthAdjustment p) + computeChainDataLength L buf)
      in if pre_lengthIncludesLengthField p then
           (let sum = sint length' + sint (pre_lengthFieldLength p)
            in if - (2 ^ 31) \<le> sum \<and> sum < 2 ^ 31 then Inr (length' + pre_lengthFieldLength p)
               else Inl SignedOverflow)
         else Inr length')"

text \<open>One write of a \<open>k\<close>-byte integer into the header, in the configured byte order.\<close>

definition write_header ::
  "('q, 'b, 'c) iobuf_lib \<Rightarrow> bool \<Rightarrow> nat \<Rightarrow> u64 \<Rightarrow> 'b \<Rightarrow> prepender_error + 'b" where
  "write_header L networkByteOrder k v len =
     (case (if networkByteOrder then c_writeBE L k v len else c_writeLE L k v len) of
        None \<Rightarrow> Inl CursorOutOfRange
      | Some len' \<Rightarrow> Inr len')"

text \<open>The \<open>switch (lengthFieldLength_)\<close>; each case casts the length to its width.\<close>

definition fill_header ::
  "('q, 'b, 'c) iobuf_lib \<Rightarrow> prepender \<Rightarrow> s32 \<Rightarrow> 'b \<Rightarrow> prepender_error + 'b" where
  "fill_header L p length' len =
     (let n = pre_lengthFieldLength p; be = pre_networkByteOrder p
      in if n = 1 then
           (if 256 \<le> sint length' then Inl LengthDoesNotFit
            else write_header L be 1 (ucast (ucast length' :: 8 word)) len)
         else if n = 2 then
           (if 65536 \<le> sint length' then Inl LengthDoesNotFit
            else write_header L be 2 (ucast (ucast length' :: 16 word)) len)
         else if n = 4 then write_header L be 4 (ucast length') len
         else if n = 8 then write_header L be 8 (scast length') len
         else Inl InvalidLengthFieldLength)"

definition LengthFieldPrepender_write ::
  "('q, 'b, 'c) iobuf_lib \<Rightarrow> prepender \<Rightarrow> 'b \<Rightarrow> prepender_error + 'b" where
  "LengthFieldPrepender_write L p buf =
     (case prepender_length L p buf of
        Inl e \<Rightarrow> Inl e
      | Inr length' \<Rightarrow>
          if sint length' < 0 then Inl LengthFieldNegative
          else
            (let n = s32_to_u64 (pre_lengthFieldLength p);
                 len = iobuf_append L n (iobuf_create L n)
             in case fill_header L p length' len of
                  Inl e \<Rightarrow> Inl e
                | Inr len' \<Rightarrow> Inr (prependChain L len' buf)))"

section \<open>What it computes\<close>

text \<open>The header as bytes: \<open>k\<close> bytes of \<open>n\<close>, in the configured order.\<close>

definition header_bytes :: "bool \<Rightarrow> nat \<Rightarrow> nat \<Rightarrow> byte list" where
  "header_bytes networkByteOrder k n = (if networkByteOrder then be_bytes k n else le_bytes k n)"

definition prepender_ok :: "prepender \<Rightarrow> bool" where
  "prepender_ok p \<longleftrightarrow> pre_lengthFieldLength p \<in> {1, 2, 4, 8}"

lemma LengthFieldPrepender_new_ok:
  "LengthFieldPrepender_new n adj incl be = Some p \<Longrightarrow> prepender_ok p"
  by (auto simp: LengthFieldPrepender_new_def prepender_ok_def split: if_splits)

lemma length_header_bytes [simp, len_simps]: "length (header_bytes be k n) = k"
  by (simp add: header_bytes_def)

lemma header_bytes_mod: "header_bytes be k (n mod 256 ^ k) = header_bytes be k n"
  by (simp add: header_bytes_def be_bytes_mod le_bytes_mod)

text \<open>The length the field is meant to hold, over the integers.\<close>

definition meant_length :: "prepender \<Rightarrow> nat \<Rightarrow> int" where
  "meant_length p n = sint (pre_lengthAdjustment p) + int n
     + (if pre_lengthIncludesLengthField p then sint (pre_lengthFieldLength p) else 0)"

lemma prepender_ok_cases:
  assumes "prepender_ok p"
  obtains "pre_lengthFieldLength p = 1" | "pre_lengthFieldLength p = 2"
    | "pre_lengthFieldLength p = 4" | "pre_lengthFieldLength p = 8"
  using assms by (auto simp: prepender_ok_def)

lemma sint_field_length:
  "prepender_ok p \<Longrightarrow> sint (pre_lengthFieldLength p) \<in> {1, 2, 4, 8}"
  by (erule prepender_ok_cases) simp_all

context iobuf
begin

lemma write_header_fresh:
  assumes "unat n = k"
  shows "\<exists>len'. write_header L be k v (iobuf_append L n (iobuf_create L n)) = Inr len'
    \<and> b_bytes L len' = header_bytes be k (unat v)"
  using fresh_writeBE [OF assms, of v] fresh_writeLE [OF assms, of v]
  by (cases be) (auto simp: write_header_def header_bytes_def)

lemma chain_length_int:
  "u64_to_s32 (s32_to_u64 a + computeChainDataLength L b)
     = word_of_int (sint a + int (length (b_bytes L b)))"
proof -
  have "s32_to_u64 a + computeChainDataLength L b
      = (word_of_int (sint a + int (length (b_bytes L b))) :: u64)"
    by (simp only: computeChainDataLength s32_to_u64_of_int of_int_add of_int_of_nat_eq)
  then show ?thesis by (simp only: u64_to_s32_of_int)
qed

lemma prepender_length_exact:
  assumes "prepender_ok p"
    and "- 2147483648 \<le> sint (pre_lengthAdjustment p) + int (length (b_bytes L b))"
    and "sint (pre_lengthAdjustment p) + int (length (b_bytes L b)) < 2147483640"
  shows "prepender_length L p b = Inr (word_of_int (meant_length p (length (b_bytes L b))))"
proof -
  let ?m = "sint (pre_lengthAdjustment p) + int (length (b_bytes L b))"
  have s: "sint (word_of_int ?m :: s32) = ?m"
    using assms(2,3) by (intro sint_of_int_s32) auto
  have f: "sint (pre_lengthFieldLength p) \<in> {1, 2, 4, 8}"
    using assms(1) by (rule sint_field_length)
  have "word_of_int ?m + pre_lengthFieldLength p
      = word_of_int (?m + sint (pre_lengthFieldLength p))"
    by (rule word_of_int_add_sint)
  then show ?thesis
    using assms(2,3) s f
    by (auto simp: prepender_length_def chain_length_int meant_length_def Let_def)
qed

end

text \<open>The casts of the four cases keep the value modulo the field's width.\<close>

lemma cast_headers:
  assumes "0 \<le> sint (v :: s32)" "n = nat (sint v)"
  shows "header_bytes be 1 (unat (ucast (ucast v :: 8 word) :: u64)) = header_bytes be 1 n"
    and "header_bytes be 2 (unat (ucast (ucast v :: 16 word) :: u64)) = header_bytes be 2 n"
    and "header_bytes be 4 (unat (ucast v :: u64)) = header_bytes be 4 n"
    and "header_bytes be 8 (unat (scast v :: u64)) = header_bytes be 8 n"
proof -
  have u: "unat v = n" using assms unat_sint_nonneg by simp
  have "unat (ucast v :: 8 word) = n mod 256 ^ 1"
    by (simp add: unsigned_ucast_eq take_bit_eq_mod u)
  then have "unat (ucast (ucast v :: 8 word) :: u64) = n mod 256 ^ 1"
    by (simp only: unat_ucast_8_64)
  then show "header_bytes be 1 (unat (ucast (ucast v :: 8 word) :: u64)) = header_bytes be 1 n"
    by (simp only: header_bytes_mod)
  have "unat (ucast v :: 16 word) = n mod 256 ^ 2"
    by (simp add: unsigned_ucast_eq take_bit_eq_mod u)
  then have "unat (ucast (ucast v :: 16 word) :: u64) = n mod 256 ^ 2"
    by (simp only: unat_ucast_16_64)
  then show "header_bytes be 2 (unat (ucast (ucast v :: 16 word) :: u64)) = header_bytes be 2 n"
    by (simp only: header_bytes_mod)
  show "header_bytes be 4 (unat (ucast v :: u64)) = header_bytes be 4 n"
    using u by simp
  show "header_bytes be 8 (unat (scast v :: u64)) = header_bytes be 8 n"
    using assms unat_scast_nonneg [of v] by simp
qed

context iobuf
begin

text \<open>The switch on a fresh header of the configured length: the bytes of the number, or the
  error of a number that does not fit. A four- or eight-byte field holds every \<open>int\<close>.\<close>

lemma fill_header_fresh:
  assumes ok: "prepender_ok p" and v: "0 \<le> sint v" "n = nat (sint v)"
    and k: "k = nat (sint (pre_lengthFieldLength p))"
    and w: "w = s32_to_u64 (pre_lengthFieldLength p)"
  shows "if n < 256 ^ k
    then \<exists>len'. fill_header L p v (iobuf_append L w (iobuf_create L w)) = Inr len'
           \<and> b_bytes L len' = header_bytes (pre_networkByteOrder p) k n
    else fill_header L p v (iobuf_append L w (iobuf_create L w)) = Inl LengthDoesNotFit"
  using ok
proof (cases rule: prepender_ok_cases)
  case 1
  then have "unat w = 1" "k = 1" by (simp_all add: w k)
  then show ?thesis
    using write_header_fresh [of w 1 "pre_networkByteOrder p" "ucast (ucast v :: 8 word)"] 1 v
    by (auto simp: fill_header_def cast_headers [OF v] nat_less_iff simp del: One_nat_def)
next
  case 2
  then have "unat w = 2" "k = 2" by (simp_all add: w k)
  then show ?thesis
    using write_header_fresh [of w 2 "pre_networkByteOrder p" "ucast (ucast v :: 16 word)"] 2 v
    by (auto simp: fill_header_def cast_headers [OF v] nat_less_iff simp del: One_nat_def)
next
  case 3
  then have "unat w = 4" "k = 4" by (simp_all add: w k)
  moreover have "n < 256 ^ 4" using v sint_s32_bounds(2) [of v] by simp
  ultimately show ?thesis
    using write_header_fresh [of w 4 "pre_networkByteOrder p" "ucast v"] 3 v unat_sint_nonneg [of v]
    by (auto simp: fill_header_def)
next
  case 4
  then have "unat w = 8" "k = 8" by (simp_all add: w k)
  moreover have "n < 256 ^ 8" using v sint_s32_bounds(2) [of v] by simp
  ultimately show ?thesis
    using write_header_fresh [of w 8 "pre_networkByteOrder p" "scast v"] 4
    by (auto simp: fill_header_def cast_headers [OF v])
qed

lemma write_from_length:
  assumes ok: "prepender_ok p" and len: "prepender_length L p b = Inr v"
  shows "map_sum id (b_bytes L) (LengthFieldPrepender_write L p b) =
    (if sint v < 0 then Inl LengthFieldNegative
     else if nat (sint v) < 256 ^ nat (sint (pre_lengthFieldLength p))
     then Inr (header_bytes (pre_networkByteOrder p) (nat (sint (pre_lengthFieldLength p)))
       (nat (sint v)) @ b_bytes L b)
     else Inl LengthDoesNotFit)"
proof (cases "sint v < 0")
  case True
  then show ?thesis by (simp add: LengthFieldPrepender_write_def len)
next
  case False
  then show ?thesis
    using fill_header_fresh [OF ok _ refl refl refl, of v]
    by (auto simp: LengthFieldPrepender_write_def len Let_def prependChain split: if_splits)
qed

end

text \<open>The contract over plain bytes and integers: put the length in front, or say why not.\<close>

definition prepend_spec :: "prepender \<Rightarrow> byte list \<Rightarrow> prepender_error + byte list" where
  "prepend_spec p bs =
     (let n = meant_length p (length bs); k = nat (sint (pre_lengthFieldLength p))
      in if n < 0 then Inl LengthFieldNegative
         else if nat n < 256 ^ k then Inr (header_bytes (pre_networkByteOrder p) k (nat n) @ bs)
         else Inl LengthDoesNotFit)"

definition fits_int :: "prepender \<Rightarrow> nat \<Rightarrow> bool" where
  "fits_int p n \<longleftrightarrow> - 2147483648 \<le> sint (pre_lengthAdjustment p) + int n
     \<and> sint (pre_lengthAdjustment p) + int n < 2147483640"

lemma write_refines:
  assumes "iobuf L" "prepender_ok p" "fits_int p (length (b_bytes L b))"
  shows "map_sum id (b_bytes L) (LengthFieldPrepender_write L p b) = prepend_spec p (b_bytes L b)"
proof -
  have v: "sint (word_of_int (meant_length p (length (b_bytes L b))) :: s32)
      = meant_length p (length (b_bytes L b))"
    using assms(3) sint_field_length [OF assms(2)]
    by (intro sint_of_int_s32) (auto simp: meant_length_def fits_int_def)
  show ?thesis
    using iobuf.write_from_length [OF assms(1,2) iobuf.prepender_length_exact [OF assms(1,2)]]
      assms(3)
    by (simp add: fits_int_def prepend_spec_def v Let_def)
qed

section \<open>Properties\<close>

text \<open>C25: on every message whose adjusted length fits an \<open>int\<close>, and for every configuration the
  constructor accepts, \<open>LengthFieldPrepender::write\<close> implements its byte-level contract: the
  frame is the length field in the configured width and byte order followed by the message, a
  negative length is the exception "Length field < 0", and a length that the one- or two-byte
  field cannot hold is the exception "length does not fit byte".\<close>

theorem prepender_write_refines:
  assumes "iobuf L" "prepender_ok p" "fits_int p (length (b_bytes L b))"
  shows "map_sum id (b_bytes L) (LengthFieldPrepender_write L p b) = prepend_spec p (b_bytes L b)"
  using assms by (rule write_refines)

theorem prepender_write_refines_witness:
  "map_sum id concat (LengthFieldPrepender_write chain_lib
     \<lparr>pre_lengthFieldLength = 2, pre_lengthAdjustment = 0, pre_lengthIncludesLengthField = True,
      pre_networkByteOrder = True\<rparr> [[72, 69], [76]]) = Inr [0, 5, 72, 69, 76]"
  using prepender_write_refines [OF chain.iobuf_axioms, of
      "\<lparr>pre_lengthFieldLength = 2, pre_lengthAdjustment = 0,
        pre_lengthIncludesLengthField = True, pre_networkByteOrder = True\<rparr>" "[[72, 69], [76]]"]
  by (simp add: chain_lib_def prepender_ok_def fits_int_def prepend_spec_def meant_length_def
      header_bytes_def be_bytes_def numeral_2_eq_2)

text \<open>\<open>int length\<close> narrows the \<open>size_t\<close> chain length, so a message of 4 GiB or more is
  framed with its length modulo \<open>2 ^ 32\<close>, whatever the field's width: also the eight-byte field,
  which could hold the true length, announces the wrong one, with no exception.\<close>

theorem prepender_truncates_4GiB:
  assumes "iobuf L" "prepender_ok p"
    and "pre_lengthAdjustment p = 0" "\<not> pre_lengthIncludesLengthField p"
    and "length (b_bytes L b) = 4294967296 * j + r" "r < 2147483648"
    and "r < 256 ^ nat (sint (pre_lengthFieldLength p))"
  shows "map_sum id (b_bytes L) (LengthFieldPrepender_write L p b)
    = Inr (header_bytes (pre_networkByteOrder p) (nat (sint (pre_lengthFieldLength p))) r
        @ b_bytes L b)"
proof -
  have "(word_of_int (int (length (b_bytes L b))) :: s32) = word_of_int (int r)"
    unfolding word_of_int_eq_iff by (simp add: assms(5) take_bit_eq_mod)
  then have "prepender_length L p b = Inr (word_of_int (int r))"
    using iobuf.chain_length_int [OF assms(1), of 0 b] assms(3,4)
    by (simp add: prepender_length_def)
  moreover have "sint (word_of_int (int r) :: s32) = int r"
    using assms(6) by (intro sint_of_int_s32) auto
  ultimately show ?thesis
    using iobuf.write_from_length [OF assms(1,2), of b "word_of_int (int r)"] assms(7) by simp
qed

theorem prepender_truncates_4GiB_witness:
  "map_sum id concat (LengthFieldPrepender_write chain_lib
     \<lparr>pre_lengthFieldLength = 8, pre_lengthAdjustment = 0, pre_lengthIncludesLengthField = False,
      pre_networkByteOrder = True\<rparr> [replicate 4294967301 0])
   = Inr ([0, 0, 0, 0, 0, 0, 0, 5] @ replicate 4294967301 0)"
proof -
  have h: "header_bytes True 8 5 = [0, 0, 0, 0, 0, 0, 0, 5]"
    by code_simp
  show ?thesis
    using prepender_truncates_4GiB [OF chain.iobuf_axioms, of
        "\<lparr>pre_lengthFieldLength = 8, pre_lengthAdjustment = 0,
          pre_lengthIncludesLengthField = False, pre_networkByteOrder = True\<rparr>"
        "[replicate 4294967301 0]" 1 5]
    by (simp add: chain_lib_def prepender_ok_def h)
qed

end
