(* ===== verification/LengthFieldBasedFrameDecoder.thy ===== *)
theory LengthFieldBasedFrameDecoder
  imports IOBuf_Lib
begin

text \<open>
  The inbound codec \<open>codec/LengthFieldBasedFrameDecoder.cpp\<close>: it cuts the byte stream of a
  connection into frames by the length field each frame carries. The model keeps the widths of the
  code: the configuration is \<open>uint32_t\<close> and \<open>int32_t\<close>, the frame length \<open>uint64_t\<close>, the
  length given to \<open>split\<close> an \<open>int\<close>. \<open>decode_spec\<close> is the contract over byte lists and
  natural numbers, which \<open>decode\<close> is proved to refine.
\<close>

section \<open>The handler\<close>

record decoder =
  dec_lengthFieldLength :: u32
  dec_maxFrameLength :: u32
  dec_lengthFieldOffset :: u32
  dec_lengthAdjustment :: s32
  dec_initialBytesToStrip :: u32
  dec_networkByteOrder :: bool
  dec_lengthFieldEndOffset :: u32

text \<open>The exceptions given to \<open>ctx->fireReadException\<close>, and the outcome of a call:
  \<open>false\<close> with nothing else done, \<open>false\<close> after such an exception, or \<open>true\<close> with a frame.\<close>

datatype read_exception = FrameTooSmall | FrameLargerThan u32 | InitialBytesToSkipLargerThanFrame

datatype 'b decode_out = ReturnFalse | FireReadException read_exception | ReturnTrue 'b

datatype decode_fault =
    QueueUnderflow \<comment> \<open>\<open>std::underflow_error\<close> from the queue\<close>
  | CursorPastEnd \<comment> \<open>\<open>std::out_of_range\<close> from the cursor\<close>
  | IndeterminateFrameLength \<comment> \<open>undefined: \<open>frameLength\<close> is returned without a value\<close>

definition LengthFieldBasedFrameDecoder_new ::
  "u32 \<Rightarrow> u32 \<Rightarrow> u32 \<Rightarrow> s32 \<Rightarrow> u32 \<Rightarrow> bool \<Rightarrow> decoder option" where
  "LengthFieldBasedFrameDecoder_new lengthFieldLength maxFrameLength lengthFieldOffset
      lengthAdjustment initialBytesToStrip networkByteOrder =
     (if 0 < maxFrameLength \<and> lengthFieldOffset \<le> maxFrameLength - lengthFieldLength
      then Some \<lparr>dec_lengthFieldLength = lengthFieldLength, dec_maxFrameLength = maxFrameLength,
        dec_lengthFieldOffset = lengthFieldOffset, dec_lengthAdjustment = lengthAdjustment,
        dec_initialBytesToStrip = initialBytesToStrip, dec_networkByteOrder = networkByteOrder,
        dec_lengthFieldEndOffset = lengthFieldOffset + lengthFieldLength\<rparr>
      else None)"

text \<open>One \<open>readBE\<close> or \<open>readLE\<close> of a \<open>k\<close>-byte integer.\<close>

definition read_length ::
  "('q, 'b, 'c) iobuf_lib \<Rightarrow> bool \<Rightarrow> nat \<Rightarrow> 'c \<Rightarrow> decode_fault + u64" where
  "read_length L networkByteOrder k c =
     (case (if networkByteOrder then c_readBE L k c else c_readLE L k c) of
        None \<Rightarrow> Inl CursorPastEnd
      | Some v \<Rightarrow> Inr v)"

text \<open>\<open>offset\<close> and \<open>length\<close> are \<open>int\<close>s; a length with no case leaves \<open>frameLength\<close>
  uninitialised.\<close>

definition getUnadjustedFrameLength ::
  "('q, 'b, 'c) iobuf_lib \<Rightarrow> 'q \<Rightarrow> s32 \<Rightarrow> s32 \<Rightarrow> bool \<Rightarrow> decode_fault + u64" where
  "getUnadjustedFrameLength L buf offset len networkByteOrder =
     (case c_skip L (s32_to_u64 offset) (front_cursor L buf) of
        None \<Rightarrow> Inl CursorPastEnd
      | Some c \<Rightarrow>
          if len = 1 then read_length L networkByteOrder 1 c
          else if len = 2 then read_length L networkByteOrder 2 c
          else if len = 4 then read_length L networkByteOrder 4 c
          else if len = 8 then read_length L networkByteOrder 8 c
          else Inl IndeterminateFrameLength)"

text \<open>\<open>buf.trimStart(n)\<close> before an exception is fired and \<open>false\<close> returned.\<close>

definition trim_and_fire ::
  "('q, 'b, 'c) iobuf_lib \<Rightarrow> u64 \<Rightarrow> read_exception \<Rightarrow> 'q \<Rightarrow> decode_fault + 'q \<times> 'b decode_out" where
  "trim_and_fire L n e buf =
     (case trimStart L n buf of
        None \<Rightarrow> Inl QueueUnderflow
      | Some buf' \<Rightarrow> Inr (buf', FireReadException e))"

text \<open>The end of \<open>decode\<close>: strip the first bytes, split the rest of the frame off.\<close>

definition cut_frame ::
  "('q, 'b, 'c) iobuf_lib \<Rightarrow> decoder \<Rightarrow> u64 \<Rightarrow> 'q \<Rightarrow> decode_fault + 'q \<times> 'b decode_out" where
  "cut_frame L d frameLength buf =
     (case trimStart L (u32_to_u64 (dec_initialBytesToStrip d)) buf of
        None \<Rightarrow> Inl QueueUnderflow
      | Some buf' \<Rightarrow>
          (let actualFrameLength = u64_to_s32 (frameLength - u32_to_u64 (dec_initialBytesToStrip d))
           in case q_split L (s32_to_u64 actualFrameLength) buf' of
                None \<Rightarrow> Inl QueueUnderflow
              | Some (result, buf'') \<Rightarrow> Inr (buf'', ReturnTrue result)))"

definition decode ::
  "('q, 'b, 'c) iobuf_lib \<Rightarrow> decoder \<Rightarrow> 'q \<Rightarrow> decode_fault + 'q \<times> 'b decode_out" where
  "decode L d buf =
     (if chainLength L buf < u32_to_u64 (dec_lengthFieldEndOffset d) then Inr (buf, ReturnFalse)
      else
        case getUnadjustedFrameLength L buf (dec_lengthFieldOffset d) (dec_lengthFieldLength d)
               (dec_networkByteOrder d) of
          Inl e \<Rightarrow> Inl e
        | Inr unadjusted \<Rightarrow>
            (let frameLength = unadjusted
                   + u32_to_u64 (dec_lengthAdjustment d + dec_lengthFieldEndOffset d)
             in if frameLength < u32_to_u64 (dec_lengthFieldEndOffset d) then
                  trim_and_fire L (u32_to_u64 (dec_lengthFieldEndOffset d)) FrameTooSmall buf
                else if u32_to_u64 (dec_maxFrameLength d) < frameLength then
                  Inr (trimStartAtMost L frameLength buf,
                       FireReadException (FrameLargerThan (dec_maxFrameLength d)))
                else if chainLength L buf < frameLength then Inr (buf, ReturnFalse)
                else if frameLength < u32_to_u64 (dec_initialBytesToStrip d) then
                  trim_and_fire L frameLength InitialBytesToSkipLargerThanFrame buf
                else cut_frame L d frameLength buf))"

section \<open>The contract over bytes\<close>

definition field_value :: "decoder \<Rightarrow> byte list \<Rightarrow> nat" where
  "field_value d bs =
     (if dec_networkByteOrder d then be_val else le_val)
       (take (unat (dec_lengthFieldLength d)) (drop (unat (dec_lengthFieldOffset d)) bs))"

text \<open>What is added to the field's value: the adjustment and the header's own length.\<close>

definition extra_length :: "decoder \<Rightarrow> int" where
  "extra_length d = sint (dec_lengthAdjustment d) + int (unat (dec_lengthFieldEndOffset d))"

definition frame_length :: "decoder \<Rightarrow> byte list \<Rightarrow> nat" where
  "frame_length d bs = (field_value d bs + nat (extra_length d)) mod 2 ^ 64"

definition decode_spec :: "decoder \<Rightarrow> byte list \<Rightarrow> byte list \<times> byte list decode_out" where
  "decode_spec d bs =
     (let hdr = unat (dec_lengthFieldEndOffset d); n = frame_length d bs;
          strip = unat (dec_initialBytesToStrip d)
      in if length bs < hdr then (bs, ReturnFalse)
         else if n < hdr then (drop hdr bs, FireReadException FrameTooSmall)
         else if unat (dec_maxFrameLength d) < n then
           (drop n bs, FireReadException (FrameLargerThan (dec_maxFrameLength d)))
         else if length bs < n then (bs, ReturnFalse)
         else if n < strip then (drop n bs, FireReadException InitialBytesToSkipLargerThanFrame)
         else (drop n bs, ReturnTrue (drop strip (take n bs))))"

text \<open>The configurations the contract covers: a field width the code reads, offsets that do not
  wrap, an adjustment that keeps the length non-negative, frames shorter than 2 GiB.\<close>

definition decoder_shape :: "decoder \<Rightarrow> bool" where
  "decoder_shape d \<longleftrightarrow> dec_lengthFieldLength d \<in> {1, 2, 4, 8}
     \<and> unat (dec_lengthFieldOffset d) < 2147483648
     \<and> unat (dec_lengthFieldEndOffset d)
         = unat (dec_lengthFieldOffset d) + unat (dec_lengthFieldLength d)
     \<and> 0 \<le> extra_length d \<and> extra_length d < 4294967296"

definition decoder_ok :: "decoder \<Rightarrow> bool" where
  "decoder_ok d \<longleftrightarrow> decoder_shape d \<and> unat (dec_maxFrameLength d) < 2147483648"

section \<open>Refinement\<close>

lemma unat_extra:
  assumes "0 \<le> extra_length d" "extra_length d < 4294967296"
  shows "unat (dec_lengthAdjustment d + dec_lengthFieldEndOffset d) = nat (extra_length d)"
proof -
  have "dec_lengthAdjustment d + dec_lengthFieldEndOffset d = word_of_int (extra_length d)"
    by (simp add: extra_length_def)
  then have "uint (dec_lengthAdjustment d + dec_lengthFieldEndOffset d) = extra_length d"
    using assms by (simp add: uint_word_of_int_eq take_bit_int_eq_self)
  then show ?thesis by (metis nat_uint_eq)
qed

lemma field_value_bound:
  assumes "dec_lengthFieldLength d \<in> {1, 2, 4, 8}"
  shows "field_value d bs < 2 ^ 64"
proof -
  let ?f = "take (unat (dec_lengthFieldLength d)) (drop (unat (dec_lengthFieldOffset d)) bs)"
  have "length ?f \<le> 8" using assms by auto
  then have "(256 :: nat) ^ length ?f \<le> 256 ^ 8" by (intro power_increasing) auto
  then show ?thesis
    using le_val_bound [of ?f] be_val_bound [of ?f]
    by (auto simp: field_value_def intro: less_le_trans)
qed

context iobuf
begin

lemma read_length_ok:
  assumes "k \<le> 8" "k \<le> length (c_bytes L c)"
  shows "read_length L be k c = Inr (of_nat ((if be then be_val else le_val) (take k (c_bytes L c))))"
  using c_readBE [OF assms] c_readLE [OF assms] by (simp add: read_length_def)

lemma getUnadjusted_ok:
  assumes ok: "decoder_shape d" and len: "unat (dec_lengthFieldEndOffset d) \<le> length (q_bytes L q)"
  shows "getUnadjustedFrameLength L q (dec_lengthFieldOffset d) (dec_lengthFieldLength d)
      (dec_networkByteOrder d) = Inr (of_nat (field_value d (q_bytes L q)))"
proof -
  have off: "unat (s32_to_u64 (dec_lengthFieldOffset d)) = unat (dec_lengthFieldOffset d)"
    and k: "dec_lengthFieldLength d \<in> {1, 2, 4, 8}"
    using ok by (simp_all add: decoder_shape_def unat_s32_to_u64_small)
  obtain c where c: "c_skip L (s32_to_u64 (dec_lengthFieldOffset d)) (front_cursor L q) = Some c"
    and bytes: "c_bytes L c = drop (unat (dec_lengthFieldOffset d)) (q_bytes L q)"
    using c_skip_ok [of "s32_to_u64 (dec_lengthFieldOffset d)" "front_cursor L q"] ok len off
    by (auto simp: front_cursor decoder_shape_def)
  have "unat (dec_lengthFieldLength d) \<le> length (c_bytes L c)"
    using ok len by (simp add: bytes decoder_shape_def)
  then show ?thesis
    using k by (auto simp: getUnadjustedFrameLength_def c read_length_ok bytes field_value_def
        simp del: One_nat_def)
qed

lemma unat_frame_length:
  assumes "decoder_shape d"
  shows "unat (of_nat (field_value d bs)
      + u32_to_u64 (dec_lengthAdjustment d + dec_lengthFieldEndOffset d)) = frame_length d bs"
proof -
  have "field_value d bs < 2 ^ 64"
    and "unat (dec_lengthAdjustment d + dec_lengthFieldEndOffset d) = nat (extra_length d)"
    using assms by (simp_all only: decoder_shape_def field_value_bound unat_extra)
  then show ?thesis
    by (simp only: unat_word_ariths(1) unat_u32_to_u64 unat_of_nat_u64 frame_length_def len64)
qed

lemma trim_and_fire_ok:
  assumes "unat n \<le> length (q_bytes L q)"
  shows "map_sum id (map_prod (q_bytes L) (map_decode_out f)) (trim_and_fire L n e q)
    = Inr (drop (unat n) (q_bytes L q), FireReadException e)"
  using trimStart_ok [OF assms] by (auto simp: trim_and_fire_def)

lemma cut_frame_ok:
  assumes "unat n < 2147483648" "unat n \<le> length (q_bytes L q)"
    and "unat (dec_initialBytesToStrip d) \<le> unat n"
  shows "map_sum id (map_prod (q_bytes L) (map_decode_out (b_bytes L))) (cut_frame L d n q)
    = Inr (drop (unat n) (q_bytes L q),
        ReturnTrue (drop (unat (dec_initialBytesToStrip d)) (take (unat n) (q_bytes L q))))"
proof -
  let ?s = "dec_initialBytesToStrip d"
  obtain q' where q': "trimStart L (u32_to_u64 ?s) q = Some q'"
    "q_bytes L q' = drop (unat ?s) (q_bytes L q)"
    using trimStart_ok [of "u32_to_u64 ?s" q] assms(2,3) by auto
  have diff: "unat (n - u32_to_u64 ?s) = unat n - unat ?s"
    using assms(3) by (simp add: unat_sub word_le_nat_alt)
  have a: "unat (u64_to_s32 (n - u32_to_u64 ?s)) = unat n - unat ?s"
    using assms(1) by (simp add: unsigned_ucast_eq take_bit_nat_eq_self_iff diff)
  have a': "unat (s32_to_u64 (u64_to_s32 (n - u32_to_u64 ?s))) = unat n - unat ?s"
    using assms(1) a by (simp only: unat_s32_to_u64_small)
  show ?thesis
    using q_split_ok [of "s32_to_u64 (u64_to_s32 (n - u32_to_u64 ?s))" q'] assms
      diff_le_mono [OF assms(2), of "unat ?s"]
    by (auto simp: cut_frame_def q' a' Let_def drop_take)
qed

lemma decode_refines:
  assumes ok: "decoder_ok d" and bound: "length (q_bytes L q) < 2 ^ 64"
  shows "map_sum id (map_prod (q_bytes L) (map_decode_out (b_bytes L))) (decode L d q)
    = Inr (decode_spec d (q_bytes L q))"
proof -
  have sh: "decoder_shape d" using ok by (simp add: decoder_ok_def)
  let ?e = "u32_to_u64 (dec_lengthFieldEndOffset d)"
  let ?n = "of_nat (field_value d (q_bytes L q))
      + u32_to_u64 (dec_lengthAdjustment d + dec_lengthFieldEndOffset d)"
  have n: "unat ?n = frame_length d (q_bytes L q)" by (rule unat_frame_length [OF sh])
  have lt: "?n < u32_to_u64 x \<longleftrightarrow> frame_length d (q_bytes L q) < unat x"
    "u32_to_u64 x < ?n \<longleftrightarrow> unat x < frame_length d (q_bytes L q)"
    "chainLength L q < ?n \<longleftrightarrow> length (q_bytes L q) < frame_length d (q_bytes L q)"
    "chainLength L q < u32_to_u64 x \<longleftrightarrow> length (q_bytes L q) < unat x" for x
    using bound by (simp_all add: word_less_nat_alt n chainLength unat_of_nat_u64 del: of_nat_add)
  show ?thesis
  proof (cases "length (q_bytes L q) < unat (dec_lengthFieldEndOffset d)")
    case True
    then show ?thesis by (simp add: decode_def lt decode_spec_def)
  next
    case False
    then have "getUnadjustedFrameLength L q (dec_lengthFieldOffset d) (dec_lengthFieldLength d)
        (dec_networkByteOrder d) = Inr (of_nat (field_value d (q_bytes L q)))"
      by (intro getUnadjusted_ok [OF sh]) simp
    moreover have "unat (dec_maxFrameLength d) < 2147483648" using ok by (simp add: decoder_ok_def)
    ultimately show ?thesis
      using False trim_and_fire_ok [of ?e q "b_bytes L" FrameTooSmall]
        trim_and_fire_ok [of ?n q "b_bytes L" InitialBytesToSkipLargerThanFrame]
        cut_frame_ok [of ?n q d]
      by (simp add: decode_def lt decode_spec_def Let_def n trimStartAtMost)
  qed
qed

end

lemma decode_spec_max_below_header:
  assumes "unat (dec_lengthFieldEndOffset d) \<le> length bs"
    and "unat (dec_maxFrameLength d) < unat (dec_lengthFieldEndOffset d)"
  shows "\<exists>bs' e. decode_spec d bs = (bs', FireReadException e)"
  using assms by (auto simp: decode_spec_def Let_def)

text \<open>Reading an outcome back from its byte-level image.\<close>

lemma refined_outcomes:
  "map_sum id (map_prod f (map_decode_out g)) r = Inr (x, ReturnFalse)
     \<longleftrightarrow> (\<exists>q. r = Inr (q, ReturnFalse) \<and> f q = x)"
  "map_sum id (map_prod f (map_decode_out g)) r = Inr (x, FireReadException e)
     \<longleftrightarrow> (\<exists>q. r = Inr (q, FireReadException e) \<and> f q = x)"
  "map_sum id (map_prod f (map_decode_out g)) r = Inr (x, ReturnTrue y)
     \<longleftrightarrow> (\<exists>q b. r = Inr (q, ReturnTrue b) \<and> f q = x \<and> g b = y)"
proof -
  have inv: "map_decode_out g out = ReturnFalse \<longleftrightarrow> out = ReturnFalse"
    "map_decode_out g out = FireReadException e \<longleftrightarrow> out = FireReadException e"
    "map_decode_out g out = ReturnTrue y \<longleftrightarrow> (\<exists>b. out = ReturnTrue b \<and> g b = y)" for out
    by (cases out; auto)+
  show "map_sum id (map_prod f (map_decode_out g)) r = Inr (x, ReturnFalse)
     \<longleftrightarrow> (\<exists>q. r = Inr (q, ReturnFalse) \<and> f q = x)"
    "map_sum id (map_prod f (map_decode_out g)) r = Inr (x, FireReadException e)
     \<longleftrightarrow> (\<exists>q. r = Inr (q, FireReadException e) \<and> f q = x)"
    "map_sum id (map_prod f (map_decode_out g)) r = Inr (x, ReturnTrue y)
     \<longleftrightarrow> (\<exists>q b. r = Inr (q, ReturnTrue b) \<and> f q = x \<and> g b = y)"
    by (cases r; auto simp: inv)+
qed

section \<open>Properties\<close>

text \<open>C24: for every configuration in range (a field of 1, 2, 4 or 8 bytes, frames below 2 GiB) and
  every content of the queue, \<open>decode\<close> implements its byte-level contract on each of its
  branches: it waits without consuming until header and frame have arrived, drops and reports a
  frame that is too small, too large or shorter than the bytes to strip, and otherwise consumes
  exactly one frame and yields its bytes without the stripped prefix. It never throws out of the
  queue or the cursor.\<close>

theorem decode_refines_spec:
  assumes "iobuf L" "decoder_ok d" "length (q_bytes L q) < 2 ^ 64"
  shows "map_sum id (map_prod (q_bytes L) (map_decode_out (b_bytes L))) (decode L d q)
    = Inr (decode_spec d (q_bytes L q))"
  using assms by (rule iobuf.decode_refines)

theorem decode_refines_spec_witness:
  "map_sum id (map_prod concat (map_decode_out concat)) (decode chain_lib
     \<lparr>dec_lengthFieldLength = 2, dec_maxFrameLength = 100, dec_lengthFieldOffset = 1,
      dec_lengthAdjustment = 1, dec_initialBytesToStrip = 3, dec_networkByteOrder = True,
      dec_lengthFieldEndOffset = 3\<rparr> [[0xCA, 0], [2, 0xFE, 72], [73, 9]])
   = Inr ([9], ReturnTrue [0xFE, 72, 73])"
  using decode_refines_spec [OF chain.iobuf_axioms, of
      "\<lparr>dec_lengthFieldLength = 2, dec_maxFrameLength = 100, dec_lengthFieldOffset = 1,
        dec_lengthAdjustment = 1, dec_initialBytesToStrip = 3, dec_networkByteOrder = True,
        dec_lengthFieldEndOffset = 3\<rparr>" "[[0xCA, 0], [2, 0xFE, 72], [73, 9]]"]
  by (simp add: chain_lib_def decoder_ok_def decoder_shape_def extra_length_def decode_spec_def frame_length_def
      field_value_def be_val_def Let_def)

text \<open>The class comment documents configurations with a three-byte length field, and the
  constructor accepts them, but \<open>getUnadjustedFrameLength\<close> has no case for any width other than
  1, 2, 4 and 8: with such a field every call that sees a whole header computes with an
  uninitialised \<open>frameLength\<close>.\<close>

theorem decode_other_widths_undefined:
  assumes "iobuf L"
    and "LengthFieldBasedFrameDecoder_new n maxLen off adj strip be = Some d"
    and "n \<notin> {1, 2, 4, 8}" "unat off < 2147483648" "unat n < 2147483648"
    and "unat off + unat n \<le> length (q_bytes L q)" "length (q_bytes L q) < 2 ^ 64"
  shows "decode L d q = Inl IndeterminateFrameLength"
proof -
  have d: "dec_lengthFieldOffset d = off" "dec_lengthFieldLength d = n"
    "dec_lengthFieldEndOffset d = off + n"
    using assms(2) by (auto simp: LengthFieldBasedFrameDecoder_new_def split: if_splits)
  have e: "unat (off + n) = unat off + unat n"
    using assms(4,5) by (simp add: unat_word_ariths)
  have "unat (s32_to_u64 off) \<le> length (c_bytes L (front_cursor L q))"
    using assms(4,6) by (simp add: unat_s32_to_u64_small iobuf.front_cursor [OF assms(1)])
  then obtain c where "c_skip L (s32_to_u64 off) (front_cursor L q) = Some c"
    using iobuf.c_skip_ok [OF assms(1)] by blast
  moreover have "\<not> chainLength L q < u32_to_u64 (off + n)"
    using assms(6) iobuf.chainLength_less [OF assms(1,7)] e by simp
  ultimately show ?thesis
    using assms(3) by (simp add: decode_def getUnadjustedFrameLength_def d)
qed

theorem decode_other_widths_undefined_witness:
  "decode chain_lib \<lparr>dec_lengthFieldLength = 3, dec_maxFrameLength = 1000,
      dec_lengthFieldOffset = 2, dec_lengthAdjustment = 0, dec_initialBytesToStrip = 0,
      dec_networkByteOrder = True, dec_lengthFieldEndOffset = 5\<rparr>
      [[0xCA, 0xFE, 0, 0, 12, 72, 69, 76, 76, 79]] = Inl IndeterminateFrameLength"
  by (rule decode_other_widths_undefined [OF chain.iobuf_axioms, of 3 1000 2 0 0 True])
    (simp_all add: LengthFieldBasedFrameDecoder_new_def chain_lib_def)

text \<open>\<open>CHECK(lengthFieldOffset <= maxFrameLength - lengthFieldLength)\<close> subtracts unsigned
  numbers, so a maximum smaller than the length field itself passes it; the decoder built that
  way rejects every frame whose header it sees.\<close>

theorem constructor_check_wraps:
  assumes "iobuf L" "0 < maxLen" "maxLen < n" "n \<in> {1, 2, 4, 8}" "unat off < 2147483648"
    and "unat off + unat n \<le> length (q_bytes L q)" "length (q_bytes L q) < 2 ^ 64"
  shows "\<exists>d. LengthFieldBasedFrameDecoder_new n maxLen off 0 strip be = Some d
    \<and> (\<exists>q' e. decode L d q = Inr (q', FireReadException e))"
proof -
  let ?d = "\<lparr>dec_lengthFieldLength = n, dec_maxFrameLength = maxLen, dec_lengthFieldOffset = off,
    dec_lengthAdjustment = 0, dec_initialBytesToStrip = strip, dec_networkByteOrder = be,
    dec_lengthFieldEndOffset = off + n\<rparr>"
  have n: "unat n \<in> {1, 2, 4, 8}" using assms(4) by auto
  have e: "unat (off + n) = unat off + unat n"
    using assms(5) n by (auto simp: unat_word_ariths)
  have m: "unat maxLen < unat n" using assms(3) by (simp add: word_less_nat_alt)
  have off: "uint off < 2147483648" using assms(5) by (simp add: unat_less_helper_int)
  have ok: "decoder_ok ?d"
    using assms(4,5) off n e m by (auto simp: decoder_ok_def decoder_shape_def extra_length_def)
  have "off \<le> maxLen - n"
  proof -
    have "uint n \<le> 8" "uint maxLen < uint n" "0 \<le> uint maxLen"
      using assms(3,4) by (auto simp: word_less_def)
    then have "0 \<le> uint maxLen - uint n + 4294967296" "uint maxLen - uint n + 4294967296 < 4294967296"
      and "2147483648 \<le> uint maxLen - uint n + 4294967296"
      by linarith+
    moreover have "uint (maxLen - n) = (uint maxLen - uint n + 4294967296) mod 4294967296"
      by (simp add: uint_word_ariths)
    ultimately have "2147483648 \<le> uint (maxLen - n)" by (simp only: mod_pos_pos_trivial)
    with off show ?thesis by (simp add: word_le_def)
  qed
  then have new: "LengthFieldBasedFrameDecoder_new n maxLen off 0 strip be = Some ?d"
    using assms(2) by (simp add: LengthFieldBasedFrameDecoder_new_def)
  obtain bs ex where "decode_spec ?d (q_bytes L q) = (bs, FireReadException ex)"
    using decode_spec_max_below_header [of ?d "q_bytes L q"] assms(6) m e by auto
  then have "\<exists>q' e. decode L ?d q = Inr (q', FireReadException e)"
    using iobuf.decode_refines [OF assms(1) ok assms(7)] by (auto simp: refined_outcomes)
  with new show ?thesis by blast
qed

theorem constructor_check_wraps_witness:
  "\<exists>d. LengthFieldBasedFrameDecoder_new 4 1 0 0 0 True = Some d
    \<and> (\<exists>q' e. decode chain_lib d [[0, 0, 0, 0, 7]] = Inr (q', FireReadException e))"
  by (rule constructor_check_wraps [OF chain.iobuf_axioms]) (simp_all add: chain_lib_def)

text \<open>The constructor's default arguments.\<close>

definition default_decoder :: decoder where
  "default_decoder = the (LengthFieldBasedFrameDecoder_new 4 4294967295 0 0 4 True)"

lemma default_decoder_sel:
  "dec_lengthFieldLength default_decoder = 4" "dec_maxFrameLength default_decoder = 4294967295"
  "dec_lengthFieldOffset default_decoder = 0" "dec_lengthAdjustment default_decoder = 0"
  "dec_initialBytesToStrip default_decoder = 4" "dec_networkByteOrder default_decoder = True"
  "dec_lengthFieldEndOffset default_decoder = 4"
  by (simp_all add: default_decoder_def LengthFieldBasedFrameDecoder_new_def)

text \<open>With its default arguments the decoder accepts frames of up to \<open>UINT_MAX\<close> bytes, but keeps
  the length of the body in an \<open>int\<close>: for a body of 2 GiB or more that has arrived in full, the
  \<open>int\<close> is negative, its conversion to \<open>size_t\<close> is larger than the queue, and \<open>split\<close> throws
  instead of delivering the frame.\<close>

theorem default_decoder_overflows:
  assumes "iobuf L" "2147483648 \<le> v" "v \<le> 4294967291"
    and "q_bytes L q = be_bytes 4 v @ body" "length body = v"
  shows "decode L default_decoder q = Inl QueueUnderflow"
proof -
  let ?n = "of_nat v + 4 :: u64"
  have sh: "decoder_shape default_decoder"
    by (simp add: decoder_shape_def default_decoder_sel extra_length_def)
  have fv: "field_value default_decoder (q_bytes L q) = v"
    using assms(3) by (simp add: field_value_def default_decoder_sel assms(4))
  have n: "unat ?n = v + 4"
    using assms(3) by (simp add: unat_word_ariths unat_of_nat)
  have cl: "chainLength L q < w \<longleftrightarrow> v + 4 < unat w" for w
    using assms(3,5) by (subst iobuf.chainLength_less [OF assms(1)]) (simp_all add: assms(4) add.commute)
  have un: "getUnadjustedFrameLength L q 0 4 True = Inr (of_nat v)"
    using iobuf.getUnadjusted_ok [OF assms(1) sh, of q] fv
    by (simp add: default_decoder_sel assms(4))
  obtain q' where q': "trimStart L 4 q = Some q'" "q_bytes L q' = body"
    using iobuf.trimStart_ok [OF assms(1), of 4 q] by (auto simp: assms(4))
  have "u64_to_s32 (of_nat v) = u64_to_s32 (word_of_int (int v))" by simp
  also have "\<dots> = word_of_int (int v)" by (rule u64_to_s32_of_int)
  also have "\<dots> = word_of_int (int v - 4294967296)"
    unfolding word_of_int_eq_iff by (simp add: take_bit_eq_mod)
  finally have i: "u64_to_s32 (of_nat v) = word_of_int (int v - 4294967296)" .
  have w: "s32_to_u64 (u64_to_s32 (of_nat v)) = word_of_int (int v - 4294967296)"
    unfolding s32_to_u64_of_int i
    using assms(2,3) by (subst sint_of_int_s32) auto
  have "uint (word_of_int (int v - 4294967296) :: u64) = int v - 4294967296 + 18446744073709551616"
    using assms(3) by (intro uint_of_int_negative) auto
  then have "int v < int (unat (s32_to_u64 (u64_to_s32 (of_nat v))))"
    unfolding w uint_nat by linarith
  then have "v < unat (s32_to_u64 (u64_to_s32 (of_nat v)))" by linarith
  then have "q_split L (s32_to_u64 (u64_to_s32 (of_nat v))) q' = None"
    using iobuf.q_split_underflow [OF assms(1)] q' assms(5) by simp
  then have "cut_frame L default_decoder ?n q = Inl QueueUnderflow"
    using q' by (simp add: cut_frame_def default_decoder_sel)
  moreover have "\<not> chainLength L q < 4" "\<not> chainLength L q < ?n" "\<not> ?n < 4" "\<not> 4294967295 < ?n"
    using assms(2,3) unfolding cl n by (simp_all add: word_less_nat_alt n)
  ultimately show ?thesis
    using un by (simp add: decode_def default_decoder_sel Let_def)
qed

theorem default_decoder_overflows_witness:
  "\<exists>q. length (concat q) = 2147483652 \<and> decode chain_lib default_decoder q = Inl QueueUnderflow"
proof -
  obtain z :: "byte list" where z: "length z = 2147483648" using Ex_list_of_length by blast
  have "decode chain_lib default_decoder [be_bytes 4 2147483648, z] = Inl QueueUnderflow"
    by (rule default_decoder_overflows [OF chain.iobuf_axioms _ _ _ z]) simp_all
  then show ?thesis using z by (intro exI [of _ "[be_bytes 4 2147483648, z]"]) simp
qed

end
