(* ===== verification/Framing.thy ===== *)
theory Framing
  imports LengthFieldPrepender LengthFieldBasedFrameDecoder
begin

text \<open>
  The two codecs against each other: a frame written by \<open>LengthFieldPrepender\<close> is cut out again
  by a matching \<open>LengthFieldBasedFrameDecoder\<close>, and the codecs of the RPC pipelines carry a
  stream of messages over a connection that delivers its bytes in arbitrary chunks. The receiver
  is a step relation in which bytes arrive and \<open>decode\<close> is called in any order, so the result does
  not depend on when wangle calls the decoder.
\<close>

section \<open>Matching codecs\<close>

definition codecs_match :: "prepender \<Rightarrow> decoder \<Rightarrow> bool" where
  "codecs_match p d \<longleftrightarrow> dec_lengthFieldLength d = pre_lengthFieldLength p
     \<and> dec_lengthFieldOffset d = 0 \<and> dec_networkByteOrder d = pre_networkByteOrder p
     \<and> sint (dec_lengthAdjustment d) = - sint (pre_lengthAdjustment p)
         - (if pre_lengthIncludesLengthField p then sint (pre_lengthFieldLength p) else 0)"

lemma unat_field_length:
  "prepender_ok p \<Longrightarrow> int (unat (pre_lengthFieldLength p)) = sint (pre_lengthFieldLength p)"
  by (erule prepender_ok_cases) simp_all

lemma decode_spec_prepend:
  assumes pre: "prepend_spec p bs = Inr f" and p: "prepender_ok p" and d: "decoder_ok d"
    and m: "codecs_match p d"
    and max: "length f \<le> unat (dec_maxFrameLength d)"
    and strip: "unat (dec_initialBytesToStrip d) \<le> length f"
  shows "decode_spec d (f @ rest) = (rest, ReturnTrue (drop (unat (dec_initialBytesToStrip d)) f))"
proof -
  let ?k = "unat (pre_lengthFieldLength p)"
  let ?n = "nat (meant_length p (length bs))"
  have k: "nat (sint (pre_lengthFieldLength p)) = ?k"
    using unat_field_length [OF p] by linarith
  have n: "0 \<le> meant_length p (length bs)" "?n < 256 ^ ?k"
    and f: "f = header_bytes (pre_networkByteOrder p) ?k ?n @ bs"
    using pre by (auto simp: prepend_spec_def Let_def k split: if_splits)
  have e: "unat (dec_lengthFieldEndOffset d) = ?k"
    using d m by (simp add: decoder_ok_def decoder_shape_def codecs_match_def)
  have "field_value d (f @ rest) = ?n"
    using m n(2) by (simp add: field_value_def codecs_match_def f header_bytes_def)
  moreover have "meant_length p (length bs) + extra_length d = int (length f)"
    using m by (simp add: meant_length_def extra_length_def codecs_match_def e f unat_field_length [OF p])
  moreover have "0 \<le> extra_length d" using d by (simp add: decoder_ok_def decoder_shape_def)
  moreover have "length f < 2 ^ 64"
    using max unat_u32_bound [of "dec_maxFrameLength d"] by simp
  ultimately have "frame_length d (f @ rest) = length f"
    using n(1) by (simp add: frame_length_def nat_add_distrib [symmetric])
  moreover have "?k \<le> length f" by (simp add: f)
  ultimately show ?thesis
    using max strip by (simp add: decode_spec_def Let_def e)
qed

section \<open>The codecs of the RPC pipelines\<close>

text \<open>Both pipelines add \<open>LengthFieldBasedFrameDecoder(2, 65536, 0, 0, 2, true)\<close> and
  \<open>LengthFieldPrepender(2, 0, false, true)\<close>.\<close>

definition rpc_decoder :: decoder where
  "rpc_decoder = the (LengthFieldBasedFrameDecoder_new 2 65536 0 0 2 True)"

definition rpc_prepender :: prepender where
  "rpc_prepender = the (LengthFieldPrepender_new 2 0 False True)"

lemma rpc_decoder_constructed:
  "LengthFieldBasedFrameDecoder_new 2 65536 0 0 2 True = Some rpc_decoder"
  by (simp add: rpc_decoder_def LengthFieldBasedFrameDecoder_new_def)

lemma rpc_prepender_constructed: "LengthFieldPrepender_new 2 0 False True = Some rpc_prepender"
  by (simp add: rpc_prepender_def LengthFieldPrepender_new_def)

lemma rpc_decoder_sel:
  "dec_lengthFieldLength rpc_decoder = 2" "dec_maxFrameLength rpc_decoder = 65536"
  "dec_lengthFieldOffset rpc_decoder = 0" "dec_lengthAdjustment rpc_decoder = 0"
  "dec_initialBytesToStrip rpc_decoder = 2" "dec_networkByteOrder rpc_decoder"
  "dec_lengthFieldEndOffset rpc_decoder = 2"
  by (simp_all add: rpc_decoder_def LengthFieldBasedFrameDecoder_new_def)

lemma rpc_prepender_sel:
  "pre_lengthFieldLength rpc_prepender = 2" "pre_lengthAdjustment rpc_prepender = 0"
  "\<not> pre_lengthIncludesLengthField rpc_prepender" "pre_networkByteOrder rpc_prepender"
  by (simp_all add: rpc_prepender_def LengthFieldPrepender_new_def)

lemma rpc_codecs:
  "prepender_ok rpc_prepender" "decoder_ok rpc_decoder" "codecs_match rpc_prepender rpc_decoder"
  by (simp_all add: prepender_ok_def decoder_ok_def decoder_shape_def codecs_match_def extra_length_def
      rpc_decoder_sel rpc_prepender_sel)

text \<open>A frame on the wire, and the messages that pass: at most 65534 bytes.\<close>

definition wire_frame :: "byte list \<Rightarrow> byte list" where
  "wire_frame bs = be_bytes 2 (length bs) @ bs"

definition frameable :: "byte list \<Rightarrow> bool" where
  "frameable bs \<longleftrightarrow> length bs \<le> 65534"

lemma length_wire_frame [simp, len_simps]: "length (wire_frame bs) = length bs + 2"
  by (simp add: wire_frame_def)

lemma rpc_prepend_spec:
  "prepend_spec rpc_prepender bs
    = (if length bs < 65536 then Inr (wire_frame bs) else Inl LengthDoesNotFit)"
  by (simp add: prepend_spec_def meant_length_def rpc_prepender_sel header_bytes_def wire_frame_def
      Let_def)

lemma rpc_frame_length: "frame_length rpc_decoder bs = be_val (take 2 bs) + 2"
proof -
  have "(256 :: nat) ^ length (take 2 bs) \<le> 256 ^ 2" by (intro power_increasing) auto
  with be_val_bound [of "take 2 bs"] have "be_val (take 2 bs) < 65536" by simp
  then show ?thesis
    by (simp add: frame_length_def field_value_def extra_length_def rpc_decoder_sel)
qed

lemma rpc_decode_spec:
  "decode_spec rpc_decoder bs =
     (let n = be_val (take 2 bs)
      in if length bs < 2 then (bs, ReturnFalse)
         else if n = 65535 then (drop 65537 bs, FireReadException (FrameLargerThan 65536))
         else if length bs < n + 2 then (bs, ReturnFalse)
         else (drop (n + 2) bs, ReturnTrue (take n (drop 2 bs))))"
proof -
  have "(256 :: nat) ^ length (take 2 bs) \<le> 256 ^ 2" by (intro power_increasing) auto
  with be_val_bound [of "take 2 bs"] have "be_val (take 2 bs) < 65536" by simp
  then have "65534 < be_val (take 2 bs) \<longleftrightarrow> be_val (take 2 bs) = 65535" by linarith
  then show ?thesis
    by (simp add: decode_spec_def rpc_decoder_sel rpc_frame_length Let_def drop_take)
qed

section \<open>A prefix code over a byte stream\<close>

text \<open>What a stream of frames needs of its encoder and its decoder: a whole frame at the front is
  cut off, a proper prefix of a frame is left alone.\<close>

locale stream_codec =
  fixes enc :: "'m \<Rightarrow> byte list"
    and ok :: "'m \<Rightarrow> bool"
    and dec :: "byte list \<Rightarrow> byte list \<times> 'm decode_out"
  assumes dec_frame: "ok m \<Longrightarrow> dec (enc m @ rest) = (rest, ReturnTrue m)"
    and dec_partial: "\<lbrakk>ok m; enc m = bs @ missing; missing \<noteq> []\<rbrakk> \<Longrightarrow> dec bs = (bs, ReturnFalse)"
    and enc_nonempty: "enc m \<noteq> []"
    and dec_nil: "dec [] = ([], ReturnFalse)"
begin

text \<open>The bytes received so far, a prefix of the stream of \<open>ms\<close>: one call either delivers the
  next message or leaves an incomplete frame alone.\<close>

lemma stream_step:
  assumes "list_all ok ms" "bs @ later = concat (map enc ms)"
  shows "(\<exists>m ms' rest. ms = m # ms' \<and> bs = enc m @ rest \<and> dec bs = (rest, ReturnTrue m)
      \<and> rest @ later = concat (map enc ms'))
    \<or> dec bs = (bs, ReturnFalse)"
proof (cases ms)
  case Nil
  with assms show ?thesis by (simp add: dec_nil)
next
  case (Cons m ms')
  with assms have ok: "ok m" and split: "bs @ later = enc m @ concat (map enc ms')" by simp_all
  from split obtain us where
    "bs = enc m @ us \<and> us @ later = concat (map enc ms') \<or> bs @ us = enc m"
    by (auto simp: append_eq_append_conv2)
  then show ?thesis
    using dec_frame [OF ok, of us] dec_frame [OF ok, of "[]"] dec_partial [OF ok, of bs us] Cons split
    by (cases "us = []") auto
qed

text \<open>When the whole stream has arrived and the decoder still waits, everything was delivered.\<close>

lemma stream_quiescent:
  assumes "list_all ok ms" "dec (concat (map enc ms)) = (bs, ReturnFalse)"
  shows "ms = []"
  using assms dec_frame by (cases ms) auto

end

lemma prefix_be_bytes_2:
  assumes "wire_frame m = bs @ missing" "2 \<le> length bs"
  shows "take 2 bs = be_bytes 2 (length m)"
  using arg_cong [OF assms(1), of "take 2"] assms(2) by (simp add: wire_frame_def)

interpretation rpc: stream_codec wire_frame frameable "decode_spec rpc_decoder"
proof unfold_locales
  fix m rest
  assume "frameable m"
  then have "length m \<le> 65534" by (simp add: frameable_def)
  then show "decode_spec rpc_decoder (wire_frame m @ rest) = (rest, ReturnTrue m)"
    by (simp add: rpc_decode_spec wire_frame_def Let_def)
next
  fix m bs missing
  assume ok: "frameable m" and split: "wire_frame m = bs @ missing" and "missing \<noteq> []"
  then have "length bs < length m + 2" by (metis length_wire_frame length_append add_less_cancel_left
      length_greater_0_conv less_add_same_cancel1)
  then show "decode_spec rpc_decoder bs = (bs, ReturnFalse)"
    using ok prefix_be_bytes_2 [OF split] by (auto simp: rpc_decode_spec Let_def frameable_def)
next
  show "wire_frame m \<noteq> []" for m
    by (metis length_wire_frame list.size(3) add_is_0 zero_neq_numeral)
next
  show "decode_spec rpc_decoder [] = ([], ReturnFalse)" by (simp add: rpc_decode_spec)
qed

section \<open>The receiver of a connection\<close>

text \<open>The decoder's queue, the frames delivered so far (\<open>ctx->fireRead\<close> in wangle's
  \<open>ByteToByteDecoder\<close>) and the exceptions fired. A chunk of any size may arrive at any time, and
  \<open>decode\<close> may be called at any time.\<close>

record ('q, 'b) receiver =
  rx_queue :: 'q
  rx_frames :: "'b list"
  rx_exceptions :: "read_exception list"

definition rx_apply :: "('q, 'b) receiver \<Rightarrow> 'q \<times> 'b decode_out \<Rightarrow> ('q, 'b) receiver" where
  "rx_apply s r = (case snd r of
       ReturnFalse \<Rightarrow> s\<lparr>rx_queue := fst r\<rparr>
     | FireReadException e \<Rightarrow> s\<lparr>rx_queue := fst r, rx_exceptions := rx_exceptions s @ [e]\<rparr>
     | ReturnTrue b \<Rightarrow> s\<lparr>rx_queue := fst r, rx_frames := rx_frames s @ [b]\<rparr>)"

inductive rx_reach ::
  "('q, 'b, 'c) iobuf_lib \<Rightarrow> decoder \<Rightarrow> byte list \<Rightarrow> ('q, 'b) receiver \<Rightarrow> bool"
  for L d where
  start: "q_bytes L q = [] \<Longrightarrow>
    rx_reach L d [] \<lparr>rx_queue = q, rx_frames = [], rx_exceptions = []\<rparr>"
| arrive: "\<lbrakk>rx_reach L d received s; q_bytes L q = q_bytes L (rx_queue s) @ chunk\<rbrakk> \<Longrightarrow>
    rx_reach L d (received @ chunk) (s\<lparr>rx_queue := q\<rparr>)"
| call: "\<lbrakk>rx_reach L d received s; decode L d (rx_queue s) = Inr r\<rbrakk> \<Longrightarrow>
    rx_reach L d received (rx_apply s r)"

text \<open>The invariant: what was delivered is a prefix of the messages sent, and its frames followed
  by the queue's content are the bytes received.\<close>

definition rx_inv ::
  "('q, 'b, 'c) iobuf_lib \<Rightarrow> byte list list \<Rightarrow> byte list \<Rightarrow> ('q, 'b) receiver \<Rightarrow> bool" where
  "rx_inv L msgs received s \<longleftrightarrow> rx_exceptions s = []
     \<and> (\<exists>done todo. msgs = done @ todo \<and> map (b_bytes L) (rx_frames s) = done
          \<and> received = concat (map wire_frame done) @ q_bytes L (rx_queue s))"

lemma rx_inv_call:
  assumes L: "iobuf L" and inv: "rx_inv L msgs received s" and ok: "list_all frameable msgs"
    and pre: "received @ later = concat (map wire_frame msgs)"
    and len: "length received < 2 ^ 64"
    and call: "decode L rpc_decoder (rx_queue s) = Inr r"
  shows "rx_inv L msgs received (rx_apply s r)"
proof -
  let ?q = "rx_queue s"
  obtain "done" todo where split: "msgs = done @ todo" "map (b_bytes L) (rx_frames s) = done"
    and received: "received = concat (map wire_frame done) @ q_bytes L ?q"
    and quiet: "rx_exceptions s = []"
    using inv by (auto simp: rx_inv_def)
  have spec: "map_sum id (map_prod (q_bytes L) (map_decode_out (b_bytes L))) (Inr r)
      = Inr (decode_spec rpc_decoder (q_bytes L ?q))"
    using iobuf.decode_refines [OF L rpc_codecs(2), of ?q] len by (simp add: call received)
  have "q_bytes L ?q @ later = concat (map wire_frame todo)"
    using pre by (simp add: received split)
  from rpc.stream_step [OF _ this] ok split(1)
  consider (frame) m ms rest where "todo = m # ms" "q_bytes L ?q = wire_frame m @ rest"
      "decode_spec rpc_decoder (q_bytes L ?q) = (rest, ReturnTrue m)"
    | (wait) "decode_spec rpc_decoder (q_bytes L ?q) = (q_bytes L ?q, ReturnFalse)"
    by auto
  then show ?thesis
  proof cases
    case frame
    then obtain q' b where r: "r = (q', ReturnTrue b)" "q_bytes L q' = rest" "b_bytes L b = m"
      using spec by (auto simp: refined_outcomes simp del: map_sum.simps)
    show ?thesis
      unfolding rx_inv_def using r frame split received quiet
      by (auto simp: rx_apply_def intro!: exI [of _ "done @ [m]"] exI [of _ ms])
  next
    case wait
    then obtain q' where r: "r = (q', ReturnFalse)" "q_bytes L q' = q_bytes L ?q"
      using spec by (auto simp: refined_outcomes simp del: map_sum.simps)
    show ?thesis
      unfolding rx_inv_def using r split received quiet by (auto simp: rx_apply_def)
  qed
qed

lemma rx_reach_inv:
  assumes "rx_reach L rpc_decoder received s" "iobuf L" "list_all frameable msgs"
    and "received @ later = concat (map wire_frame msgs)" "length received < 2 ^ 64"
  shows "rx_inv L msgs received s"
  using assms
proof (induction arbitrary: later rule: rx_reach.induct)
  case (start q)
  then show ?case by (simp add: rx_inv_def)
next
  case (arrive received s q chunk)
  then have "rx_inv L msgs received s" by simp
  with arrive.hyps show ?case by (auto simp: rx_inv_def)
next
  case (call received s r)
  then show ?case by (blast intro: rx_inv_call)
qed

text \<open>Once everything has arrived and \<open>decode\<close> returns \<open>false\<close>, every message is delivered.\<close>

lemma all_delivered:
  assumes "iobuf L" "list_all frameable msgs"
    and "rx_reach L rpc_decoder (concat (map wire_frame msgs)) s"
    and "length (concat (map wire_frame msgs)) < 2 ^ 64"
    and "decode L rpc_decoder (rx_queue s) = Inr (q, ReturnFalse)"
  shows "map (b_bytes L) (rx_frames s) = msgs \<and> q_bytes L q = []"
proof -
  have "rx_inv L msgs (concat (map wire_frame msgs)) s"
    using rx_reach_inv [OF assms(3,1,2), of "[]"] assms(4) by simp
  then obtain "done" todo where split: "msgs = done @ todo" "map (b_bytes L) (rx_frames s) = done"
    and q: "q_bytes L (rx_queue s) = concat (map wire_frame todo)"
    by (auto simp: rx_inv_def)
  have "decode_spec rpc_decoder (concat (map wire_frame todo)) = (q_bytes L q, ReturnFalse)"
    using iobuf.decode_refines [OF assms(1) rpc_codecs(2), of "rx_queue s"] assms(4,5) q split
    by simp
  moreover from this rpc.stream_quiescent have "todo = []" using assms(2) split(1) by simp
  ultimately show ?thesis using split by (simp add: rpc_decode_spec)
qed

section \<open>Properties\<close>

text \<open>C26: a matching decoder undoes the prepender, for every field width, byte order, adjustment
  and self-including length the two constructors accept: of a queue that starts with a written
  frame, \<open>decode\<close> consumes exactly that frame and yields it without the bytes to strip.\<close>

theorem framing_roundtrip:
  assumes "iobuf L" "prepender_ok p" "decoder_ok d" "codecs_match p d"
    and "fits_int p (length (b_bytes L b))" "LengthFieldPrepender_write L p b = Inr f"
    and "length (b_bytes L f) \<le> unat (dec_maxFrameLength d)"
    and "unat (dec_initialBytesToStrip d) \<le> length (b_bytes L f)"
    and "q_bytes L q = b_bytes L f @ rest" "length (q_bytes L q) < 2 ^ 64"
  shows "\<exists>q' r. decode L d q = Inr (q', ReturnTrue r) \<and> q_bytes L q' = rest
    \<and> b_bytes L r = drop (unat (dec_initialBytesToStrip d)) (b_bytes L f)"
proof -
  have "prepend_spec p (b_bytes L b) = Inr (b_bytes L f)"
    using write_refines [OF assms(1,2,5)] assms(6) by simp
  from decode_spec_prepend [OF this assms(2-4,7,8), of rest]
  show ?thesis
    using iobuf.decode_refines [OF assms(1,3,10)] assms(9) by (auto simp: refined_outcomes)
qed

theorem framing_roundtrip_witness:
  "\<exists>q' r. decode chain_lib rpc_decoder [[0, 3], [72, 69, 76, 9]] = Inr (q', ReturnTrue r)
    \<and> concat q' = [9] \<and> concat r = [72, 69, 76]"
proof -
  have w: "LengthFieldPrepender_write chain_lib rpc_prepender [[72, 69, 76]] = Inr [[0, 3], [72, 69, 76]]"
    by code_simp
  show ?thesis
    using framing_roundtrip [OF chain.iobuf_axioms rpc_codecs _ w,
        of "[[0, 3], [72, 69, 76, 9]]" "[9]"]
    by (simp add: chain_lib_def fits_int_def rpc_prepender_sel rpc_decoder_sel)
qed

text \<open>C7: messages of at most 65534 bytes sent over one connection of the RPC pipelines are
  delivered unchanged, in order, each once, however the bytes are cut into chunks and whenever
  \<open>decode\<close> is called: at any moment the delivered frames are a prefix of the messages sent, no
  exception has been fired, and the queue holds exactly the bytes not yet delivered.\<close>

theorem stream_delivers_prefix:
  assumes "iobuf L" "list_all frameable msgs" "rx_reach L rpc_decoder received s"
    and "received @ later = concat (map wire_frame msgs)" "length received < 2 ^ 64"
  shows "\<exists>k. map (b_bytes L) (rx_frames s) = take k msgs \<and> rx_exceptions s = []
    \<and> received = concat (map wire_frame (take k msgs)) @ q_bytes L (rx_queue s)"
proof -
  have "rx_inv L msgs received s" using rx_reach_inv assms by blast
  then show ?thesis
    unfolding rx_inv_def by (metis append_eq_conv_conj)
qed

theorem stream_delivers_prefix_witness:
  "rx_reach chain_lib rpc_decoder [0, 1, 42, 0]
     \<lparr>rx_queue = [[0]], rx_frames = [[[42]]], rx_exceptions = []\<rparr>
   \<and> (\<exists>k. map concat (rx_frames \<lparr>rx_queue = [[0]], rx_frames = [[[42]]], rx_exceptions = []\<rparr>)
        = take k [[42], [7, 8 :: byte]])"
proof -
  let ?s = "\<lparr>rx_queue = [[0]], rx_frames = [[[42 :: byte]]], rx_exceptions = []\<rparr>"
  have "rx_reach chain_lib rpc_decoder ([] @ [0, 1, 42, 0])
      (rx_apply (\<lparr>rx_queue = [], rx_frames = [], rx_exceptions = []\<rparr>\<lparr>rx_queue := [[0, 1, 42], [0]]\<rparr>)
        ([[0]], ReturnTrue [[42]]))"
    by (rule rx_reach.call [OF rx_reach.arrive [OF rx_reach.start]])
      (simp_all, code_simp)
  then have run: "rx_reach chain_lib rpc_decoder [0, 1, 42, 0] ?s"
    by (simp add: rx_apply_def)
  have "\<exists>k. map (b_bytes chain_lib) (rx_frames ?s) = take k [[42], [7, 8]]"
    using stream_delivers_prefix [OF chain.iobuf_axioms _ run, of "[[42], [7, 8]]" "[2, 7, 8]"]
    by (auto simp: frameable_def wire_frame_def be_bytes_2)
  with run show ?thesis by (simp add: chain_lib_def)
qed

text \<open>Nothing is left behind: once all bytes of the messages have arrived and \<open>decode\<close> returns
  \<open>false\<close>, every message has been delivered.\<close>

theorem stream_delivers_all:
  assumes "iobuf L" "list_all frameable msgs"
    and "rx_reach L rpc_decoder (concat (map wire_frame msgs)) s"
    and "length (concat (map wire_frame msgs)) < 2 ^ 64"
    and "decode L rpc_decoder (rx_queue s) = Inr (q, ReturnFalse)"
  shows "map (b_bytes L) (rx_frames s) = msgs \<and> q_bytes L q = []"
  by (rule all_delivered [OF assms])

theorem stream_delivers_all_witness:
  "rx_reach chain_lib rpc_decoder (concat (map wire_frame [[42]]))
     \<lparr>rx_queue = [], rx_frames = [[[42]]], rx_exceptions = []\<rparr>
   \<and> map (b_bytes chain_lib) (rx_frames
       (\<lparr>rx_queue = [], rx_frames = [[[42]]], rx_exceptions = []\<rparr> :: (chain, chain) receiver)) = [[42]]"
proof -
  let ?s = "\<lparr>rx_queue = [], rx_frames = [[[42 :: byte]]], rx_exceptions = []\<rparr> :: (chain, chain) receiver"
  have w: "concat (map wire_frame [[42]]) = [0, 1, 42]"
    by (simp add: wire_frame_def be_bytes_2)
  have "rx_reach chain_lib rpc_decoder ([] @ [0, 1, 42])
      (rx_apply (\<lparr>rx_queue = [], rx_frames = [], rx_exceptions = []\<rparr>\<lparr>rx_queue := [[0, 1, 42]]\<rparr>)
        ([], ReturnTrue [[42]]))"
    by (rule rx_reach.call [OF rx_reach.arrive [OF rx_reach.start]])
      (simp_all, code_simp)
  then have run: "rx_reach chain_lib rpc_decoder [0, 1, 42] ?s"
    by (simp add: rx_apply_def)
  have "decode chain_lib rpc_decoder (rx_queue ?s) = Inr ([], ReturnFalse)"
    by code_simp
  with run show ?thesis
    using stream_delivers_all [OF chain.iobuf_axioms, of "[[42]]" ?s "[]"] w
    by (simp add: frameable_def)
qed

text \<open>A message of exactly 65535 bytes passes the prepender's check (\<open>length >= 65536\<close>) but its
  frame of 65537 bytes is over the decoder's maximum of 65536: the peer fires "Frame larger than
  65536" and drops as much of the frame as has arrived.\<close>

theorem longest_message_rejected:
  assumes "iobuf L" "length (b_bytes L b) = 65535"
  shows "\<exists>f. LengthFieldPrepender_write L rpc_prepender b = Inr f
    \<and> b_bytes L f = wire_frame (b_bytes L b)
    \<and> (\<forall>q later. length (q_bytes L q) < 2 ^ 64 \<longrightarrow> 2 \<le> length (q_bytes L q) \<longrightarrow>
         q_bytes L q @ later = b_bytes L f \<longrightarrow>
         (\<exists>q'. decode L rpc_decoder q = Inr (q', FireReadException (FrameLargerThan 65536))
            \<and> q_bytes L q' = []))"
proof -
  have "map_sum id (b_bytes L) (LengthFieldPrepender_write L rpc_prepender b)
      = Inr (wire_frame (b_bytes L b))"
    using write_refines [OF assms(1) rpc_codecs(1), of b] assms(2)
    by (simp add: fits_int_def rpc_prepender_sel rpc_prepend_spec)
  then obtain f where f: "LengthFieldPrepender_write L rpc_prepender b = Inr f"
    "b_bytes L f = wire_frame (b_bytes L b)"
    by (cases "LengthFieldPrepender_write L rpc_prepender b") auto
  have "\<exists>q'. decode L rpc_decoder q = Inr (q', FireReadException (FrameLargerThan 65536))
      \<and> q_bytes L q' = []"
    if len: "length (q_bytes L q) < 2 ^ 64" "2 \<le> length (q_bytes L q)"
      and split: "q_bytes L q @ later = b_bytes L f" for q later
  proof -
    have "take 2 (q_bytes L q) = be_bytes 2 65535"
      using prefix_be_bytes_2 [of "b_bytes L b" "q_bytes L q" later] len split f(2) assms(2) by simp
    moreover have "length (q_bytes L q) \<le> 65537"
      using arg_cong [OF split, of length] f(2) assms(2) by simp
    ultimately have "decode_spec rpc_decoder (q_bytes L q)
        = ([], FireReadException (FrameLargerThan 65536))"
      using len(2) by (simp add: rpc_decode_spec)
    then show ?thesis
      using iobuf.decode_refines [OF assms(1) rpc_codecs(2) len(1)] by (auto simp: refined_outcomes)
  qed
  with f show ?thesis by blast
qed

theorem longest_message_rejected_witness:
  "\<exists>q'. decode chain_lib rpc_decoder [[255, 255, 0]]
    = Inr (q', FireReadException (FrameLargerThan 65536)) \<and> concat q' = []"
proof -
  obtain z :: "byte list" where z: "length z = 65534" using Ex_list_of_length by blast
  have len: "length (b_bytes chain_lib [0 # z]) = 65535" using z by simp
  obtain f where f: "concat f = wire_frame (concat [0 # z])"
    and all: "\<And>q later. \<lbrakk>length (concat q) < 2 ^ 64; 2 \<le> length (concat q);
      concat q @ later = concat f\<rbrakk> \<Longrightarrow>
      \<exists>q'. decode chain_lib rpc_decoder q = Inr (q', FireReadException (FrameLargerThan 65536))
        \<and> concat q' = []"
    using longest_message_rejected [OF chain.iobuf_axioms len] unfolding chain_lib_sel by blast
  show ?thesis
    by (rule all [of _ z]) (use f z in \<open>simp_all add: wire_frame_def be_bytes_2\<close>)
qed

text \<open>The rest of a rejected frame is not skipped. For every message \<open>x\<close> there is a body of
  65535 bytes whose frame, when its bytes arrive in two chunks, makes the receiver deliver \<open>x\<close>: a
  caller who controls a long request can make the peer act on a message nobody sent.\<close>

theorem rejected_frame_smuggles:
  assumes L: "iobuf L" and x: "length x \<le> 65533"
    and q: "q_bytes L q = be_bytes 2 65535 @ replicate (65533 - length x) 0"
    and q2: "q_bytes L q2 = wire_frame x"
  shows "wire_frame (replicate (65533 - length x) 0 @ wire_frame x) = q_bytes L q @ q_bytes L q2
    \<and> length (replicate (65533 - length x) (0 :: byte) @ wire_frame x) = 65535
    \<and> (\<exists>q'. decode L rpc_decoder q = Inr (q', FireReadException (FrameLargerThan 65536))
         \<and> q_bytes L q' = [])
    \<and> (\<exists>q' r. decode L rpc_decoder q2 = Inr (q', ReturnTrue r) \<and> b_bytes L r = x)"
proof -
  have "decode_spec rpc_decoder (q_bytes L q) = ([], FireReadException (FrameLargerThan 65536))"
    using x by (simp add: rpc_decode_spec q)
  then have "\<exists>q'. decode L rpc_decoder q = Inr (q', FireReadException (FrameLargerThan 65536))
      \<and> q_bytes L q' = []"
    using iobuf.decode_refines [OF L rpc_codecs(2), of q] q by (auto simp: refined_outcomes)
  moreover have "decode_spec rpc_decoder (q_bytes L q2) = ([], ReturnTrue x)"
    using rpc.dec_frame [of x "[]"] x by (simp add: frameable_def q2)
  then have "\<exists>q' r. decode L rpc_decoder q2 = Inr (q', ReturnTrue r) \<and> b_bytes L r = x"
    using iobuf.decode_refines [OF L rpc_codecs(2), of q2] q2 x by (auto simp: refined_outcomes)
  ultimately show ?thesis using x by (simp add: q q2 wire_frame_def)
qed

theorem rejected_frame_smuggles_witness:
  "\<exists>q' r. decode chain_lib rpc_decoder [[0, 1, 66]] = Inr (q', ReturnTrue r) \<and> concat r = [66]"
proof -
  obtain z :: "byte list" where z: "z = replicate (65533 - length [66 :: byte]) 0" by blast
  have q: "q_bytes chain_lib [be_bytes 2 65535, z]
      = be_bytes 2 65535 @ replicate (65533 - length [66 :: byte]) 0"
    by (simp only: z chain_lib_sel concat.simps append_Nil2)
  have q2: "q_bytes chain_lib [[0, 1, 66]] = wire_frame [66]"
    by (simp add: wire_frame_def be_bytes_2)
  have len: "length [66 :: byte] \<le> 65533" by simp
  from rejected_frame_smuggles [OF chain.iobuf_axioms len q q2] show ?thesis
    by (simp only: chain_lib_sel)
qed

end
