(* ===== verification/ServerDispatcher.thy ===== *)
theory ServerDispatcher
  imports Prelude "HOL-Library.AList" "HOL-Library.Multiset"
begin

text \<open>
  The three server dispatchers (\<open>net/ServiceDispatcher/ServerDispatcher.h\<close>). A service, a parameter,
  gives for a request the outcome of its future: a response or an exception. The serial dispatcher
  waits for the outcome; the pipelined one numbers the requests and holds responses back until they
  can be written in that order; the multiplexing one, the one the RPC server uses, writes a response
  when its future completes. The interleaving of reads and completions is a step relation.
\<close>

type_synonym ('req, 'resp) service = "'req \<Rightarrow> string + 'resp"

section \<open>SerialServerDispatcher\<close>

text \<open>\<open>read\<close> blocks in \<open>get()\<close>; what it fires is one write, or the exception \<open>get()\<close> throws.\<close>

definition serial_read :: "('req, 'resp) service \<Rightarrow> 'req \<Rightarrow> string + 'resp list" where
  "serial_read service in_req = (case service in_req of Inl e \<Rightarrow> Inl e | Inr resp \<Rightarrow> Inr [resp])"

section \<open>PipelinedServerDispatcher\<close>

text \<open>\<open>responses\<close> is a hash map: an association list with distinct keys.\<close>

record 'resp pipelined =
  requestId :: u32
  responses :: "(u32 \<times> 'resp) list"
  lastWrittenId :: u32

definition pipelined_new :: "'resp pipelined" where
  "pipelined_new = \<lparr>requestId = 1, responses = [], lastWrittenId = 0\<rparr>"

text \<open>\<open>read\<close> takes the next number for the request and starts the service.\<close>

definition pipelined_read :: "'resp pipelined \<Rightarrow> u32 \<times> 'resp pipelined" where
  "pipelined_read d = (requestId d, d\<lparr>requestId := requestId d + 1\<rparr>)"

lemma length_delete_less:
  assumes "map_of xs k = Some v"
  shows "length (AList.delete k xs) < length xs"
  using assms
  by (induction xs) (auto simp: AList.delete_eq less_Suc_eq_le length_filter_le split: if_splits)

function sendResponses :: "'resp pipelined \<Rightarrow> 'resp list \<times> 'resp pipelined" where
  "sendResponses d = (case map_of (responses d) (lastWrittenId d + 1) of
      None \<Rightarrow> ([], d)
    | Some resp \<Rightarrow>
        (case sendResponses (d\<lparr>responses := AList.delete (lastWrittenId d + 1) (responses d),
                               lastWrittenId := lastWrittenId d + 1\<rparr>) of
           (out, d') \<Rightarrow> (resp # out, d')))"
  by auto
termination
  by (relation "measure (\<lambda>d. length (responses d))") (auto intro: length_delete_less)

declare sendResponses.simps [simp del]

text \<open>The callback of request \<open>requestId\<close>, run with its response.\<close>

definition pipelined_callback :: "u32 \<Rightarrow> 'resp \<Rightarrow> 'resp pipelined \<Rightarrow> 'resp list \<times> 'resp pipelined" where
  "pipelined_callback i resp d = sendResponses (d\<lparr>responses := AList.update i resp (responses d)\<rparr>)"

section \<open>MultiplexServerDispatcher\<close>

text \<open>\<open>read\<close> starts the service; its callback writes the response. Neither keeps any state; an
  outcome that is an exception runs no callback.\<close>

definition multiplex_callback :: "string + 'resp \<Rightarrow> 'resp list" where
  "multiplex_callback outcome = (case outcome of Inl e \<Rightarrow> [] | Inr resp \<Rightarrow> [resp])"

section \<open>Pipelined: interleavings of reads and completions\<close>

text \<open>The system around the dispatcher: the requests read so far, the numbers of those whose futures
  have not completed (with the identifier their callback captured), the responses of the completed
  ones and what has been written. Futures complete in any order; a future that completes with an
  exception runs no callback. Fewer than \<open>2^32 - 1\<close> requests are waiting at any time, so that the
  identifiers of the waiting requests differ.\<close>

record ('req, 'resp) pipe_sys =
  ps_disp :: "'resp pipelined"
  ps_requests :: "'req list"
  ps_pending :: "(nat \<times> u32) set"
  ps_done :: "nat \<Rightarrow> 'resp option"
  ps_failed :: "nat set"
  ps_written :: "'resp list"

inductive pipe_reach :: "('req, 'resp) pipe_sys \<Rightarrow> bool" where
  start: "pipe_reach \<lparr>ps_disp = pipelined_new, ps_requests = [], ps_pending = {}, ps_done = (\<lambda>_. None),
     ps_failed = {}, ps_written = []\<rparr>"
| read: "\<lbrakk>pipe_reach s; length (ps_requests s) - length (ps_written s) < 2 ^ 32 - 1;
     pipelined_read (ps_disp s) = (i, d)\<rbrakk> \<Longrightarrow>
     pipe_reach (s\<lparr>ps_disp := d, ps_requests := ps_requests s @ [r],
       ps_pending := insert (length (ps_requests s), i) (ps_pending s)\<rparr>)"
| complete: "\<lbrakk>pipe_reach s; (n, i) \<in> ps_pending s; pipelined_callback i resp (ps_disp s) = (out, d)\<rbrakk> \<Longrightarrow>
     pipe_reach (s\<lparr>ps_disp := d, ps_pending := ps_pending s - {(n, i)},
       ps_done := (ps_done s)(n \<mapsto> resp), ps_written := ps_written s @ out\<rparr>)"
| fail: "\<lbrakk>pipe_reach s; (n, i) \<in> ps_pending s\<rbrakk> \<Longrightarrow>
     pipe_reach (s\<lparr>ps_pending := ps_pending s - {(n, i)}, ps_failed := insert n (ps_failed s)\<rparr>)"

text \<open>The identifier of the request with index \<open>n\<close> in arrival order is \<open>n + 1\<close>, modulo \<open>2^32\<close>. The
  invariant: what is written is the responses of the first requests in arrival order, the hash map
  holds the responses of completed requests beyond these, and the next one has not completed.\<close>

definition request_id_of :: "nat \<Rightarrow> u32" where
  "request_id_of n = of_nat (Suc n)"

definition held :: "nat \<Rightarrow> nat \<Rightarrow> (nat \<Rightarrow> 'resp option) \<Rightarrow> (u32 \<times> 'resp) list \<Rightarrow> bool" where
  "held k n fin rs \<longleftrightarrow>
     (\<forall>j. k \<le> j \<and> j < n \<longrightarrow> map_of rs (request_id_of j) = fin j)
     \<and> (\<forall>i. map_of rs i \<noteq> None \<longrightarrow> (\<exists>j. k \<le> j \<and> j < n \<and> i = request_id_of j))"

definition pipe_inv :: "('req, 'resp) pipe_sys \<Rightarrow> bool" where
  "pipe_inv s \<longleftrightarrow> (let n = length (ps_requests s); k = length (ps_written s) in k \<le> n \<and> n - k < 2 ^ 32
     \<and> requestId (ps_disp s) = request_id_of n
     \<and> lastWrittenId (ps_disp s) + 1 = request_id_of k
     \<and> (\<forall>(m, i) \<in> ps_pending s. m < n \<and> i = request_id_of m \<and> ps_done s m = None)
     \<and> (\<forall>m \<in> ps_failed s. m < n \<and> ps_done s m = None \<and> (m, request_id_of m) \<notin> ps_pending s)
     \<and> (\<forall>m. ps_done s m \<noteq> None \<longrightarrow> m < n)
     \<and> (\<forall>m < k. ps_done s m = Some (ps_written s ! m)) \<and> ps_done s k = None
     \<and> held k n (ps_done s) (responses (ps_disp s)))"

lemma request_id_mod: "request_id_of i = request_id_of j \<longleftrightarrow> Suc i mod 2 ^ 32 = Suc j mod 2 ^ 32"
  by (simp add: request_id_of_def word_of_nat_eq_iff take_bit_eq_mod del: of_nat_Suc)

lemma mod_window: "\<lbrakk>i \<le> j; j - i < N; Suc i mod N = Suc j mod N\<rbrakk> \<Longrightarrow> i = j" for N :: nat
  using mod_eq_dvd_iff_nat [of "Suc i" "Suc j" N] dvd_imp_le [of N "j - i"] by fastforce

lemma request_id_inj:
  assumes "k \<le> i" "i < n" "k \<le> j" "j < n" "n - k < 2 ^ 32" "request_id_of i = request_id_of j"
  shows "i = j"
proof -
  have m: "Suc i mod 2 ^ 32 = Suc j mod 2 ^ 32" using assms(6) by (simp only: request_id_mod)
  show ?thesis
  proof (cases "i \<le> j")
    case True
    then show ?thesis using m assms(1-5) by (intro mod_window [of i j "2 ^ 32"]) auto
  next
    case False
    then have "j = i" using m assms(1-5) by (intro mod_window [of j i "2 ^ 32"]) auto
    then show ?thesis by simp
  qed
qed

lemma request_id_Suc: "request_id_of (Suc k) = request_id_of k + 1"
  by (simp add: request_id_of_def)

lemma map_of_delete: "map_of (AList.delete k xs) j = (if j = k then None else map_of xs j)"
  by (simp add: AList.delete_conv)

lemma map_of_update: "map_of (AList.update k v xs) j = (if j = k then Some v else map_of xs j)"
  by (simp add: AList.update_conv)

lemma held_next:
  assumes "held k n fin rs" "k < n" "n - k < 2 ^ 32"
  shows "held (Suc k) n fin (AList.delete (request_id_of k) rs)"
  unfolding held_def
proof (intro conjI allI impI)
  fix j
  assume "Suc k \<le> j \<and> j < n"
  then have "request_id_of j \<noteq> request_id_of k"
    using request_id_inj [of k j n k] assms(2,3) by auto
  with \<open>Suc k \<le> j \<and> j < n\<close> assms(1) show
    "map_of (AList.delete (request_id_of k) rs) (request_id_of j) = fin j"
    by (simp add: map_of_delete held_def)
next
  fix i
  assume "map_of (AList.delete (request_id_of k) rs) i \<noteq> None"
  then have "i \<noteq> request_id_of k" "map_of rs i \<noteq> None" by (simp_all add: map_of_delete split: if_splits)
  with assms(1) obtain j where "k \<le> j" "j < n" "i = request_id_of j" unfolding held_def by blast
  with \<open>i \<noteq> request_id_of k\<close> show "\<exists>j. Suc k \<le> j \<and> j < n \<and> i = request_id_of j"
    by (metis le_antisym not_less_eq_eq)
qed

text \<open>\<open>sendResponses\<close> writes the longest run of responses that are there.\<close>

lemma sendResponses_run:
  assumes "lastWrittenId d + 1 = request_id_of k" "held k n fin (responses d)" "k \<le> n"
    "n - k < 2 ^ 32" "fin n = None"
  shows "\<exists>l. k \<le> l \<and> l \<le> n \<and> length (fst (sendResponses d)) = l - k
    \<and> (\<forall>m. k \<le> m \<and> m < l \<longrightarrow> fin m = Some (fst (sendResponses d) ! (m - k))) \<and> fin l = None
    \<and> lastWrittenId (snd (sendResponses d)) + 1 = request_id_of l
    \<and> held l n fin (responses (snd (sendResponses d)))
    \<and> requestId (snd (sendResponses d)) = requestId d"
  using assms
proof (induction d arbitrary: k rule: sendResponses.induct)
  case (1 d)
  show ?case
  proof (cases "map_of (responses d) (request_id_of k)")
    case None
    with 1(2-) have "fin k = None" by (metis held_def le_less order_refl)
    with None 1(2-) show ?thesis
      by (intro exI [of _ k]) (auto simp: sendResponses.simps [of d])
  next
    case (Some resp)
    with 1(3) have "k < n" unfolding held_def by (metis le_less_trans option.distinct(1))
    with Some 1(3) have fin: "fin k = Some resp" unfolding held_def by (metis order_refl)
    let ?d = "d\<lparr>responses := AList.delete (request_id_of k) (responses d), lastWrittenId := request_id_of k\<rparr>"
    obtain out d' where o: "sendResponses ?d = (out, d')" by (rule prod.exhaust)
    have "sendResponses d = (resp # out, d')"
      using Some o 1(2) by (simp add: sendResponses.simps [of d])
    moreover have "n - Suc k < 2 ^ 32" using 1(5) by linarith
    then obtain l where l: "Suc k \<le> l" "l \<le> n" "length out = l - Suc k"
      "\<forall>m. Suc k \<le> m \<and> m < l \<longrightarrow> fin m = Some (out ! (m - Suc k))" "fin l = None"
      "lastWrittenId d' + 1 = request_id_of l" "held l n fin (responses d')" "requestId d' = requestId d"
      using 1(1) [of resp "Suc k"] Some 1(2-) o held_next [OF 1(3) \<open>k < n\<close> 1(5)] \<open>k < n\<close>
      by (auto simp: request_id_Suc)
    moreover have "fin m = Some ((resp # out) ! (m - k))" if "k \<le> m" "m < l" for m
      using that fin l(4) by (cases "m = k") (auto simp: nth_Cons' )
    ultimately show ?thesis by (intro exI [of _ l]) auto
  qed
qed

lemma held_update:
  assumes "held k n fin rs" "k \<le> m" "m < n" "n - k < 2 ^ 32"
  shows "held k n (fin(m \<mapsto> r)) (AList.update (request_id_of m) r rs)"
  unfolding held_def
proof (intro conjI allI impI)
  fix j
  assume j: "k \<le> j \<and> j < n"
  then have "request_id_of j = request_id_of m \<longleftrightarrow> j = m"
    using request_id_inj [of k j n m] assms(2-) by auto
  with j assms(1) show
    "map_of (AList.update (request_id_of m) r rs) (request_id_of j) = (fin(m \<mapsto> r)) j"
    by (auto simp: map_of_update held_def)
next
  fix i
  assume "map_of (AList.update (request_id_of m) r rs) i \<noteq> None"
  then have "i = request_id_of m \<or> map_of rs i \<noteq> None"
    by (simp add: map_of_update split: if_splits)
  with assms show "\<exists>j. k \<le> j \<and> j < n \<and> i = request_id_of j"
    unfolding held_def by blast
qed

lemma held_more:
  assumes "held k n fin rs" "k \<le> n" "Suc n - k < 2 ^ 32" "fin n = None"
  shows "held k (Suc n) fin rs"
  unfolding held_def
proof (intro conjI allI impI)
  fix j
  assume j: "k \<le> j \<and> j < Suc n"
  show "map_of rs (request_id_of j) = fin j"
  proof (cases "j = n")
    case True
    have "map_of rs (request_id_of n) = None"
    proof (rule ccontr)
      assume "map_of rs (request_id_of n) \<noteq> None"
      with assms(1) obtain i where "k \<le> i" "i < n" "request_id_of n = request_id_of i"
        unfolding held_def by blast
      with request_id_inj [of k i "Suc n" n] assms(2,3) show False by auto
    qed
    with True assms(4) show ?thesis by simp
  next
    case False
    with j assms(1) show ?thesis by (simp add: held_def)
  qed
next
  fix i
  assume "map_of rs i \<noteq> None"
  with assms(1) show "\<exists>j. k \<le> j \<and> j < Suc n \<and> i = request_id_of j"
    unfolding held_def by (meson less_Suc_eq)
qed

lemma pipe_invI:
  assumes "length (ps_written s) \<le> length (ps_requests s)"
    "length (ps_requests s) - length (ps_written s) < 2 ^ 32"
    "requestId (ps_disp s) = request_id_of (length (ps_requests s))"
    "lastWrittenId (ps_disp s) + 1 = request_id_of (length (ps_written s))"
    "\<And>m i. (m, i) \<in> ps_pending s \<Longrightarrow>
      m < length (ps_requests s) \<and> i = request_id_of m \<and> ps_done s m = None"
    "\<And>m. m \<in> ps_failed s \<Longrightarrow>
      m < length (ps_requests s) \<and> ps_done s m = None \<and> (m, request_id_of m) \<notin> ps_pending s"
    "\<And>m. ps_done s m \<noteq> None \<Longrightarrow> m < length (ps_requests s)"
    "\<And>m. m < length (ps_written s) \<Longrightarrow> ps_done s m = Some (ps_written s ! m)"
    "ps_done s (length (ps_written s)) = None"
    "held (length (ps_written s)) (length (ps_requests s)) (ps_done s) (responses (ps_disp s))"
  shows "pipe_inv s"
  unfolding pipe_inv_def Let_def using assms by auto

lemma pipe_invD:
  assumes "pipe_inv s"
  shows "length (ps_written s) \<le> length (ps_requests s)"
    "length (ps_requests s) - length (ps_written s) < 2 ^ 32"
    "requestId (ps_disp s) = request_id_of (length (ps_requests s))"
    "lastWrittenId (ps_disp s) + 1 = request_id_of (length (ps_written s))"
    "(m, i) \<in> ps_pending s \<Longrightarrow>
      m < length (ps_requests s) \<and> i = request_id_of m \<and> ps_done s m = None"
    "m \<in> ps_failed s \<Longrightarrow>
      m < length (ps_requests s) \<and> ps_done s m = None \<and> (m, request_id_of m) \<notin> ps_pending s"
    "ps_done s m \<noteq> None \<Longrightarrow> m < length (ps_requests s)"
    "m < length (ps_written s) \<Longrightarrow> ps_done s m = Some (ps_written s ! m)"
    "ps_done s (length (ps_written s)) = None"
    "held (length (ps_written s)) (length (ps_requests s)) (ps_done s) (responses (ps_disp s))"
  using assms unfolding pipe_inv_def Let_def by auto

lemma pipe_read:
  assumes "pipe_inv s" "length (ps_requests s) - length (ps_written s) < 2 ^ 32 - 1"
    "pipelined_read (ps_disp s) = (i, d)"
  shows "pipe_inv (s\<lparr>ps_disp := d, ps_requests := ps_requests s @ [r],
    ps_pending := insert (length (ps_requests s), i) (ps_pending s)\<rparr>)"
proof (rule pipe_invI)
  note inv = pipe_invD [OF assms(1)]
  have d: "d = (ps_disp s)\<lparr>requestId := requestId (ps_disp s) + 1\<rparr>" "i = requestId (ps_disp s)"
    using assms(3) by (auto simp: pipelined_read_def)
  let ?s = "s\<lparr>ps_disp := d, ps_requests := ps_requests s @ [r],
    ps_pending := insert (length (ps_requests s), i) (ps_pending s)\<rparr>"
  have fresh: "ps_done s (length (ps_requests s)) = None" using inv(7) by blast
  show "requestId (ps_disp ?s) = request_id_of (length (ps_requests ?s))"
    by (simp add: d inv(3) request_id_Suc)
  show "held (length (ps_written ?s)) (length (ps_requests ?s)) (ps_done ?s) (responses (ps_disp ?s))"
    using held_more [OF inv(10) inv(1) _ fresh] assms(2) by (simp add: d)
  fix m i'
  show "(m, i') \<in> ps_pending ?s \<Longrightarrow> m < length (ps_requests ?s) \<and> i' = request_id_of m \<and> ps_done ?s m = None"
    using inv(5) [of m i'] fresh by (auto simp: d inv(3))
  show "m \<in> ps_failed ?s \<Longrightarrow> m < length (ps_requests ?s) \<and> ps_done ?s m = None
      \<and> (m, request_id_of m) \<notin> ps_pending ?s"
    using inv(6) [of m] by auto
  show "ps_done ?s m \<noteq> None \<Longrightarrow> m < length (ps_requests ?s)" using inv(7) [of m] by auto
qed (use pipe_invD [OF assms(1)] assms(2,3) in \<open>auto simp: pipelined_read_def\<close>)

lemma pipe_complete:
  assumes "pipe_inv s" "(n, i) \<in> ps_pending s" "pipelined_callback i resp (ps_disp s) = (out, d)"
  shows "pipe_inv (s\<lparr>ps_disp := d, ps_pending := ps_pending s - {(n, i)},
    ps_done := (ps_done s)(n \<mapsto> resp), ps_written := ps_written s @ out\<rparr>)"
proof -
  note inv = pipe_invD [OF assms(1)]
  let ?k = "length (ps_written s)" let ?n = "length (ps_requests s)"
  let ?fin = "(ps_done s)(n \<mapsto> resp)"
  have n: "n < ?n" "i = request_id_of n" "ps_done s n = None" using inv(5) [OF assms(2)] by auto
  have "?k \<le> n" using inv(8) [of n] n(3) by (cases "?k \<le> n") auto
  have "ps_done s ?n = None" using inv(7) by blast
  with n(1) have fresh: "?fin ?n = None" by simp
  let ?d = "(ps_disp s)\<lparr>responses := AList.update i resp (responses (ps_disp s))\<rparr>"
  have "held ?k ?n ?fin (responses ?d)"
    using held_update [OF inv(10) \<open>?k \<le> n\<close> n(1) inv(2)] by (simp add: n(2))
  then obtain l where l: "?k \<le> l" "l \<le> ?n" "length out = l - ?k"
    "\<forall>m. ?k \<le> m \<and> m < l \<longrightarrow> ?fin m = Some (out ! (m - ?k))" "?fin l = None"
    "lastWrittenId d + 1 = request_id_of l" "held l ?n ?fin (responses d)"
    "requestId d = requestId (ps_disp s)"
    using sendResponses_run [of ?d ?k ?n ?fin] inv(1,2,4) fresh assms(3)
    by (auto simp: pipelined_callback_def)
  have len: "length (ps_written s @ out) = l" using l(1,3) by simp
  have w: "?fin m = Some ((ps_written s @ out) ! m)" if "m < l" for m
  proof (cases "m < ?k")
    case True
    with inv(8) [of m] n(3) show ?thesis by (auto simp: nth_append)
  next
    case False
    with that l(4) show ?thesis by (simp add: nth_append)
  qed
  let ?s = "s\<lparr>ps_disp := d, ps_pending := ps_pending s - {(n, i)}, ps_done := ?fin,
    ps_written := ps_written s @ out\<rparr>"
  have s: "ps_requests ?s = ps_requests s" "ps_done ?s = ?fin"
    "ps_disp ?s = d" "ps_pending ?s = ps_pending s - {(n, i)}" "ps_failed ?s = ps_failed s"
    "ps_written ?s = ps_written s @ out"
    by simp_all
  show ?thesis
  proof (rule pipe_invI, unfold s len)
    show "?n - l < 2 ^ 32" using l(1) inv(2) by linarith
    fix m i'
    show "(m, i') \<in> ps_pending s - {(n, i)} \<Longrightarrow> m < ?n \<and> i' = request_id_of m \<and> ?fin m = None"
      using inv(5) [of m i'] n by auto
    show "m \<in> ps_failed s \<Longrightarrow> m < ?n \<and> ?fin m = None \<and> (m, request_id_of m) \<notin> ps_pending s - {(n, i)}"
      using inv(6) [of m] n(2) assms(2) by auto
    show "?fin m \<noteq> None \<Longrightarrow> m < ?n" using inv(7) [of m] n(1) by (auto split: if_splits)
    show "m < l \<Longrightarrow> ?fin m = Some ((ps_written s @ out) ! m)" by (rule w)
  qed (use l inv(3) in auto)
qed

lemma pipe_fail:
  assumes "pipe_inv s" "(n, i) \<in> ps_pending s"
  shows "pipe_inv (s\<lparr>ps_pending := ps_pending s - {(n, i)}, ps_failed := insert n (ps_failed s)\<rparr>)"
  using pipe_invD [OF assms(1)] assms(2) by (intro pipe_invI) auto

lemma pipe_start: "pipe_inv \<lparr>ps_disp = pipelined_new, ps_requests = [], ps_pending = {},
    ps_done = (\<lambda>_. None), ps_failed = {}, ps_written = []\<rparr>"
  by (rule pipe_invI) (simp_all add: pipelined_new_def request_id_of_def held_def)

lemma pipe_reach_inv: "pipe_reach s \<Longrightarrow> pipe_inv s"
  by (induction rule: pipe_reach.induct) (blast intro: pipe_start pipe_read pipe_complete pipe_fail)+

section \<open>Multiplexed: interleavings of reads and completions\<close>

record ('req, 'resp) mux_sys =
  mx_requests :: "'req list"
  mx_pending :: "'req multiset"
  mx_written :: "'resp list"

inductive mux_reach :: "('req, 'resp) service \<Rightarrow> ('req, 'resp) mux_sys \<Rightarrow> bool" for service where
  start: "mux_reach service \<lparr>mx_requests = [], mx_pending = {#}, mx_written = []\<rparr>"
| read: "mux_reach service s \<Longrightarrow>
     mux_reach service (s\<lparr>mx_requests := mx_requests s @ [r], mx_pending := add_mset r (mx_pending s)\<rparr>)"
| complete: "\<lbrakk>mux_reach service s; r \<in># mx_pending s\<rbrakk> \<Longrightarrow>
     mux_reach service (s\<lparr>mx_pending := mx_pending s - {#r#},
       mx_written := mx_written s @ multiplex_callback (service r)\<rparr>)"

text \<open>The responses to a collection of requests: one for each whose service does not fail.\<close>

definition answers :: "('req, 'resp) service \<Rightarrow> 'req multiset \<Rightarrow> 'resp multiset" where
  "answers service rs = sum_mset (image_mset (\<lambda>r. mset (multiplex_callback (service r))) rs)"

lemma answers_add [simp]:
  "answers service (add_mset r rs) = mset (multiplex_callback (service r)) + answers service rs"
  "answers service {#} = {#}"
  by (simp_all add: answers_def)

lemma mux_balance:
  "mux_reach service s \<Longrightarrow>
   mset (mx_written s) + answers service (mx_pending s) = answers service (mset (mx_requests s))"
proof (induction rule: mux_reach.induct)
  case (complete s r)
  then have "answers service (mx_pending s)
      = mset (multiplex_callback (service r)) + answers service (mx_pending s - {#r#})"
    by (metis answers_add(1) insert_DiffM)
  with complete.IH show ?case by (simp add: ac_simps)
qed (simp_all add: ac_simps)

section \<open>Properties\<close>

text \<open>C36: Whatever the order in which the service completes, the pipelined dispatcher has written
  exactly the responses of the first requests, in the order the requests arrived, up to the first
  request that has not completed; the 32-bit numbers may wrap around, as long as fewer than
  \<open>2^32 - 1\<close> requests wait at a time.\<close>

theorem pipelined_in_order:
  assumes "pipe_reach s"
  shows "length (ps_written s) \<le> length (ps_requests s)
    \<and> (\<forall>m < length (ps_written s). ps_done s m = Some (ps_written s ! m))
    \<and> ps_done s (length (ps_written s)) = None"
  using pipe_invD [OF pipe_reach_inv [OF assms]] by blast

definition pipe_example :: "(nat, nat) pipe_sys" where
  "pipe_example = \<lparr>ps_disp = \<lparr>requestId = 3, responses = [(2, 20)], lastWrittenId = 0\<rparr>,
     ps_requests = [1, 2], ps_pending = {(0, 1)}, ps_done = [1 \<mapsto> 20], ps_failed = {},
     ps_written = []\<rparr>"

lemma pipe_example_reach: "pipe_reach pipe_example"
proof -
  have r0: "pipe_reach \<lparr>ps_disp = pipelined_new, ps_requests = [] :: nat list, ps_pending = {},
      ps_done = (\<lambda>_. None), ps_failed = {}, ps_written = [] :: nat list\<rparr>"
    by (rule pipe_reach.start)
  have r1: "pipe_reach \<lparr>ps_disp = \<lparr>requestId = 2, responses = [], lastWrittenId = 0\<rparr>,
      ps_requests = [1 :: nat], ps_pending = {(0, 1)}, ps_done = (\<lambda>_. None), ps_failed = {},
      ps_written = [] :: nat list\<rparr>"
    using pipe_reach.read [OF r0, of 1 "\<lparr>requestId = 2, responses = [], lastWrittenId = 0\<rparr>" 1]
    by (simp add: pipelined_read_def pipelined_new_def)
  have r2: "pipe_reach \<lparr>ps_disp = \<lparr>requestId = 3, responses = [], lastWrittenId = 0\<rparr>,
      ps_requests = [1 :: nat, 2], ps_pending = {(1, 2), (0, 1)}, ps_done = (\<lambda>_. None), ps_failed = {},
      ps_written = [] :: nat list\<rparr>"
    using pipe_reach.read [OF r1, of 2 "\<lparr>requestId = 3, responses = [], lastWrittenId = 0\<rparr>" 2]
    by (simp add: pipelined_read_def)
  have "pipelined_callback 2 (20 :: nat) \<lparr>requestId = 3, responses = [], lastWrittenId = 0\<rparr>
      = ([], \<lparr>requestId = 3, responses = [(2, 20)], lastWrittenId = 0\<rparr>)"
    by (simp add: pipelined_callback_def sendResponses.simps)
  with pipe_reach.complete [OF r2, of 1 2 20] show ?thesis
    by (simp add: pipe_example_def insert_Diff_if)
qed

theorem pipelined_in_order_witness: "ps_done pipe_example (length (ps_written pipe_example)) = None"
  using pipelined_in_order [OF pipe_example_reach] by blast

text \<open>A request whose future completes with an exception blocks the pipelined connection: no
  callback runs for it, so no response to any later request is ever written.\<close>

theorem pipelined_failure_blocks:
  assumes "pipe_reach s" "n \<in> ps_failed s"
  shows "length (ps_written s) \<le> n"
proof (rule ccontr)
  note inv = pipe_invD [OF pipe_reach_inv [OF assms(1)]]
  assume "\<not> length (ps_written s) \<le> n"
  with inv(8) [of n] inv(6) [OF assms(2)] show False by simp
qed

theorem pipelined_failure_blocks_witness:
  "length (ps_written (pipe_example\<lparr>ps_pending := {}, ps_failed := {0}\<rparr>)) \<le> 0"
proof (rule pipelined_failure_blocks)
  show "pipe_reach (pipe_example\<lparr>ps_pending := {}, ps_failed := {0}\<rparr>)"
    using pipe_reach.fail [OF pipe_example_reach, of 0 1] by (simp add: pipe_example_def)
qed simp

text \<open>The multiplexing dispatcher answers every request whose service succeeds exactly once, in
  completion order, and nothing else: at every moment what is written together with the answers
  still to come is the answers to the requests read.\<close>

theorem multiplex_answers_once:
  assumes "mux_reach service s"
  shows "mset (mx_written s) + answers service (mx_pending s) = answers service (mset (mx_requests s))"
  by (rule mux_balance [OF assms])

theorem multiplex_answers_once_witness:
  "mset [20] + answers (\<lambda>r. Inr (10 * r)) {#1#} = answers (\<lambda>r. Inr (10 * r)) (mset [1, 2 :: nat])"
proof -
  let ?f = "\<lambda>r :: nat. Inr (10 * r) :: string + nat"
  have r0: "mux_reach ?f \<lparr>mx_requests = [], mx_pending = {#}, mx_written = []\<rparr>"
    by (rule mux_reach.start)
  have r2: "mux_reach ?f \<lparr>mx_requests = [1, 2], mx_pending = {#2, 1#}, mx_written = []\<rparr>"
    using mux_reach.read [OF mux_reach.read [OF r0, of 1], of 2] by simp
  have "mux_reach ?f \<lparr>mx_requests = [1, 2], mx_pending = {#1#}, mx_written = [20]\<rparr>"
    using mux_reach.complete [OF r2, of 2] by (simp add: multiplex_callback_def)
  from multiplex_answers_once [OF this] show ?thesis by simp
qed

end
