(* ===== verification/PbRpcServer.thy ===== *)
theory PbRpcServer
  imports RpcMessageCoding Framing ServerDispatcher
begin

text \<open>
  The RPC server (\<open>net/PbRpcServer.h\<close>, \<open>net/PbRpcServer.cc\<close>): the registry of services and
  methods, \<open>handleRpcCall\<close>, the service object behind the dispatcher and the pipeline it is built
  into. protobuf's service and message reflection and farmhash are parameters (\<open>service_api\<close>).
  \<open>std::unordered_map::operator[]\<close> inserts a value-initialised entry for a missing key; a null or
  indeterminate pointer that is dereferenced is a fault of the process.
\<close>

section \<open>What the server calls\<close>

text \<open>The type variables are the user's services, method descriptors, prototypes and messages.
  \<open>svc_CallMethod\<close> is the user's method: it gives the response message after the call.\<close>

record ('s, 'd, 'p, 'm) service_api =
  full_name :: "'s \<Rightarrow> byte list"
  method_count :: "'s \<Rightarrow> nat"
  svc_method :: "'s \<Rightarrow> nat \<Rightarrow> 'd"
  GetRequestPrototype :: "'s \<Rightarrow> 'd \<Rightarrow> 'p"
  GetResponsePrototype :: "'s \<Rightarrow> 'd \<Rightarrow> 'p"
  New :: "'p \<Rightarrow> 'm"
  ParseFromString :: "byte list \<Rightarrow> 'm \<Rightarrow> bool \<times> 'm"
  SerializeToString :: "'m \<Rightarrow> byte list"
  svc_CallMethod :: "'s \<Rightarrow> 'd \<Rightarrow> 'm \<Rightarrow> 'm \<Rightarrow> 'm"
  Hash32 :: "byte list \<Rightarrow> u32"

datatype rpc_fault = NullDereference | WildDereference

fun deref :: "'a ptr \<Rightarrow> rpc_fault + 'a" where
  "deref Null = Inl NullDereference"
| "deref Wild = Inl WildDereference"
| "deref (Ptr x) = Inr x"

section \<open>The registry\<close>

record ('d, 'p) MethodData =
  m_descriptor :: "'d ptr"
  request_proto :: "'p ptr"
  response_proto :: "'p ptr"

record ('s, 'd, 'p) ServiceData =
  rpcService :: "'s ptr"
  methodMap :: "u32 \<rightharpoonup> ('d, 'p) MethodData"

text \<open>The server: its map, and how many messages \<open>New\<close> has allocated for calls so far. The server
  never deletes one.\<close>

record ('s, 'd, 'p) pbRPCServer =
  rpcCallMap :: "u32 \<rightharpoonup> ('s, 'd, 'p) ServiceData"
  live_messages :: nat

definition pbRPCServer_new :: "('s, 'd, 'p) pbRPCServer" where
  "pbRPCServer_new = \<lparr>rpcCallMap = Map.empty, live_messages = 0\<rparr>"

text \<open>Entries made by \<open>operator[]\<close> are value-initialised: null pointers, an empty map. The local
  \<open>ServiceData servicetmp\<close> of \<open>RegisterService\<close> is default-initialised: its pointer is wild.\<close>

definition default_method :: "('d, 'p) MethodData" where
  "default_method = \<lparr>m_descriptor = Null, request_proto = Null, response_proto = Null\<rparr>"

definition default_service :: "('s, 'd, 'p) ServiceData" where
  "default_service = \<lparr>rpcService = Null, methodMap = Map.empty\<rparr>"

definition map_subscript :: "'v \<Rightarrow> 'k \<Rightarrow> ('k \<rightharpoonup> 'v) \<Rightarrow> 'v \<times> ('k \<rightharpoonup> 'v)" where
  "map_subscript d k m = (case m k of Some v \<Rightarrow> (v, m) | None \<Rightarrow> (d, m(k \<mapsto> d)))"

definition register_method ::
    "('s, 'd, 'p, 'm) service_api \<Rightarrow> 's \<Rightarrow> ('s, 'd, 'p) ServiceData \<Rightarrow> nat \<Rightarrow> ('s, 'd, 'p) ServiceData" where
  "register_method api service servicetmp i =
     (let pMethodDes = svc_method api service i;
          request_p = GetRequestPrototype api service pMethodDes;
          response_p = GetResponsePrototype api service pMethodDes;
          methodtmp = \<lparr>m_descriptor = Ptr pMethodDes, request_proto = Ptr request_p,
                       response_proto = Ptr response_p\<rparr>;
          methodId = of_nat i
      in servicetmp\<lparr>rpcService := Ptr service,
           methodMap := (methodMap servicetmp)(methodId \<mapsto> methodtmp)\<rparr>)"

definition RegisterService ::
    "('s, 'd, 'p, 'm) service_api \<Rightarrow> 's \<Rightarrow> ('s, 'd, 'p) pbRPCServer \<Rightarrow> bool \<times> ('s, 'd, 'p) pbRPCServer" where
  "RegisterService api service srv =
     (let methodCnt = method_count api service;
          serviceName = full_name api service;
          serviceId = Hash32 api serviceName;
          servicetmp = foldl (register_method api service)
                         \<lparr>rpcService = Wild, methodMap = Map.empty\<rparr> [0..<methodCnt]
      in (True, srv\<lparr>rpcCallMap := (rpcCallMap srv)(serviceId \<mapsto> servicetmp)\<rparr>))"

definition GetService ::
    "u32 \<Rightarrow> ('s, 'd, 'p) pbRPCServer \<Rightarrow> 's ptr \<times> ('s, 'd, 'p) pbRPCServer" where
  "GetService serviceId srv =
     (case map_subscript default_service serviceId (rpcCallMap srv) of
        (sd, m) \<Rightarrow> (rpcService sd, srv\<lparr>rpcCallMap := m\<rparr>))"

definition GetMethod ::
    "u32 \<Rightarrow> u32 \<Rightarrow> ('s, 'd, 'p) pbRPCServer \<Rightarrow> ('d, 'p) MethodData \<times> ('s, 'd, 'p) pbRPCServer" where
  "GetMethod serviceId methodId srv =
     (case map_subscript default_service serviceId (rpcCallMap srv) of
        (sd, m) \<Rightarrow>
          (case map_subscript default_method methodId (methodMap sd) of
             (md, mm) \<Rightarrow> (md, srv\<lparr>rpcCallMap := m(serviceId \<mapsto> sd\<lparr>methodMap := mm\<rparr>)\<rparr>)))"

section \<open>Calls\<close>

definition fill_response :: "byte list \<Rightarrow> 'u RpcMessage \<Rightarrow> 'u RpcMessage \<Rightarrow> 'u RpcMessage" where
  "fill_response response_str req res =
     set_error NO_ERROR (set_methodid (rm_methodid req) (set_serviceid (rm_serviceid req)
       (set_response response_str (set_id (rm_id req) (set_type RESPONSE res)))))"

definition handleRpcCall ::
    "('s, 'd, 'p, 'm) service_api \<Rightarrow> 'u RpcMessage \<Rightarrow> 'u RpcMessage \<Rightarrow> ('s, 'd, 'p) pbRPCServer
     \<Rightarrow> rpc_fault + 'u RpcMessage \<times> ('s, 'd, 'p) pbRPCServer" where
  "handleRpcCall api req res srv =
     (case GetService (rm_serviceid req) srv of
        (rpc_service, srv) \<Rightarrow>
     (case GetMethod (rm_serviceid req) (rm_methodid req) srv of
        (this_method, srv) \<Rightarrow>
     (case deref (request_proto this_method) of Inl f \<Rightarrow> Inl f | Inr request_p \<Rightarrow>
     (case deref (response_proto this_method) of Inl f \<Rightarrow> Inl f | Inr response_p \<Rightarrow>
        (let srv = srv\<lparr>live_messages := live_messages srv + 2\<rparr>;
             request = New api request_p;
             response = New api response_p;
             request = snd (ParseFromString api (rm_request req) request)
         in (case deref rpc_service of Inl f \<Rightarrow> Inl f | Inr svc \<Rightarrow>
            (case deref (m_descriptor this_method) of Inl f \<Rightarrow> Inl f | Inr desc \<Rightarrow>
               (let response = svc_CallMethod api svc desc request response;
                    response_str = SerializeToString api response
                in Inr (fill_response response_str req res, srv)))))))))"

text \<open>\<open>RpcMsgService::operator()\<close> with \<open>handleRpcCall\<close> bound by \<open>Start\<close>.\<close>

definition RpcMsgService_call ::
    "'u wire_lib \<Rightarrow> ('s, 'd, 'p, 'm) service_api \<Rightarrow> 'u RpcMessage \<Rightarrow> ('s, 'd, 'p) pbRPCServer
     \<Rightarrow> rpc_fault + 'u RpcMessage \<times> ('s, 'd, 'p) pbRPCServer" where
  "RpcMsgService_call W api request srv = (let response = RpcMessage_new W in handleRpcCall api request response srv)"

text \<open>The stages of \<open>newPipeline\<close>, socket first.\<close>

datatype stage = AsyncSocketHandler | EventBaseHandler | FrameDecoder decoder
  | FramePrepender prepender | SerializeHandler | MultiplexDispatcher

definition server_newPipeline :: "(stage list) option" where
  "server_newPipeline =
     (case (LengthFieldBasedFrameDecoder_new 2 65536 0 0 2 True, LengthFieldPrepender_new 2 0 False True) of
        (Some d, Some p) \<Rightarrow> Some [AsyncSocketHandler, EventBaseHandler, FrameDecoder d,
           FramePrepender p, SerializeHandler, MultiplexDispatcher]
      | _ \<Rightarrow> None)"

text \<open>The factory keeps one pool of service threads for all its pipelines: as many as the machine has
  cores, or as given.\<close>

record pipeline_factory =
  pf_threads :: u64

definition RpcMsgServerPipelineFactory_new :: "u32 \<Rightarrow> pipeline_factory" where
  "RpcMsgServerPipelineFactory_new hardware_concurrency = \<lparr>pf_threads = u32_to_u64 hardware_concurrency\<rparr>"

definition RpcMsgServerPipelineFactory_new_threads :: "s32 \<Rightarrow> pipeline_factory" where
  "RpcMsgServerPipelineFactory_new_threads exeThreadNum = \<lparr>pf_threads = s32_to_u64 exeThreadNum\<rparr>"

text \<open>\<open>Start\<close> is its calls on the bootstrap and its line of output, in order; when \<open>bind\<close> throws, nothing
  follows it.\<close>

datatype start_step = ChildPipeline pipeline_factory | Bind s32 | PrintRunning s32 | WaitForStop

definition Start :: "u32 \<Rightarrow> bool \<Rightarrow> s32 \<Rightarrow> start_step list" where
  "Start hardware_concurrency bind_ok bindPort =
     [ChildPipeline (RpcMsgServerPipelineFactory_new hardware_concurrency), Bind bindPort]
     @ (if bind_ok then [PrintRunning bindPort, WaitForStop] else [])"

section \<open>What the registry promises\<close>

text \<open>The abstract registry: a service answers for its hash until another service with the same
  hash is registered. \<open>reply\<close> is the answer of method \<open>i\<close> of a service to request bytes.\<close>

definition service_hash :: "('s, 'd, 'p, 'm) service_api \<Rightarrow> 's \<Rightarrow> u32" where
  "service_hash api s = Hash32 api (full_name api s)"

definition method_entry :: "('s, 'd, 'p, 'm) service_api \<Rightarrow> 's \<Rightarrow> nat \<Rightarrow> ('d, 'p) MethodData" where
  "method_entry api s i = \<lparr>m_descriptor = Ptr (svc_method api s i),
     request_proto = Ptr (GetRequestPrototype api s (svc_method api s i)),
     response_proto = Ptr (GetResponsePrototype api s (svc_method api s i))\<rparr>"

definition service_entry :: "('s, 'd, 'p, 'm) service_api \<Rightarrow> 's \<Rightarrow> ('s, 'd, 'p) ServiceData" where
  "service_entry api s = \<lparr>rpcService = (if method_count api s = 0 then Wild else Ptr s),
     methodMap = (\<lambda>k. if unat k < method_count api s then Some (method_entry api s (unat k)) else None)\<rparr>"

definition last_registered :: "('s, 'd, 'p, 'm) service_api \<Rightarrow> 's list \<Rightarrow> u32 \<Rightarrow> 's option" where
  "last_registered api svcs h = find (\<lambda>s. service_hash api s = h) (rev svcs)"

definition reply :: "('s, 'd, 'p, 'm) service_api \<Rightarrow> 's \<Rightarrow> nat \<Rightarrow> byte list \<Rightarrow> byte list" where
  "reply api s i bs =
     (let d = svc_method api s i;
          request = snd (ParseFromString api bs (New api (GetRequestPrototype api s d)));
          response = New api (GetResponsePrototype api s d)
      in SerializeToString api (svc_CallMethod api s d request response))"

text \<open>The histories of a server: registrations and calls that return. The method count is an \<open>int\<close>.\<close>

inductive server_reach ::
  "'u wire_lib \<Rightarrow> ('s, 'd, 'p, 'm) service_api \<Rightarrow> 's list \<Rightarrow> nat \<Rightarrow> ('s, 'd, 'p) pbRPCServer \<Rightarrow> bool"
  for W api where
  start: "server_reach W api [] 0 pbRPCServer_new"
| register: "\<lbrakk>server_reach W api svcs n srv; method_count api s < 2 ^ 31\<rbrakk> \<Longrightarrow>
    server_reach W api (svcs @ [s]) n (snd (RegisterService api s srv))"
| call: "\<lbrakk>server_reach W api svcs n srv; RpcMsgService_call W api req srv = Inr (res, srv')\<rbrakk> \<Longrightarrow>
    server_reach W api svcs (Suc n) srv'"

lemma register_methods:
  "n \<le> 2 ^ 32 \<Longrightarrow>
   foldl (register_method api s) \<lparr>rpcService = Wild, methodMap = Map.empty\<rparr> [0..<n]
     = \<lparr>rpcService = (if n = 0 then Wild else Ptr s),
        methodMap = (\<lambda>k. if unat k < n then Some (method_entry api s (unat k)) else None)\<rparr>"
proof (induction n)
  case (Suc n)
  have k: "(k = of_nat n) = (unat k = n)" for k :: u32
    using Suc.prems by (auto simp: unat_of_nat)
  from Suc show ?case
    by (simp add: register_method_def method_entry_def Let_def fun_eq_iff k less_Suc_eq)
qed simp

lemma RegisterService_entry:
  assumes "method_count api s < 2 ^ 31"
  shows "rpcCallMap (snd (RegisterService api s srv))
      = (rpcCallMap srv)(service_hash api s \<mapsto> service_entry api s)"
    "live_messages (snd (RegisterService api s srv)) = live_messages srv"
  using assms
  by (simp_all add: RegisterService_def Let_def register_methods service_entry_def service_hash_def)

lemma map_subscript_known: "m k = Some v \<Longrightarrow> map_subscript d k m = (v, m)"
  and map_subscript_unknown: "m k = None \<Longrightarrow> map_subscript d k m = (d, m(k \<mapsto> d))"
  by (simp_all add: map_subscript_def)

text \<open>A call on a known service and method, and on any other.\<close>

lemma handleRpcCall_known:
  assumes "rpcCallMap srv (rm_serviceid req) = Some (service_entry api s)"
    "unat (rm_methodid req) < method_count api s"
  shows "handleRpcCall api req res srv
    = Inr (fill_response (reply api s (unat (rm_methodid req)) (rm_request req)) req res,
        srv\<lparr>live_messages := live_messages srv + 2\<rparr>)"
proof -
  have "GetService (rm_serviceid req) srv = (Ptr s, srv)"
    using assms by (simp add: GetService_def map_subscript_known service_entry_def)
  moreover have "GetMethod (rm_serviceid req) (rm_methodid req) srv
      = (method_entry api s (unat (rm_methodid req)), srv)"
  proof -
    have "methodMap (service_entry api s) (rm_methodid req)
        = Some (method_entry api s (unat (rm_methodid req)))"
      using assms(2) by (simp add: service_entry_def)
    with assms(1) show ?thesis by (simp add: GetMethod_def map_subscript_known fun_upd_idem)
  qed
  ultimately show ?thesis
    by (simp add: handleRpcCall_def method_entry_def reply_def Let_def)
qed

lemma handleRpcCall_unknown:
  assumes "\<And>sd md. \<lbrakk>rpcCallMap srv (rm_serviceid req) = Some sd; methodMap sd (rm_methodid req) = Some md\<rbrakk> \<Longrightarrow> False"
  shows "handleRpcCall api req res srv = Inl NullDereference"
proof (cases "rpcCallMap srv (rm_serviceid req)")
  case None
  then show ?thesis
    by (simp add: handleRpcCall_def GetService_def GetMethod_def map_subscript_unknown
        map_subscript_known default_service_def default_method_def)
next
  case (Some sd)
  with assms have "methodMap sd (rm_methodid req) = None" by (metis not_None_eq)
  with Some show ?thesis
    by (simp add: handleRpcCall_def GetService_def GetMethod_def map_subscript_unknown
        map_subscript_known default_method_def)
qed

lemma last_registered_append:
  "last_registered api (svcs @ [s]) h = (if service_hash api s = h then Some s else last_registered api svcs h)"
  by (simp add: last_registered_def)

lemma server_call:
  assumes "\<forall>h. rpcCallMap srv h = map_option (service_entry api) (last_registered api svcs h)"
  shows "RpcMsgService_call W api req srv =
    (case last_registered api svcs (rm_serviceid req) of
       None \<Rightarrow> Inl NullDereference
     | Some s \<Rightarrow> if unat (rm_methodid req) < method_count api s
         then Inr (fill_response (reply api s (unat (rm_methodid req)) (rm_request req)) req
                     (RpcMessage_new W), srv\<lparr>live_messages := live_messages srv + 2\<rparr>)
         else Inl NullDereference)"
proof (cases "last_registered api svcs (rm_serviceid req)")
  case None
  then show ?thesis
    using assms handleRpcCall_unknown [of srv req api "RpcMessage_new W"]
    by (simp add: RpcMsgService_call_def)
next
  case (Some s)
  then have e: "rpcCallMap srv (rm_serviceid req) = Some (service_entry api s)" using assms by simp
  show ?thesis
  proof (cases "unat (rm_methodid req) < method_count api s")
    case True
    with Some handleRpcCall_known [OF e True] show ?thesis by (simp add: RpcMsgService_call_def)
  next
    case False
    have "methodMap (service_entry api s) (rm_methodid req) = None"
      using False by (simp add: service_entry_def)
    with e have "handleRpcCall api req (RpcMessage_new W) srv = Inl NullDereference"
      by (intro handleRpcCall_unknown) simp
    with False Some show ?thesis by (simp add: RpcMsgService_call_def)
  qed
qed

lemma server_reach_inv:
  "server_reach W api svcs n srv \<Longrightarrow>
   (\<forall>h. rpcCallMap srv h = map_option (service_entry api) (last_registered api svcs h))
   \<and> live_messages srv = 2 * n"
proof (induction rule: server_reach.induct)
  case start
  then show ?case by (simp add: pbRPCServer_new_def last_registered_def)
next
  case (register svcs n srv s)
  then show ?case by (auto simp: RegisterService_entry last_registered_append)
next
  case (call svcs n srv req res srv')
  from call.hyps(2) call.IH show ?case
    unfolding server_call [OF conjunct1 [OF call.IH]] by (auto split: option.splits if_splits)
qed

text \<open>The content of a response.\<close>

lemma fill_response_content:
  "content (fill_response bs req res) = (content res)\<lparr>c_type := Some RESPONSE, c_id := Some (rm_id req),
     c_serviceid := Some (rm_serviceid req), c_methodid := Some (rm_methodid req),
     c_response := Some bs, c_error := Some NO_ERROR\<rparr>"
  by (simp add: fill_response_def setters_content)

lemma fill_response_wf: "rpc_wf res \<Longrightarrow> rpc_wf (fill_response bs req res)"
  by (simp add: fill_response_def setters_wf)

lemma server_pipeline_stages:
  "server_newPipeline = Some [AsyncSocketHandler, EventBaseHandler, FrameDecoder rpc_decoder,
     FramePrepender rpc_prepender, SerializeHandler, MultiplexDispatcher]"
  by (simp add: server_newPipeline_def rpc_decoder_constructed rpc_prepender_constructed)

section \<open>Properties\<close>

text \<open>C15: A request for a method of a registered service is answered: after any history of
  registrations and calls, when \<open>s\<close> is the last registered service with the request's service id, the
  response carries the id, the service id and the method id of the request, the type RESPONSE, the
  error NO_ERROR and the user's reply, and the registry is as before.\<close>

theorem registered_call_answered:
  assumes "server_reach W api svcs n srv" "last_registered api svcs (rm_serviceid req) = Some s"
    and "unat (rm_methodid req) < method_count api s"
  shows "\<exists>res srv'. RpcMsgService_call W api req srv = Inr (res, srv') \<and> rpc_wf res
    \<and> content res = \<lparr>c_type = Some RESPONSE, c_id = Some (rm_id req),
        c_serviceid = Some (rm_serviceid req), c_methodid = Some (rm_methodid req), c_request = None,
        c_response = Some (reply api s (unat (rm_methodid req)) (rm_request req)),
        c_error = Some NO_ERROR, c_unknown = no_unknown_fields W\<rparr>
    \<and> rpcCallMap srv' = rpcCallMap srv"
  using server_call [OF conjunct1 [OF server_reach_inv [OF assms(1)]], of W req] assms(2,3)
  by (simp add: fill_response_content fill_response_wf content_new no_content_def)

text \<open>An echo service with two methods: the reply is the method number and the request's bytes.\<close>

definition echo_api :: "(nat, nat, unit, byte list) service_api" where
  "echo_api = \<lparr>full_name = (\<lambda>s. [of_nat s]), method_count = (\<lambda>s. 2), svc_method = (\<lambda>s i. i),
     GetRequestPrototype = (\<lambda>s d. ()), GetResponsePrototype = (\<lambda>s d. ()), New = (\<lambda>p. []),
     ParseFromString = (\<lambda>bs m. (True, bs)), SerializeToString = (\<lambda>m. m),
     svc_CallMethod = (\<lambda>s d request response. of_nat d # request),
     Hash32 = (\<lambda>bs. of_nat (unat (hd bs)))\<rparr>"

definition echo_server :: "(nat, nat, unit) pbRPCServer" where
  "echo_server = snd (RegisterService echo_api 77 pbRPCServer_new)"

lemma echo_reach: "server_reach varint_lib echo_api [77] 0 echo_server"
  using server_reach.register [OF server_reach.start, of echo_api 77 varint_lib]
  by (simp add: echo_server_def echo_api_def)

lemma echo_registered: "last_registered echo_api [77] 77 = Some 77"
  by (simp add: last_registered_def service_hash_def echo_api_def)

lemma echo_count: "method_count echo_api s = 2"
  by (simp add: echo_api_def)

definition echo_request :: "byte list RpcMessage" where
  "echo_request = set_request [5, 6] (set_methodid 1 (set_serviceid 77 (set_id 300
     (set_type REQUEST (RpcMessage_new varint_lib)))))"

lemma echo_request_sel: "rm_serviceid echo_request = 77" "rm_methodid echo_request = 1"
  "rm_id echo_request = 300" "rm_request echo_request = [5, 6]"
  by (simp_all add: echo_request_def rpc_accessors)

theorem registered_call_answered_witness:
  "\<exists>res srv'. RpcMsgService_call varint_lib echo_api echo_request echo_server = Inr (res, srv')
     \<and> c_response (content res) = Some [1, 5, 6] \<and> c_id (content res) = Some 300"
  using registered_call_answered [OF echo_reach, of echo_request 77] echo_registered
  by (auto simp: echo_request_sel echo_api_def reply_def Let_def)

text \<open>C39: A request that names a service id that is not registered, or a method number the service
  does not have, is never refused with NO_SERVICE or NO_METHOD, the codes the protocol defines for it:
  \<open>operator[]\<close> makes an entry of null pointers and the server dereferences one. Any peer can stop the
  server process with one frame.\<close>

theorem unknown_id_crashes:
  assumes "server_reach W api svcs n srv"
    and "\<forall>s. last_registered api svcs (rm_serviceid req) = Some s \<longrightarrow>
      method_count api s \<le> unat (rm_methodid req)"
  shows "RpcMsgService_call W api req srv = Inl NullDereference"
  using server_call [OF conjunct1 [OF server_reach_inv [OF assms(1)]], of W req] assms(2)
  by (auto split: option.split)

theorem unknown_id_crashes_witness:
  "RpcMsgService_call varint_lib echo_api (RpcMessage_new varint_lib) echo_server = Inl NullDereference"
  by (rule unknown_id_crashes [OF echo_reach])
    (simp add: last_registered_def service_hash_def echo_api_def RpcMessage_new_def)

text \<open>Services are told apart by a 32-bit hash of their names only. Registering a service whose
  name hashes like that of a registered one reports success and takes over all its calls.\<close>

theorem hash_collision_replaces:
  assumes "server_reach W api svcs n srv" "service_hash api s = service_hash api t" "t \<in> set svcs"
    and "method_count api s < 2 ^ 31" "rm_serviceid req = service_hash api t"
    and "unat (rm_methodid req) < method_count api s"
  shows "\<exists>srv' res srv''. RegisterService api s srv = (True, srv')
    \<and> RpcMsgService_call W api req srv' = Inr (res, srv'')
    \<and> c_response (content res) = Some (reply api s (unat (rm_methodid req)) (rm_request req))"
proof -
  obtain srv' where r: "RegisterService api s srv = (True, srv')"
    by (simp add: RegisterService_def Let_def)
  have "server_reach W api (svcs @ [s]) n srv'"
    using server_reach.register [OF assms(1,4)] r by simp
  then have m: "\<forall>h. rpcCallMap srv' h
      = map_option (service_entry api) (last_registered api (svcs @ [s]) h)"
    using server_reach_inv by blast
  show ?thesis
    using server_call [OF m, of W req] r assms(2,5,6)
    by (simp add: last_registered_append fill_response_content)
qed

theorem hash_collision_replaces_witness:
  "\<exists>srv' res srv''. RegisterService (echo_api\<lparr>Hash32 := \<lambda>bs. 77\<rparr>) 78
       (snd (RegisterService (echo_api\<lparr>Hash32 := \<lambda>bs. 77\<rparr>) 77 pbRPCServer_new)) = (True, srv')
     \<and> RpcMsgService_call varint_lib (echo_api\<lparr>Hash32 := \<lambda>bs. 77\<rparr>) echo_request srv' = Inr (res, srv'')
     \<and> c_response (content res) = Some [1, 5, 6]"
proof -
  let ?api = "echo_api\<lparr>Hash32 := \<lambda>bs. 77\<rparr>"
  have r: "server_reach varint_lib ?api [77] 0 (snd (RegisterService ?api 77 pbRPCServer_new))"
    using server_reach.register [OF server_reach.start, of ?api 77 varint_lib] by (simp add: echo_api_def)
  show ?thesis
    using hash_collision_replaces [OF r, of 78 77 echo_request]
    by (simp add: service_hash_def echo_request_sel echo_api_def reply_def Let_def)
qed

text \<open>Every call that returns leaves two messages allocated that nothing frees: after \<open>n\<close> calls
  \<open>2 * n\<close> are live.\<close>

theorem calls_leak_messages:
  assumes "server_reach W api svcs n srv"
  shows "live_messages srv = 2 * n"
  using server_reach_inv [OF assms] by blast

theorem calls_leak_messages_witness:
  "\<exists>res srv'. RpcMsgService_call varint_lib echo_api echo_request echo_server = Inr (res, srv')
     \<and> live_messages srv' = 2"
proof -
  obtain res srv' where c: "RpcMsgService_call varint_lib echo_api echo_request echo_server = Inr (res, srv')"
    using server_call [OF conjunct1 [OF server_reach_inv [OF echo_reach]], of varint_lib echo_request]
    by (simp add: echo_registered echo_request_sel echo_count)
  from calls_leak_messages [OF server_reach.call [OF echo_reach c]] c show ?thesis by simp
qed

end
