(* ===== verification/ClientDispatcher.thy ===== *)
theory ClientDispatcher
  imports RpcMessage PbRpcServer
begin

text \<open>
  The client's dispatcher, \<open>MultiplexClientDispatcher\<close> (\<open>net/ServiceDispatcher/ClientDispatcher.h\<close>):
  the table from request ids to promises, the call operator with its limit and timeout, and the
  handlers of the pipeline's events. The table, folly's \<open>ConcurrentHashMap\<close>, is a parameter with the
  laws of a map (\<open>promise_map\<close>). A promise is a number, the index of the call that made it; the state
  records for every call its argument, the value its promise was given and the result of the future
  the caller holds.
\<close>

section \<open>The table of pending requests\<close>

record 'h table_lib =
  tb_entries :: "'h \<Rightarrow> (s64 \<rightharpoonup> nat)" \<comment> \<open>the observation the laws speak about\<close>
  tb_empty :: 'h
  tb_find :: "s64 \<Rightarrow> 'h \<Rightarrow> nat option"
  tb_insert :: "s64 \<Rightarrow> nat \<Rightarrow> 'h \<Rightarrow> bool \<times> 'h" \<comment> \<open>\<open>insert(k, v)\<close> and its \<open>second\<close>\<close>
  tb_erase :: "s64 \<Rightarrow> 'h \<Rightarrow> 'h"
  tb_size :: "'h \<Rightarrow> u64"

locale promise_map =
  fixes T :: "'h table_lib"
  assumes entries_empty: "tb_entries T (tb_empty T) = Map.empty"
    and find: "tb_find T k h = tb_entries T h k"
    and insert_new: "tb_entries T h k = None \<Longrightarrow>
      \<exists>h'. tb_insert T k p h = (True, h') \<and> tb_entries T h' = (tb_entries T h)(k \<mapsto> p)"
    and insert_old: "tb_entries T h k \<noteq> None \<Longrightarrow> tb_insert T k p h = (False, h)"
    and erase: "tb_entries T (tb_erase T k h) = (tb_entries T h)(k := None)"
    and size: "tb_size T h = of_nat (card (dom (tb_entries T h)))"
    and finite_entries: "finite (dom (tb_entries T h))"

definition alist_table :: "(s64 \<times> nat) list table_lib" where
  "alist_table = \<lparr>tb_entries = map_of, tb_empty = [],
     tb_find = (\<lambda>k h. map_of h k),
     tb_insert = (\<lambda>k p h. if map_of h k = None then (True, (k, p) # h) else (False, h)),
     tb_erase = AList.delete,
     tb_size = (\<lambda>h. of_nat (card (set (map fst h))))\<rparr>"

interpretation alist: promise_map alist_table
  by unfold_locales
    (auto simp: alist_table_def delete_conv dom_map_of_conv_image_fst finite_dom_map_of fun_eq_iff)

section \<open>The dispatcher\<close>

record 'h client_dispatcher =
  cd_requests :: 'h
  cd_timeout :: u32
  cd_reqlimit :: u64
  cd_pipeline :: "nat ptr" \<comment> \<open>\<open>pipeline_\<close> of the base class\<close>

text \<open>The dispatcher and what surrounds it: the calls made so far, the messages written to the
  pipeline, the closed pipelines, the armed timers.\<close>

record ('h, 'u) client =
  cl_disp :: "'h client_dispatcher"
  cl_calls :: nat
  cl_arg :: "nat \<Rightarrow> 'u RpcMessage"
  cl_value :: "nat \<Rightarrow> 'u RpcMessage option" \<comment> \<open>of the promise\<close>
  cl_result :: "nat \<Rightarrow> 'u RpcMessage option" \<comment> \<open>of the future returned\<close>
  cl_timer :: "nat \<Rightarrow> u32 option"
  cl_written :: "'u RpcMessage list"
  cl_closed :: "nat list"

datatype client_fault = NoPipeline | PromiseAlreadySatisfied

text \<open>\<open>MultiplexClientDispatcher(reqLimit, t)\<close>; \<open>pl\<close> is what the base class leaves in \<open>pipeline_\<close>.\<close>

definition MultiplexClientDispatcher_new ::
    "'h table_lib \<Rightarrow> u64 \<Rightarrow> u32 \<Rightarrow> nat ptr \<Rightarrow> 'h client_dispatcher" where
  "MultiplexClientDispatcher_new T reqLimit t pl =
     \<lparr>cd_requests = tb_empty T, cd_timeout = t, cd_reqlimit = reqLimit, cd_pipeline = pl\<rparr>"

text \<open>The default arguments: \<open>INT64_MAX\<close> pending requests, five seconds.\<close>

definition default_dispatcher :: "'h table_lib \<Rightarrow> nat ptr \<Rightarrow> 'h client_dispatcher" where
  "default_dispatcher T pl = MultiplexClientDispatcher_new T 9223372036854775807 5000 pl"

definition client_new :: "'u wire_lib \<Rightarrow> 'h client_dispatcher \<Rightarrow> ('h, 'u) client" where
  "client_new W d = \<lparr>cl_disp = d, cl_calls = 0, cl_arg = (\<lambda>_. RpcMessage_new W), cl_value = (\<lambda>_. None),
     cl_result = (\<lambda>_. None), cl_timer = (\<lambda>_. None), cl_written = [], cl_closed = []\<rparr>"

definition setPipeline :: "nat \<Rightarrow> ('h, 'u) client \<Rightarrow> ('h, 'u) client" where
  "setPipeline p s = s\<lparr>cl_disp := (cl_disp s)\<lparr>cd_pipeline := Ptr p\<rparr>\<rparr>"

text \<open>A response of the dispatcher's own.\<close>

definition local_reply :: "'u wire_lib \<Rightarrow> ErrorCode \<Rightarrow> 'u RpcMessage \<Rightarrow> 'u RpcMessage" where
  "local_reply W e arg = set_error e (set_id (rm_id arg) (set_type RESPONSE (RpcMessage_new W)))"

definition finish :: "nat \<Rightarrow> 'u RpcMessage \<Rightarrow> ('h, 'u) client \<Rightarrow> ('h, 'u) client" where
  "finish p m s = s\<lparr>cl_result := (cl_result s)(p \<mapsto> m)\<rparr>"

text \<open>The call operator in three parts: a new promise, the test of the limit, and the rest (insert,
  write, arm the timer). The parts run one after the other without a lock.\<close>

definition call_begin :: "'u RpcMessage \<Rightarrow> ('h, 'u) client \<Rightarrow> nat \<times> ('h, 'u) client" where
  "call_begin arg s = (cl_calls s,
     s\<lparr>cl_calls := cl_calls s + 1, cl_arg := (cl_arg s)(cl_calls s := arg)\<rparr>)"

definition limit_reached :: "'h table_lib \<Rightarrow> ('h, 'u) client \<Rightarrow> bool" where
  "limit_reached T s \<longleftrightarrow> cd_reqlimit (cl_disp s) \<le> tb_size T (cd_requests (cl_disp s))"

definition call_send ::
    "'u wire_lib \<Rightarrow> 'h table_lib \<Rightarrow> nat \<Rightarrow> 'u RpcMessage \<Rightarrow> ('h, 'u) client \<Rightarrow> client_fault + ('h, 'u) client" where
  "call_send W T p arg s =
     (case tb_insert T (rm_id arg) p (cd_requests (cl_disp s)) of
        (False, h) \<Rightarrow> Inr (finish p (local_reply W INVALID_REQUEST arg) s)
      | (True, h) \<Rightarrow>
          (let s = s\<lparr>cl_disp := (cl_disp s)\<lparr>cd_requests := h\<rparr>\<rparr>
           in case deref (cd_pipeline (cl_disp s)) of
                Inl f \<Rightarrow> Inl NoPipeline
              | Inr pl \<Rightarrow>
                  Inr (s\<lparr>cl_written := cl_written s @ [arg],
                         cl_timer := (cl_timer s)(p \<mapsto> cd_timeout (cl_disp s))\<rparr>)))"

definition dispatcher_call ::
    "'u wire_lib \<Rightarrow> 'h table_lib \<Rightarrow> 'u RpcMessage \<Rightarrow> ('h, 'u) client \<Rightarrow> client_fault + ('h, 'u) client" where
  "dispatcher_call W T arg s =
     (case call_begin arg s of (p, s) \<Rightarrow>
        if limit_reached T s then Inr (finish p (local_reply W PENDDING_LIMIT arg) s)
        else call_send W T p arg s)"

text \<open>The lambda given to \<open>onTimeout\<close>, run when the timer of call \<open>p\<close> fires before its future is
  done.\<close>

definition dispatcher_timeout ::
    "'u wire_lib \<Rightarrow> 'h table_lib \<Rightarrow> nat \<Rightarrow> ('h, 'u) client \<Rightarrow> ('h, 'u) client" where
  "dispatcher_timeout W T p s =
     (let arg = cl_arg s p;
          s = s\<lparr>cl_disp := (cl_disp s)\<lparr>cd_requests := tb_erase T (rm_id arg) (cd_requests (cl_disp s))\<rparr>\<rparr>
      in finish p (local_reply W TIMEOUT arg) s)"

text \<open>\<open>setValue\<close> throws when the promise has a value; otherwise it completes the future, unless the
  timeout has.\<close>

definition setValue ::
    "nat \<Rightarrow> 'u RpcMessage \<Rightarrow> ('h, 'u) client \<Rightarrow> client_fault + ('h, 'u) client" where
  "setValue p m s =
     (if cl_value s p \<noteq> None then Inl PromiseAlreadySatisfied
      else let s = s\<lparr>cl_value := (cl_value s)(p \<mapsto> m)\<rparr>
           in Inr (if cl_result s p = None then finish p m s else s))"

definition dispatcher_read ::
    "'h table_lib \<Rightarrow> 'u RpcMessage \<Rightarrow> ('h, 'u) client \<Rightarrow> client_fault + ('h, 'u) client" where
  "dispatcher_read T in_msg s =
     (case tb_find T (rm_id in_msg) (cd_requests (cl_disp s)) of
        None \<Rightarrow> Inr s
      | Some p \<Rightarrow>
          setValue p in_msg
            (s\<lparr>cl_disp := (cl_disp s)\<lparr>cd_requests := tb_erase T (rm_id in_msg) (cd_requests (cl_disp s))\<rparr>\<rparr>))"

definition dispatcher_readEOF :: "('h, 'u) client \<Rightarrow> client_fault + ('h, 'u) client" where
  "dispatcher_readEOF s = (case deref (cd_pipeline (cl_disp s)) of
      Inl f \<Rightarrow> Inl NoPipeline
    | Inr pl \<Rightarrow> Inr (s\<lparr>cl_closed := cl_closed s @ [pl]\<rparr>))"

text \<open>The remaining handlers only print and hand on to the base class; \<open>e\<close> is the text of the
  exception.\<close>

datatype dispatcher_event = Printed string | BaseReadException string | BaseClose | BaseCloseContext

definition dispatcher_readException :: "string \<Rightarrow> dispatcher_event list" where
  "dispatcher_readException e = [Printed (''Remote error: '' @ e), BaseReadException e]"

definition dispatcher_close :: "dispatcher_event list" where
  "dispatcher_close = [Printed ''Channel closed [1]'', BaseClose]"

definition dispatcher_close_context :: "dispatcher_event list" where
  "dispatcher_close_context = [Printed ''Channel closed [2]'', BaseCloseContext]"

text \<open>An exception: one derived from \<open>std::exception\<close>, with the text \<open>exceptionStr\<close> gives, or any other object.\<close>

datatype thrown = StdException string | ForeignException

text \<open>How the future of call \<open>p\<close> ends. The table owns the promises of the calls under way. When the
  dispatcher is destroyed, with the \<open>PbRpcClient\<close> that owns it, the table destroys the promises still in
  it, and folly's \<open>Promise\<close> gives a future without a result the exception \<open>BrokenPromise\<close>.\<close>

definition future_outcome ::
    "'h table_lib \<Rightarrow> bool \<Rightarrow> ('h, 'u) client \<Rightarrow> nat \<Rightarrow> (thrown + 'u RpcMessage) option" where
  "future_outcome T destroyed s p = (case cl_result s p of
      Some r \<Rightarrow> Some (Inr r)
    | None \<Rightarrow>
        if destroyed \<and> tb_find T (rm_id (cl_arg s p)) (cd_requests (cl_disp s)) = Some p
        then Some (Inl (StdException ''Broken promise'')) else None)"

section \<open>Histories\<close>

text \<open>Sequences of calls, responses read, timers fired, connections set and closed, each run to its
  end before the next.\<close>

inductive client_reach ::
  "'u wire_lib \<Rightarrow> 'h table_lib \<Rightarrow> u64 \<Rightarrow> u32 \<Rightarrow> ('h, 'u) client \<Rightarrow> bool" for W T lim t where
  start: "client_reach W T lim t (client_new W (MultiplexClientDispatcher_new T lim t pl))"
| connected: "client_reach W T lim t s \<Longrightarrow> client_reach W T lim t (setPipeline p s)"
| call: "\<lbrakk>client_reach W T lim t s; dispatcher_call W T arg s = Inr s'\<rbrakk> \<Longrightarrow> client_reach W T lim t s'"
| read: "\<lbrakk>client_reach W T lim t s; dispatcher_read T m s = Inr s'\<rbrakk> \<Longrightarrow> client_reach W T lim t s'"
| timeout: "\<lbrakk>client_reach W T lim t s; cl_timer s p \<noteq> None; cl_result s p = None\<rbrakk> \<Longrightarrow>
    client_reach W T lim t (dispatcher_timeout W T p s)"
| eof: "\<lbrakk>client_reach W T lim t s; dispatcher_readEOF s = Inr s'\<rbrakk> \<Longrightarrow> client_reach W T lim t s'"

text \<open>A call is pending until its future has a result. The table holds exactly the pending calls,
  under their ids.\<close>

definition pending :: "('h, 'u) client \<Rightarrow> nat \<Rightarrow> bool" where
  "pending s p \<longleftrightarrow> p < cl_calls s \<and> cl_result s p = None"

definition client_entries :: "'h table_lib \<Rightarrow> ('h, 'u) client \<Rightarrow> s64 \<rightharpoonup> nat" where
  "client_entries T s = tb_entries T (cd_requests (cl_disp s))"

definition answered_right :: "'u wire_lib \<Rightarrow> ('h, 'u) client \<Rightarrow> nat \<Rightarrow> 'u RpcMessage \<Rightarrow> bool" where
  "answered_right W s p r \<longleftrightarrow> rm_id r = rm_id (cl_arg s p) \<and>
     (cl_value s p = Some r \<or>
      (\<exists>e \<in> {PENDDING_LIMIT, INVALID_REQUEST, TIMEOUT}. r = local_reply W e (cl_arg s p)))"

definition client_inv :: "'u wire_lib \<Rightarrow> 'h table_lib \<Rightarrow> u64 \<Rightarrow> u32 \<Rightarrow> ('h, 'u) client \<Rightarrow> bool" where
  "client_inv W T lim t s \<longleftrightarrow>
     (\<forall>i p. client_entries T s i = Some p \<longleftrightarrow> pending s p \<and> rm_id (cl_arg s p) = i)
     \<and> (\<forall>p. cl_value s p \<noteq> None \<longrightarrow> cl_result s p \<noteq> None)
     \<and> (\<forall>p. pending s p \<longrightarrow> cl_timer s p = Some t)
     \<and> (\<forall>p. cl_timer s p \<noteq> None \<longrightarrow> p < cl_calls s)
     \<and> (\<forall>p r. cl_result s p = Some r \<longrightarrow> p < cl_calls s \<and> answered_right W s p r)
     \<and> card (dom (client_entries T s)) \<le> unat lim
     \<and> cd_reqlimit (cl_disp s) = lim \<and> cd_timeout (cl_disp s) = t"

lemma local_reply_id [simp]: "rm_id (local_reply W e arg) = rm_id arg"
  by (simp add: local_reply_def rpc_accessors)

lemma client_invI:
  assumes "\<And>i p. client_entries T s i = Some p \<longleftrightarrow> pending s p \<and> rm_id (cl_arg s p) = i"
    "\<And>p. cl_value s p \<noteq> None \<Longrightarrow> cl_result s p \<noteq> None"
    "\<And>p. pending s p \<Longrightarrow> cl_timer s p = Some t"
    "\<And>p. cl_timer s p \<noteq> None \<Longrightarrow> p < cl_calls s"
    "\<And>p r. cl_result s p = Some r \<Longrightarrow> p < cl_calls s \<and> answered_right W s p r"
    "card (dom (client_entries T s)) \<le> unat lim"
    "cd_reqlimit (cl_disp s) = lim" "cd_timeout (cl_disp s) = t"
  shows "client_inv W T lim t s"
  unfolding client_inv_def using assms by blast

lemma client_invD:
  assumes "client_inv W T lim t s"
  shows "client_entries T s i = Some p \<longleftrightarrow> pending s p \<and> rm_id (cl_arg s p) = i"
    "cl_value s p \<noteq> None \<Longrightarrow> cl_result s p \<noteq> None"
    "pending s p \<Longrightarrow> cl_timer s p = Some t"
    "cl_timer s p \<noteq> None \<Longrightarrow> p < cl_calls s"
    "cl_result s p = Some r \<Longrightarrow> p < cl_calls s \<and> answered_right W s p r"
    "card (dom (client_entries T s)) \<le> unat lim"
    "cd_reqlimit (cl_disp s) = lim" "cd_timeout (cl_disp s) = t"
  using assms unfolding client_inv_def by blast+

context promise_map
begin

lemma start_inv: "client_inv W T lim t (client_new W (MultiplexClientDispatcher_new T lim t pl))"
  by (rule client_invI)
    (simp_all add: client_new_def MultiplexClientDispatcher_new_def client_entries_def pending_def
      entries_empty)

lemma setPipeline_inv: "client_inv W T lim t s \<Longrightarrow> client_inv W T lim t (setPipeline p s)"
  by (simp add: client_inv_def setPipeline_def client_entries_def pending_def answered_right_def)

lemma closed_inv: "client_inv W T lim t (s\<lparr>cl_closed := c\<rparr>) = client_inv W T lim t s"
  by (simp add: client_inv_def client_entries_def pending_def answered_right_def)

lemma eof_inv: "\<lbrakk>client_inv W T lim t s; dispatcher_readEOF s = Inr s'\<rbrakk> \<Longrightarrow> client_inv W T lim t s'"
  by (auto simp: dispatcher_readEOF_def closed_inv split: sum.splits)

text \<open>A call whose promise is not in the table is answered at once.\<close>

lemma finish_new_inv:
  assumes inv: "client_inv W T lim t s" and e: "e \<in> {PENDDING_LIMIT, INVALID_REQUEST, TIMEOUT}"
    and b: "call_begin arg s = (p, s')"
  shows "client_inv W T lim t (finish p (local_reply W e arg) s')"
proof -
  note inv = client_invD [OF inv]
  have s': "p = cl_calls s" "s' = s\<lparr>cl_calls := cl_calls s + 1, cl_arg := (cl_arg s)(p := arg)\<rparr>"
    using b by (auto simp: call_begin_def)
  let ?s = "finish p (local_reply W e arg) s'"
  have pend: "pending ?s q \<longleftrightarrow> pending s q" for q
    by (auto simp: pending_def finish_def s')
  have np: "\<not> pending s p" by (simp add: pending_def s'(1))
  have lt: "q < Suc p" if "q < cl_calls s" for q using that s'(1) by simp
  have sel: "client_entries T ?s = client_entries T s" "cl_value ?s = cl_value s" "cl_timer ?s = cl_timer s"
    "cl_arg ?s = (cl_arg s)(p := arg)" "cl_calls ?s = Suc p"
    "cl_result ?s = (cl_result s)(p \<mapsto> local_reply W e arg)" "cl_disp ?s = cl_disp s"
    by (simp_all add: finish_def s' client_entries_def)
  show ?thesis
  proof (rule client_invI)
    fix i q r
    show "client_entries T ?s i = Some q \<longleftrightarrow> pending ?s q \<and> rm_id (cl_arg ?s q) = i"
      using inv(1) [of i q] np by (cases "q = p") (simp_all add: sel pend)
    show "cl_value ?s q \<noteq> None \<Longrightarrow> cl_result ?s q \<noteq> None" using inv(2) [of q] by (simp add: sel)
    show "pending ?s q \<Longrightarrow> cl_timer ?s q = Some t" using inv(3) [of q] by (simp add: sel pend)
    show "cl_timer ?s q \<noteq> None \<Longrightarrow> q < cl_calls ?s" using inv(4) [of q] lt by (auto simp: sel)
    show "cl_result ?s q = Some r \<Longrightarrow> q < cl_calls ?s \<and> answered_right W ?s q r"
      unfolding sel answered_right_def
      using inv(5) [of q r] lt e by (cases "q = p") (auto simp: answered_right_def)
  qed (use inv(6-8) in \<open>simp_all add: sel\<close>)
qed

lemma call_inv:
  assumes inv: "client_inv W T lim t s" and c: "dispatcher_call W T arg s = Inr s'"
  shows "client_inv W T lim t s'"
proof -
  obtain p s1 where b: "call_begin arg s = (p, s1)" by (rule prod.exhaust)
  then have s1: "p = cl_calls s" "s1 = s\<lparr>cl_calls := cl_calls s + 1, cl_arg := (cl_arg s)(p := arg)\<rparr>"
    by (auto simp: call_begin_def)
  show ?thesis
  proof (cases "limit_reached T s1 \<or> client_entries T s (rm_id arg) \<noteq> None")
    case True
    then have "s' = finish p (local_reply W PENDDING_LIMIT arg) s1
        \<or> s' = finish p (local_reply W INVALID_REQUEST arg) s1"
      using c b insert_old [of "cd_requests (cl_disp s)" "rm_id arg" p]
      by (auto simp: dispatcher_call_def call_send_def client_entries_def s1 split: if_splits)
    then show ?thesis using finish_new_inv [OF inv _ b] by auto
  next
    case False
    note i = client_invD [OF inv]
    obtain h where h: "tb_insert T (rm_id arg) p (cd_requests (cl_disp s)) = (True, h)"
      "tb_entries T h = (client_entries T s)(rm_id arg \<mapsto> p)"
      using False insert_new [of "cd_requests (cl_disp s)" "rm_id arg" p] by (auto simp: client_entries_def)
    obtain pl where "deref (cd_pipeline (cl_disp s)) = Inr pl"
      and s': "s' = s1\<lparr>cl_disp := (cl_disp s)\<lparr>cd_requests := h\<rparr>, cl_written := cl_written s @ [arg],
        cl_timer := (cl_timer s)(p \<mapsto> t)\<rparr>"
      using c b False h i(8)
      by (auto simp: dispatcher_call_def call_send_def Let_def s1 split: sum.splits)
    have sel: "client_entries T s' = (client_entries T s)(rm_id arg \<mapsto> p)" "cl_value s' = cl_value s"
      "cl_timer s' = (cl_timer s)(p \<mapsto> t)" "cl_arg s' = (cl_arg s)(p := arg)" "cl_calls s' = Suc p"
      "cl_result s' = cl_result s" "cd_reqlimit (cl_disp s') = lim" "cd_timeout (cl_disp s') = t"
      using i(7,8) by (simp_all add: s' s1 client_entries_def h(2))
    have fresh: "cl_result s p = None" using i(5) [of p] s1(1) by (cases "cl_result s p") auto
    have pend: "pending s' q \<longleftrightarrow> pending s q \<or> q = p" for q
      using fresh s1(1) by (auto simp: pending_def sel)
    show ?thesis
    proof (rule client_invI)
      fix j q r
      have np: "\<not> pending s p" by (simp add: pending_def s1(1))
      then have "client_entries T s j \<noteq> Some p" using i(1) [of j p] by simp
      with np show "client_entries T s' j = Some q \<longleftrightarrow> pending s' q \<and> rm_id (cl_arg s' q) = j"
        using i(1) [of j q] False by (cases "q = p"; cases "j = rm_id arg") (simp_all add: sel pend)
      show "cl_value s' q \<noteq> None \<Longrightarrow> cl_result s' q \<noteq> None" using i(2) [of q] by (simp add: sel)
      show "pending s' q \<Longrightarrow> cl_timer s' q = Some t" using i(3) [of q] by (auto simp: sel pend)
      show "cl_timer s' q \<noteq> None \<Longrightarrow> q < cl_calls s'"
        using i(4) [of q] s1(1) [symmetric] by (auto simp: sel split: if_splits)
      show "cl_result s' q = Some r \<Longrightarrow> q < cl_calls s' \<and> answered_right W s' q r"
        using i(5) [of q r] s1(1) [symmetric] fresh by (auto simp: sel answered_right_def)
    next
      have "card (dom (client_entries T s)) < unat lim"
      proof -
        have "tb_size T (cd_requests (cl_disp s)) < lim"
          using False i(7) by (simp add: limit_reached_def s1 not_le)
        moreover have "unat (of_nat (card (dom (client_entries T s))) :: u64)
            = card (dom (client_entries T s))"
        proof (rule unat_of_nat_u64)
          show "card (dom (client_entries T s)) < 2 ^ 64" using i(6) unat_u64_bound [of lim] by simp
        qed
        ultimately show ?thesis by (simp add: size client_entries_def word_less_nat_alt)
      qed
      moreover have "finite (dom (client_entries T s))"
        using finite_entries by (simp add: client_entries_def)
      ultimately show "card (dom (client_entries T s')) \<le> unat lim"
        by (simp add: sel card_insert_if)
    qed (simp_all add: sel)
  qed
qed

text \<open>A pending call gets its result and leaves the table.\<close>

lemma remove_inv:
  assumes inv: "client_inv W T lim t s" and p: "pending s p"
    and s': "client_entries T s' = (client_entries T s)(rm_id (cl_arg s p) := None)"
      "cl_calls s' = cl_calls s" "cl_arg s' = cl_arg s" "cl_timer s' = cl_timer s"
      "cl_result s' = (cl_result s)(p \<mapsto> r)" "cd_reqlimit (cl_disp s') = cd_reqlimit (cl_disp s)"
      "cd_timeout (cl_disp s') = cd_timeout (cl_disp s)"
    and v: "cl_value s' = cl_value s \<or> cl_value s' = (cl_value s)(p \<mapsto> r)"
    and a: "answered_right W s' p r"
  shows "client_inv W T lim t s'"
proof (rule client_invI)
  note i = client_invD [OF inv]
  have pend: "pending s' q \<longleftrightarrow> pending s q \<and> q \<noteq> p" for q
    by (auto simp: pending_def s')
  fix j q r'
  have "client_entries T s (rm_id (cl_arg s p)) = Some p" using i(1) p by blast
  then show "client_entries T s' j = Some q \<longleftrightarrow> pending s' q \<and> rm_id (cl_arg s' q) = j"
    using i(1) [of j q] by (cases "j = rm_id (cl_arg s p)") (auto simp: s' pend)
  show "cl_value s' q \<noteq> None \<Longrightarrow> cl_result s' q \<noteq> None"
    using v i(2) [of q] by (auto simp: s' split: if_splits)
  show "pending s' q \<Longrightarrow> cl_timer s' q = Some t" using i(3) [of q] by (simp add: s' pend)
  show "cl_timer s' q \<noteq> None \<Longrightarrow> q < cl_calls s'" using i(4) [of q] by (simp add: s')
  show "cl_result s' q = Some r' \<Longrightarrow> q < cl_calls s' \<and> answered_right W s' q r'"
    using i(5) [of q r'] v a p unfolding s'
    by (cases "q = p") (auto simp: answered_right_def s' pending_def)
next
  note i = client_invD [OF inv]
  have "card (dom (client_entries T s')) \<le> card (dom (client_entries T s))"
  proof (rule card_mono)
    show "finite (dom (client_entries T s))" using finite_entries by (simp add: client_entries_def)
    show "dom (client_entries T s') \<subseteq> dom (client_entries T s)" by (auto simp: s')
  qed
  with i(6) show "card (dom (client_entries T s')) \<le> unat lim" by simp
  show "cd_reqlimit (cl_disp s') = lim" "cd_timeout (cl_disp s') = t" using i(7,8) s' by simp_all
qed

lemma timeout_sel:
  "client_entries T (dispatcher_timeout W T p s) = (client_entries T s)(rm_id (cl_arg s p) := None)"
  "cl_calls (dispatcher_timeout W T p s) = cl_calls s" "cl_arg (dispatcher_timeout W T p s) = cl_arg s"
  "cl_timer (dispatcher_timeout W T p s) = cl_timer s" "cl_value (dispatcher_timeout W T p s) = cl_value s"
  "cl_result (dispatcher_timeout W T p s) = (cl_result s)(p \<mapsto> local_reply W TIMEOUT (cl_arg s p))"
  "cd_reqlimit (cl_disp (dispatcher_timeout W T p s)) = cd_reqlimit (cl_disp s)"
  "cd_timeout (cl_disp (dispatcher_timeout W T p s)) = cd_timeout (cl_disp s)"
  "cd_pipeline (cl_disp (dispatcher_timeout W T p s)) = cd_pipeline (cl_disp s)"
  by (simp_all add: dispatcher_timeout_def Let_def finish_def client_entries_def erase)

lemma timeout_inv:
  assumes inv: "client_inv W T lim t s" and "cl_timer s p \<noteq> None" "cl_result s p = None"
  shows "client_inv W T lim t (dispatcher_timeout W T p s)"
proof (rule remove_inv [OF inv, where r = "local_reply W TIMEOUT (cl_arg s p)"])
  show "pending s p" using client_invD(4) [OF inv] assms(2,3) by (simp add: pending_def)
qed (simp_all add: timeout_sel answered_right_def)

text \<open>What a response does: nothing for an id that is not in the table, else it completes the pending
  call with that id.\<close>

lemma read_unknown: "client_entries T s (rm_id m) = None \<Longrightarrow> dispatcher_read T m s = Inr s"
  by (simp add: dispatcher_read_def find client_entries_def)

lemma read_known:
  assumes inv: "client_inv W T lim t s" and f: "client_entries T s (rm_id m) = Some p"
  shows "\<exists>s'. dispatcher_read T m s = Inr s' \<and> client_entries T s' = (client_entries T s)(rm_id m := None)
    \<and> cl_calls s' = cl_calls s \<and> cl_arg s' = cl_arg s \<and> cl_timer s' = cl_timer s
    \<and> cl_result s' = (cl_result s)(p \<mapsto> m) \<and> cl_value s' = (cl_value s)(p \<mapsto> m)
    \<and> cd_reqlimit (cl_disp s') = cd_reqlimit (cl_disp s)
    \<and> cd_timeout (cl_disp s') = cd_timeout (cl_disp s) \<and> cl_written s' = cl_written s"
proof -
  have "pending s p" using client_invD(1) [OF inv] f by blast
  then have "cl_result s p = None" "cl_value s p = None"
    using client_invD(2) [OF inv, of p] by (cases "cl_value s p"; auto simp: pending_def)+
  then show ?thesis
    using f by (simp add: dispatcher_read_def find client_entries_def setValue_def Let_def finish_def erase)
qed

lemma read_inv:
  assumes inv: "client_inv W T lim t s" and r: "dispatcher_read T m s = Inr s'"
  shows "client_inv W T lim t s'"
proof (cases "client_entries T s (rm_id m)")
  case None
  with read_unknown [of s m] r inv show ?thesis by simp
next
  case (Some p)
  have p: "pending s p" "rm_id (cl_arg s p) = rm_id m" using client_invD(1) [OF inv] Some by blast+
  show ?thesis
    by (rule remove_inv [OF inv p(1)])
      (use read_known [OF inv Some] r p(2) in \<open>auto simp: answered_right_def\<close>)
qed

lemma reach_inv: "client_reach W T lim t s \<Longrightarrow> client_inv W T lim t s"
proof (induction rule: client_reach.induct)
  case (start pl)
  show ?case by (rule start_inv)
next
  case (connected s p)
  from connected.IH show ?case by (rule setPipeline_inv)
next
  case (call s arg s')
  from call.IH call.hyps(2) show ?case by (rule call_inv)
next
  case (read s m s')
  from read.IH read.hyps(2) show ?case by (rule read_inv)
next
  case (timeout s p)
  from timeout.IH timeout.hyps(2,3) show ?case by (rule timeout_inv)
next
  case (eof s s')
  from eof.IH eof.hyps(2) show ?case by (rule eof_inv)
qed

end

section \<open>The outcomes of a call\<close>

context promise_map
begin

lemma size_entries:
  assumes "card (dom (client_entries T s)) < 2 ^ 64"
  shows "limit_reached T s \<longleftrightarrow> unat (cd_reqlimit (cl_disp s)) \<le> card (dom (client_entries T s))"
  using unat_of_nat_u64 [OF assms]
  by (simp add: limit_reached_def size client_entries_def word_le_nat_alt)

lemma limit_card:
  assumes "client_inv W T lim t s" "cl_disp s' = cl_disp s"
  shows "limit_reached T s' \<longleftrightarrow> unat lim \<le> card (dom (client_entries T s))"
proof -
  have e: "client_entries T s' = client_entries T s" by (simp add: client_entries_def assms(2))
  have "card (dom (client_entries T s')) < 2 ^ 64"
    using client_invD(6) [OF assms(1)] unat_u64_bound [of lim] by (simp add: e)
  then show ?thesis
    using size_entries [of s'] client_invD(7) [OF assms(1)] by (simp add: e assms(2))
qed

lemma begin_sel:
  assumes "call_begin arg s = (p, s')"
  shows "p = cl_calls s" "cl_disp s' = cl_disp s" "client_entries T s' = client_entries T s"
    "cl_calls s' = cl_calls s + 1" "cl_arg s' = (cl_arg s)(p := arg)" "cl_result s' = cl_result s"
    "cl_written s' = cl_written s"
  using assms by (auto simp: call_begin_def client_entries_def)

lemma send_new:
  assumes "client_entries T s (rm_id arg) = None" "cd_pipeline (cl_disp s) = Ptr pl"
  shows "\<exists>s'. call_send W T p arg s = Inr s' \<and> client_entries T s' = (client_entries T s)(rm_id arg \<mapsto> p)
    \<and> cd_pipeline (cl_disp s') = Ptr pl \<and> cl_written s' = cl_written s @ [arg]
    \<and> cl_timer s' p = Some (cd_timeout (cl_disp s)) \<and> cl_result s' = cl_result s \<and> cl_calls s' = cl_calls s
    \<and> cl_arg s' = cl_arg s"
  using assms insert_new [of "cd_requests (cl_disp s)" "rm_id arg" p]
  by (auto simp: call_send_def client_entries_def Let_def)

lemma send_old:
  assumes "client_entries T s (rm_id arg) \<noteq> None"
  shows "call_send W T p arg s = Inr (finish p (local_reply W INVALID_REQUEST arg) s)"
  using assms insert_old [of "cd_requests (cl_disp s)" "rm_id arg" p]
  by (simp add: call_send_def client_entries_def)

lemma call_over_limit:
  assumes "client_inv W T lim t s" "unat lim \<le> card (dom (client_entries T s))"
  shows "\<exists>s'. dispatcher_call W T arg s = Inr s'
    \<and> cl_result s' (cl_calls s) = Some (local_reply W PENDDING_LIMIT arg) \<and> cl_written s' = cl_written s"
proof -
  obtain p s1 where b: "call_begin arg s = (p, s1)" by (rule prod.exhaust)
  have "limit_reached T s1" using limit_card [OF assms(1) begin_sel(2) [OF b]] assms(2) by simp
  with b begin_sel [OF b] show ?thesis by (simp add: dispatcher_call_def finish_def)
qed

lemma call_duplicate:
  assumes "client_inv W T lim t s" "card (dom (client_entries T s)) < unat lim"
    "client_entries T s (rm_id arg) \<noteq> None"
  shows "\<exists>s'. dispatcher_call W T arg s = Inr s'
    \<and> cl_result s' (cl_calls s) = Some (local_reply W INVALID_REQUEST arg) \<and> cl_written s' = cl_written s"
proof -
  obtain p s1 where b: "call_begin arg s = (p, s1)" by (rule prod.exhaust)
  have "\<not> limit_reached T s1" using limit_card [OF assms(1) begin_sel(2) [OF b]] assms(2) by simp
  moreover have "client_entries T s1 (rm_id arg) \<noteq> None" using assms(3) begin_sel [OF b] by simp
  ultimately show ?thesis
    using b begin_sel [OF b] by (simp add: dispatcher_call_def send_old finish_def)
qed

lemma call_sent:
  assumes "client_inv W T lim t s" "card (dom (client_entries T s)) < unat lim"
    "client_entries T s (rm_id arg) = None" "cd_pipeline (cl_disp s) = Ptr pl"
  shows "\<exists>s'. dispatcher_call W T arg s = Inr s' \<and> cl_written s' = cl_written s @ [arg]
    \<and> client_entries T s' = (client_entries T s)(rm_id arg \<mapsto> cl_calls s)
    \<and> cl_timer s' (cl_calls s) = Some t \<and> cl_result s' (cl_calls s) = cl_result s (cl_calls s)
    \<and> cl_arg s' (cl_calls s) = arg \<and> cl_calls s' = cl_calls s + 1"
proof -
  obtain p s1 where b: "call_begin arg s = (p, s1)" by (rule prod.exhaust)
  note sel = begin_sel [OF b]
  have "\<not> limit_reached T s1" using limit_card [OF assms(1) sel(2)] assms(2) by simp
  then have d: "dispatcher_call W T arg s = call_send W T p arg s1"
    using b by (simp add: dispatcher_call_def)
  have new: "client_entries T s1 (rm_id arg) = None" and pl: "cd_pipeline (cl_disp s1) = Ptr pl"
    using assms(3,4) sel by simp_all
  obtain s' where "call_send W T p arg s1 = Inr s'"
    "client_entries T s' = (client_entries T s1)(rm_id arg \<mapsto> p)" "cl_written s' = cl_written s1 @ [arg]"
    "cl_timer s' p = Some (cd_timeout (cl_disp s1))" "cl_result s' = cl_result s1" "cl_calls s' = cl_calls s1"
    "cl_arg s' = cl_arg s1"
    using send_new [OF new pl, of W p] by blast
  with d sel client_invD(8) [OF assms(1)] show ?thesis by simp
qed

lemma call_no_pipeline:
  assumes "client_inv W T lim t s" "card (dom (client_entries T s)) < unat lim"
    "client_entries T s (rm_id arg) = None" "\<forall>pl. cd_pipeline (cl_disp s) \<noteq> Ptr pl"
  shows "dispatcher_call W T arg s = Inl NoPipeline"
proof -
  obtain p s1 where b: "call_begin arg s = (p, s1)" by (rule prod.exhaust)
  note sel = begin_sel [OF b]
  have "\<not> limit_reached T s1" using limit_card [OF assms(1) sel(2)] assms(2) by simp
  moreover obtain f where "deref (cd_pipeline (cl_disp s)) = Inl f"
    using assms(4) by (cases "cd_pipeline (cl_disp s)") auto
  ultimately show ?thesis
    using b assms(3) sel insert_new [of "cd_requests (cl_disp s)" "rm_id arg" p]
    by (auto simp: dispatcher_call_def call_send_def client_entries_def Let_def)
qed

lemma timeout_card:
  assumes "client_inv W T lim t s" "pending s p"
  shows "card (dom (client_entries T (dispatcher_timeout W T p s))) < unat lim"
proof -
  have "rm_id (cl_arg s p) \<in> dom (client_entries T s)"
    using client_invD(1) [OF assms(1)] assms(2) by blast
  moreover have "finite (dom (client_entries T s))"
    using finite_entries by (simp add: client_entries_def)
  moreover have "dom (client_entries T (dispatcher_timeout W T p s))
      = dom (client_entries T s) - {rm_id (cl_arg s p)}"
    by (simp add: timeout_sel)
  ultimately have "card (dom (client_entries T (dispatcher_timeout W T p s)))
      < card (dom (client_entries T s))"
    by (simp only: card_Diff1_less)
  with client_invD(6) [OF assms(1)] show ?thesis by simp
qed

lemma crosstalk:
  assumes inv: "client_inv W T lim t s" and p: "pending s p"
    and pl: "cd_pipeline (cl_disp s) = Ptr pl"
    and i: "rm_id b = rm_id (cl_arg s p)" "rm_id m = rm_id (cl_arg s p)"
  shows "\<exists>s2 s3. dispatcher_call W T b (dispatcher_timeout W T p s) = Inr s2
    \<and> dispatcher_read T m s2 = Inr s3 \<and> cl_arg s3 (cl_calls s) = b \<and> cl_result s3 (cl_calls s) = Some m"
proof -
  let ?s1 = "dispatcher_timeout W T p s"
  have "cl_timer s p \<noteq> None" "cl_result s p = None"
    using client_invD(3) [OF inv p] p by (simp_all add: pending_def)
  then have inv1: "client_inv W T lim t ?s1" by (rule timeout_inv [OF inv])
  have "client_entries T ?s1 (rm_id b) = None" "cd_pipeline (cl_disp ?s1) = Ptr pl"
    using i(1) pl by (simp_all add: timeout_sel)
  then obtain s2 where s2: "dispatcher_call W T b ?s1 = Inr s2" "cl_arg s2 (cl_calls s) = b"
    "client_entries T s2 = (client_entries T ?s1)(rm_id b \<mapsto> cl_calls s)"
    using call_sent [OF inv1 timeout_card [OF inv p], of b pl] by (auto simp: timeout_sel)
  have "client_entries T s2 (rm_id m) = Some (cl_calls s)" using s2(3) i by simp
  then obtain s3 where "dispatcher_read T m s2 = Inr s3" "cl_arg s3 = cl_arg s2"
    "cl_result s3 = (cl_result s2)(cl_calls s \<mapsto> m)"
    using read_known [OF call_inv [OF inv1 s2(1)]] by blast
  with s2 show ?thesis by auto
qed

lemma overrun:
  assumes inv: "client_inv W T lim t s" and c: "card (dom (client_entries T s)) + 1 = unat lim"
    and pl: "cd_pipeline (cl_disp s) = Ptr pl"
    and a: "client_entries T s (rm_id a) = None" and b: "client_entries T s (rm_id b) = None"
    and ab: "rm_id a \<noteq> rm_id b"
  shows "\<exists>p s1 q s2 s3 s4. call_begin a s = (p, s1) \<and> \<not> limit_reached T s1
    \<and> call_begin b s1 = (q, s2) \<and> \<not> limit_reached T s2
    \<and> call_send W T p a s2 = Inr s3 \<and> call_send W T q b s3 = Inr s4
    \<and> card (dom (client_entries T s4)) = unat lim + 1"
proof -
  obtain p s1 where b1: "call_begin a s = (p, s1)" by (rule prod.exhaust)
  obtain q s2 where b2: "call_begin b s1 = (q, s2)" by (rule prod.exhaust)
  note sel = begin_sel [OF b1] begin_sel [OF b2]
  have l: "\<not> limit_reached T s1" "\<not> limit_reached T s2"
    using limit_card [OF inv] sel c by simp_all
  have "client_entries T s2 (rm_id a) = None" "cd_pipeline (cl_disp s2) = Ptr pl" using a pl sel by simp_all
  then obtain s3 where s3: "call_send W T p a s2 = Inr s3" "cd_pipeline (cl_disp s3) = Ptr pl"
    "client_entries T s3 = (client_entries T s2)(rm_id a \<mapsto> p)"
    using send_new by blast
  have "client_entries T s3 (rm_id b) = None" using b ab sel s3(3) by simp
  then obtain s4 where s4: "call_send W T q b s3 = Inr s4"
    "client_entries T s4 = (client_entries T s3)(rm_id b \<mapsto> q)"
    using send_new s3(2) by blast
  have "card (dom (client_entries T s4)) = unat lim + 1"
    using finite_entries [of "cd_requests (cl_disp s)"] a b ab c sel s3(3) s4(2)
    by (auto simp: client_entries_def card_insert_if)
  with b1 b2 l s3(1) s4(1) show ?thesis by blast
qed

end

section \<open>Properties\<close>

text \<open>The result of a call's future belongs to the call: it carries the call's id and is either a
  message received for that promise or one of the dispatcher's own replies to this very request
  (PENDDING_LIMIT, INVALID_REQUEST, TIMEOUT). It holds after any sequence of calls, responses in any
  order, timeouts and connection events.\<close>

theorem results_belong_to_calls:
  assumes "promise_map T" "client_reach W T lim t s" "cl_result s p = Some r"
  shows "p < cl_calls s \<and> rm_id r = rm_id (cl_arg s p) \<and>
    (cl_value s p = Some r \<or>
     (\<exists>e \<in> {PENDDING_LIMIT, INVALID_REQUEST, TIMEOUT}. r = local_reply W e (cl_arg s p)))"
  using client_invD(5) [OF promise_map.reach_inv [OF assms(1,2)] assms(3)]
  unfolding answered_right_def .

definition sample_request :: "byte list RpcMessage" where
  "sample_request = set_request [8] (set_methodid 1 (set_serviceid 77 (set_id 0
     (set_type REQUEST (RpcMessage_new varint_lib)))))"

lemma sample_request_id: "rm_id sample_request = 0"
  by (simp add: sample_request_def rpc_accessors)

text \<open>A client with a limit of one, connected, after one call.\<close>

definition one_call :: "((s64 \<times> nat) list, byte list) client" where
  "one_call = projr (dispatcher_call varint_lib alist_table sample_request
     (setPipeline 0 (client_new varint_lib (MultiplexClientDispatcher_new alist_table 1 100 Null))))"

lemma idle_reach: "client_reach varint_lib alist_table 1 100
    (setPipeline 0 (client_new varint_lib (MultiplexClientDispatcher_new alist_table 1 100 Null)))"
  by (rule client_reach.connected) (rule client_reach.start)

lemma one_call_step: "dispatcher_call varint_lib alist_table sample_request
    (setPipeline 0 (client_new varint_lib (MultiplexClientDispatcher_new alist_table 1 100 Null)))
  = Inr one_call"
  by (simp add: one_call_def dispatcher_call_def call_begin_def limit_reached_def call_send_def
      setPipeline_def client_new_def MultiplexClientDispatcher_new_def alist_table_def Let_def)

lemma one_call_reach: "client_reach varint_lib alist_table 1 100 one_call"
  by (rule client_reach.call [OF idle_reach one_call_step])

lemma one_call_pending: "pending one_call 0" "cl_calls one_call = 1" "cl_arg one_call 0 = sample_request"
  "client_entries alist_table one_call = [0 \<mapsto> 0]" "cd_pipeline (cl_disp one_call) = Ptr 0"
  by (simp_all add: one_call_def dispatcher_call_def call_begin_def limit_reached_def call_send_def
      setPipeline_def client_new_def MultiplexClientDispatcher_new_def alist_table_def Let_def
      pending_def client_entries_def sample_request_id)

lemma one_call_timer: "cl_timer one_call 0 = Some 100" "cl_result one_call 0 = None"
  by (simp_all add: one_call_def dispatcher_call_def call_begin_def limit_reached_def call_send_def
      setPipeline_def client_new_def MultiplexClientDispatcher_new_def alist_table_def Let_def)

lemma one_call_timeout_reach:
  "client_reach varint_lib alist_table 1 100 (dispatcher_timeout varint_lib alist_table 0 one_call)"
  by (rule client_reach.timeout [OF one_call_reach]) (simp_all add: one_call_timer)

theorem results_belong_to_calls_witness:
  "rm_id (local_reply varint_lib TIMEOUT sample_request)
    = rm_id (cl_arg (dispatcher_timeout varint_lib alist_table 0 one_call) 0)"
  using results_belong_to_calls [OF alist.promise_map_axioms one_call_timeout_reach, of 0]
  by (simp add: alist.timeout_sel one_call_pending)







text \<open>Ids are not unique over the life of a connection. After a call has timed out, a new call with
  the same id (two channels over one client both count from zero) is accepted, and the late response
  to the first call becomes the result of the second.\<close>

theorem late_response_crosstalk:
  assumes "promise_map T" "client_reach W T lim t s" "pending s p" "cd_pipeline (cl_disp s) = Ptr pl"
    and "rm_id b = rm_id (cl_arg s p)" "rm_id late = rm_id (cl_arg s p)"
  shows "\<exists>s2 s3. dispatcher_call W T b (dispatcher_timeout W T p s) = Inr s2
    \<and> dispatcher_read T late s2 = Inr s3 \<and> cl_arg s3 (cl_calls s) = b
    \<and> cl_result s3 (cl_calls s) = Some late"
  by (rule promise_map.crosstalk [OF assms(1) promise_map.reach_inv [OF assms(1,2)] assms(3-6)])

theorem late_response_crosstalk_witness:
  "\<exists>s2 s3. dispatcher_call varint_lib alist_table (set_request [9] sample_request)
       (dispatcher_timeout varint_lib alist_table 0 one_call) = Inr s2
     \<and> dispatcher_read alist_table (set_response [1] sample_request) s2 = Inr s3
     \<and> cl_arg s3 (cl_calls one_call) = set_request [9] sample_request
     \<and> cl_result s3 (cl_calls one_call) = Some (set_response [1] sample_request)"
  by (rule late_response_crosstalk [OF alist.promise_map_axioms one_call_reach one_call_pending(1,5)])
    (simp_all add: one_call_pending sample_request_id set_request_def set_response_def)

text \<open>The limit is tested and the entry inserted in two steps without a lock: two calls that start
  together when one place is left both pass the test, and the table then holds one entry more than
  the limit.\<close>

theorem limit_overrun:
  assumes "promise_map T" "client_reach W T lim t s" "card (dom (client_entries T s)) + 1 = unat lim"
    and "cd_pipeline (cl_disp s) = Ptr pl" "client_entries T s (rm_id a) = None"
    and "client_entries T s (rm_id b) = None" "rm_id a \<noteq> rm_id b"
  shows "\<exists>p s1 q s2 s3 s4. call_begin a s = (p, s1) \<and> \<not> limit_reached T s1
    \<and> call_begin b s1 = (q, s2) \<and> \<not> limit_reached T s2
    \<and> call_send W T p a s2 = Inr s3 \<and> call_send W T q b s3 = Inr s4
    \<and> card (dom (client_entries T s4)) = unat lim + 1"
  by (rule promise_map.overrun [OF assms(1) promise_map.reach_inv [OF assms(1,2)] assms(3-7)])

theorem limit_overrun_witness:
  "\<exists>s3 s4. call_send varint_lib alist_table 0 sample_request
       (snd (call_begin (set_id 301 sample_request) (snd (call_begin sample_request
         (setPipeline 0 (client_new varint_lib
            (MultiplexClientDispatcher_new alist_table 1 100 Null))))))) = Inr s3
     \<and> call_send varint_lib alist_table 1 (set_id 301 sample_request) s3 = Inr s4
     \<and> card (dom (client_entries alist_table s4)) = 2"
proof -
  let ?s = "setPipeline 0 (client_new varint_lib (MultiplexClientDispatcher_new alist_table 1 100 Null))"
  have s: "client_entries alist_table ?s = Map.empty" "cd_pipeline (cl_disp ?s) = Ptr 0" "cl_calls ?s = 0"
    by (simp_all add: setPipeline_def client_new_def MultiplexClientDispatcher_new_def
        client_entries_def alist_table_def)
  have "rm_id sample_request \<noteq> rm_id (set_id 301 sample_request)"
    by (simp add: sample_request_id set_id_def)
  then obtain p s1 q s2 s3 s4 where
    r: "call_begin sample_request ?s = (p, s1)" "call_begin (set_id 301 sample_request) s1 = (q, s2)"
      "call_send varint_lib alist_table p sample_request s2 = Inr s3"
      "call_send varint_lib alist_table q (set_id 301 sample_request) s3 = Inr s4"
      "card (dom (client_entries alist_table s4)) = 2"
    using limit_overrun [OF alist.promise_map_axioms idle_reach _ s(2), of sample_request
        "set_id 301 sample_request"] s by auto
  then have "p = 0" "q = 1" using s(3) by (auto simp: call_begin_def)
  with r show ?thesis by auto
qed

end
