(* ===== verification/ScriptedClient.thy ===== *)
theory ScriptedClient
  imports ClientDispatcher
begin

text \<open>
  A dispatcher whose user makes a fixed sequence of calls, as the example programs do: the requests of
  a script, in order, with ids that differ, each answered by the server in one way. The interface is a
  locale: the script, the answers and how their ids are related. Its lemmas say that the operations of
  the dispatcher keep the calls, the requests written and the values given in step with the script.
\<close>

definition scripted ::
    "'u wire_lib \<Rightarrow> 'h table_lib \<Rightarrow> u64 \<Rightarrow> u32 \<Rightarrow> (nat \<Rightarrow> 'u RpcMessage) \<Rightarrow> (nat \<Rightarrow> 'u RpcMessage) \<Rightarrow> nat
     \<Rightarrow> ('h, 'u) client \<Rightarrow> bool" where
  "scripted W T lim t script answer n s \<longleftrightarrow> client_reach W T lim t s \<and> cl_calls s = n
     \<and> (\<forall>p < n. cl_arg s p = script p) \<and> set (cl_written s) \<subseteq> script ` {..<n}
     \<and> (\<forall>p m. cl_value s p = Some m \<longrightarrow> cl_result s p = Some m \<and> m = answer p)"

lemma scriptedD:
  assumes "scripted W T lim t script answer n s"
  shows "client_reach W T lim t s" "cl_calls s = n" "p < n \<Longrightarrow> cl_arg s p = script p"
    "set (cl_written s) \<subseteq> script ` {..<n}"
    "cl_value s p = Some m \<Longrightarrow> cl_result s p = Some m \<and> m = answer p"
  using assms unfolding scripted_def by blast+

lemma scripted_start:
  "scripted W T lim t script answer 0 (client_new W (MultiplexClientDispatcher_new T lim t pl))"
  using client_reach.start [of W T lim t pl] by (simp add: scripted_def) (simp add: client_new_def)

lemma scripted_pipeline:
  "scripted W T lim t script answer n s \<Longrightarrow> scripted W T lim t script answer n (setPipeline p s)"
  using client_reach.connected [of W T lim t s p] by (simp add: scripted_def) (simp add: setPipeline_def)

text \<open>Which parts of the state a call changes.\<close>

lemma call_form:
  assumes "dispatcher_call W T arg s = Inr s'" "call_begin arg s = (p, s1)"
  shows "(\<exists>r. s' = finish p r s1)
    \<or> (\<exists>h t. s' = s1\<lparr>cl_disp := (cl_disp s1)\<lparr>cd_requests := h\<rparr>,
          cl_written := cl_written s1 @ [arg], cl_timer := (cl_timer s1)(p \<mapsto> t)\<rparr>)"
proof (cases "limit_reached T s1")
  case True
  with assms show ?thesis by (auto simp: dispatcher_call_def)
next
  case False
  with assms have c: "call_send W T p arg s1 = Inr s'" by (simp add: dispatcher_call_def)
  obtain ok h where t: "tb_insert T (rm_id arg) p (cd_requests (cl_disp s1)) = (ok, h)"
    by (metis prod.exhaust)
  show ?thesis
  proof (cases ok)
    case False
    with c t show ?thesis by (auto simp: call_send_def)
  next
    case True
    with c t show ?thesis by (auto simp: call_send_def Let_def split: sum.splits)
  qed
qed

lemma call_changes:
  assumes "dispatcher_call W T arg s = Inr s'"
  shows "cl_value s' = cl_value s" "q \<noteq> cl_calls s \<Longrightarrow> cl_result s' q = cl_result s q"
    "set (cl_written s') \<subseteq> insert arg (set (cl_written s))"
    "cl_calls s' = Suc (cl_calls s)" "cl_arg s' = (cl_arg s)(cl_calls s := arg)"
    "cd_pipeline (cl_disp s') = cd_pipeline (cl_disp s)"
  using call_form [OF assms, of "cl_calls s"] by (auto simp: finish_def call_begin_def)

lemma timeout_written: "cl_written (dispatcher_timeout W T p s) = cl_written s"
  by (simp add: dispatcher_timeout_def Let_def finish_def)

locale scripted_client = promise_map T for T :: "'h table_lib" +
  fixes W :: "'u wire_lib" and lim :: u64 and t :: u32
    and script :: "nat \<Rightarrow> 'u RpcMessage" and answer :: "nat \<Rightarrow> 'u RpcMessage" and bound :: nat
  assumes script_ids: "\<lbrakk>p < bound; q < bound; rm_id (script p) = rm_id (script q)\<rbrakk> \<Longrightarrow> p = q"
    and answer_id: "rm_id (answer p) = rm_id (script p)"
begin

abbreviation running :: "nat \<Rightarrow> ('h, 'u) client \<Rightarrow> bool" where
  "running \<equiv> scripted W T lim t script answer"

lemma scripted_call:
  assumes inv: "running n s" and call: "dispatcher_call W T (script n) s = Inr s'"
  shows "running (Suc n) s'"
proof -
  note i = scriptedD [OF inv] and c = call_changes [OF call]
  have ci: "client_inv W T lim t s" by (rule reach_inv [OF i(1)])
  show ?thesis
    unfolding scripted_def
  proof (intro conjI allI impI)
    show "client_reach W T lim t s'" by (rule client_reach.call [OF i(1) call])
    show "cl_calls s' = Suc n" by (simp add: c i(2))
    show "set (cl_written s') \<subseteq> script ` {..<Suc n}" using c(3) i(4) unfolding lessThan_Suc by blast
  next
    fix p assume "p < Suc n"
    then show "cl_arg s' p = script p" using i(3) [of p] by (auto simp: c i(2) less_Suc_eq)
  next
    fix p m assume "cl_value s' p = Some m"
    then have v: "cl_value s p = Some m" by (simp add: c)
    with client_invD(2,5) [OF ci] i(2) have "p < n" by blast
    with i(5) [OF v] c(2) i(2) show "cl_result s' p = Some m" "m = answer p" by simp_all
  qed
qed

lemma scripted_read:
  assumes inv: "running n s" and q: "q < n" "n \<le> bound" and r: "dispatcher_read T (answer q) s = Inr s'"
  shows "running n s'"
proof -
  note i = scriptedD [OF inv]
  have ci: "client_inv W T lim t s" by (rule reach_inv [OF i(1)])
  show ?thesis
  proof (cases "client_entries T s (rm_id (answer q))")
    case None
    from read_unknown [OF this] r inv show ?thesis by simp
  next
    case (Some p)
    then have p: "p < n" "rm_id (cl_arg s p) = rm_id (script q)"
      using client_invD(1) [OF ci] i(2) by (auto simp: pending_def answer_id)
    then have "p = q" using script_ids [of p q] q i(3) by simp
    from read_known [OF ci Some] r i client_reach.read [OF i(1) r] show ?thesis
      by (auto simp: scripted_def \<open>p = q\<close>)
  qed
qed

lemma scripted_timeout:
  assumes inv: "running n s" and p: "cl_timer s p \<noteq> None" "cl_result s p = None"
  shows "running n (dispatcher_timeout W T p s)"
  using scriptedD [OF inv] client_reach.timeout [OF scriptedD(1) [OF inv] p] p(2)
  by (auto simp: scripted_def timeout_sel timeout_written)

text \<open>A call that has its result keeps it, and the value of its promise.\<close>

lemma read_keeps:
  assumes "running n s" "dispatcher_read T m s = Inr s'" "cl_result s p = Some r"
  shows "cl_result s' p = Some r \<and> cl_value s' p = cl_value s p"
proof (cases "client_entries T s (rm_id m)")
  case None
  from read_unknown [OF this] assms(2,3) show ?thesis by simp
next
  case (Some q)
  have ci: "client_inv W T lim t s" by (rule reach_inv [OF scriptedD(1) [OF assms(1)]])
  have "q \<noteq> p" using client_invD(1) [OF ci] Some assms(3) by (auto simp: pending_def)
  with read_known [OF ci Some] assms(2,3) show ?thesis by auto
qed

text \<open>A result is the server's answer, or a reply of the dispatcher's own, which carries no response.\<close>

lemma result_cases:
  assumes inv: "running n s" and r: "cl_result s p = Some r"
  shows "p < n \<and> (if cl_value s p \<noteq> None then r = answer p
    else \<exists>e \<in> {PENDDING_LIMIT, INVALID_REQUEST, TIMEOUT}. r = local_reply W e (cl_arg s p))"
proof -
  note i = scriptedD [OF inv]
  from client_invD(5) [OF reach_inv [OF i(1)] r] i(2) have "p < n" "answered_right W s p r" by auto
  with i(5) [of p] r show ?thesis by (cases "cl_value s p") (auto simp: answered_right_def)
qed

end

end
