(* ===== verification/Connection.thy ===== *)
theory Connection
  imports RpcMsgSerializeHandler PbRpcServer ServerDispatcher ScriptedClient "HOL-Library.Sublist"
begin

text \<open>
  One connection between a client and a server, from the client's dispatcher to the user's methods and
  back (the pipelines of \<open>net/PbRpcClient.cc\<close> and \<open>net/PbRpcServer.cc\<close>). First what the two pipelines do
  with one frame, then the whole connection as a step relation: both directions of the socket cut their
  bytes into chunks, the server's thread pool answers requests in any order, timers fire at any moment.
\<close>

section \<open>Single frames\<close>

text \<open>A buffer that lies in one \<open>IOBuf\<close>.\<close>

definition contiguous :: "('q, 'b, 'c) iobuf_lib \<Rightarrow> 'b \<Rightarrow> bool" where
  "contiguous L b \<longleftrightarrow> head_data L b = b_bytes L b"

text \<open>The bytes a list of messages puts on the wire.\<close>

definition wire_bytes :: "'u wire_lib \<Rightarrow> 'u RpcMessage list \<Rightarrow> byte list" where
  "wire_bytes W ms = concat (map (\<lambda>m. wire_frame (SerializeWithCachedSizes W m)) ms)"

definition transmittable :: "'u wire_lib \<Rightarrow> 'u RpcMessage \<Rightarrow> bool" where
  "transmittable W m \<longleftrightarrow> sendable W m \<and> frameable (SerializeWithCachedSizes W m)"

text \<open>One call, from the frame of the request to the result of the caller's future: the stages of the
  server's pipeline, its service, the stages of the client's pipeline, its dispatcher.\<close>

definition serve_frame ::
    "('q, 'b, 'c) iobuf_lib \<Rightarrow> 'u wire_lib \<Rightarrow> 'u message_lib \<Rightarrow> ('s, 'd, 'p, 'm) service_api \<Rightarrow> 'b
     \<Rightarrow> ('s, 'd, 'p) pbRPCServer \<Rightarrow> rpc_fault + 'b list \<times> ('s, 'd, 'p) pbRPCServer" where
  "serve_frame L W M api b srv =
     (case handler_read L W M b of
        [FireRead req] \<Rightarrow>
          (case RpcMsgService_call W api req srv of
             Inl f \<Rightarrow> Inl f
           | Inr (res, srv) \<Rightarrow>
               Inr (concat (map (\<lambda>res. concat (map (\<lambda>ev. case ev of FireWrite rb \<Rightarrow> [rb] | _ \<Rightarrow> [])
                        (handler_write L M res))) (multiplex_callback (Inr res))), srv))
      | _ \<Rightarrow> Inr ([], srv))"

definition receive_frame ::
    "('q, 'b, 'c) iobuf_lib \<Rightarrow> 'u wire_lib \<Rightarrow> 'u message_lib \<Rightarrow> 'h table_lib \<Rightarrow> 'b \<Rightarrow> ('h, 'u) client
     \<Rightarrow> client_fault + ('h, 'u) client" where
  "receive_frame L W M T b s =
     (case handler_read L W M b of [FireRead m] \<Rightarrow> dispatcher_read T m s | _ \<Rightarrow> Inr s)"

lemma read_contiguous:
  assumes "message_lite W M" "sendable W m" "contiguous L b" "b_bytes L b = SerializeWithCachedSizes W m"
  shows "handler_read L W M b = [FireRead (m\<lparr>rm_cached_size := 0\<rparr>)]"
  using message_lite.handler_read_serialized [OF assms(1,2)] assms(3,4) by (simp add: contiguous_def)

lemma fill_response_sel [simp]:
  "rm_id (fill_response bs req res) = rm_id req" "rm_response (fill_response bs req res) = bs"
  "rm_error (fill_response bs req res) = NO_ERROR" "rm_request (fill_response bs req res) = rm_request res"
  "rm_internal_metadata (fill_response bs req res) = rm_internal_metadata res"
  by (simp_all add: fill_response_def rpc_accessors)

text \<open>The response of the server to a request, as its pipeline serialises it.\<close>

definition response_to ::
    "'u wire_lib \<Rightarrow> ('s, 'd, 'p, 'm) service_api \<Rightarrow> 's \<Rightarrow> 'u RpcMessage \<Rightarrow> 'u RpcMessage" where
  "response_to W api svc req =
     fill_response (reply api svc (unat (rm_methodid req)) (rm_request req)) req (RpcMessage_new W)"

lemma response_sendable:
  assumes "length (reply api svc (unat (rm_methodid req)) (rm_request req)) < 2147483648"
    "length (SerializeWithCachedSizes W (response_to W api svc req)) < 2147483648"
  shows "sendable W (response_to W api svc req)"
  using assms
  by (simp add: sendable_def response_to_def fill_response_wf, simp add: RpcMessage_new_def)

lemma serve_frame_known:
  assumes "message_lite W M" "server_reach W api svcs n srv"
    "last_registered api svcs (rm_serviceid req) = Some svc"
    "unat (rm_methodid req) < method_count api svc"
    "handler_read L W M b = [FireRead req]" "sendable W (response_to W api svc req)"
  shows "\<exists>srv'. serve_frame L W M api b srv
    = Inr ([copyBuffer L (SerializeWithCachedSizes W (response_to W api svc req))], srv')"
  using server_call [OF conjunct1 [OF server_reach_inv [OF assms(2)]], of W req] assms(3-5)
    message_lite.handler_write_bytes [OF assms(1,6), of L]
  by (simp add: serve_frame_def multiplex_callback_def response_to_def)

lemma response_same: "response_to W api svc (req\<lparr>rm_cached_size := n\<rparr>) = response_to W api svc req"
  by (simp add: response_to_def fill_response_def)

text \<open>A buffer with the bytes of the server's frame is read as its response.\<close>

lemma receive_response:
  assumes "iobuf L" "message_lite W M" "sendable W res" "contiguous L rb'"
    and "b_bytes L rb' = b_bytes L (copyBuffer L (SerializeWithCachedSizes W res))"
  shows "receive_frame L W M T rb' s = dispatcher_read T (res\<lparr>rm_cached_size := 0\<rparr>) s"
  using read_contiguous [OF assms(2-4)] assms(5) iobuf.copyBuffer(1) [OF assms(1)]
  by (simp add: receive_frame_def)

section \<open>One direction of the socket\<close>

text \<open>What the writing half of a pipeline puts on the socket for a message: the handler's buffer behind
  its length. A message whose length does not fit is not written.\<close>

definition pipeline_write ::
    "('q, 'b, 'c) iobuf_lib \<Rightarrow> 'u message_lib \<Rightarrow> 'u RpcMessage \<Rightarrow> byte list" where
  "pipeline_write L M m = concat (map (\<lambda>ev. case ev of
       FireWrite b \<Rightarrow> (case LengthFieldPrepender_write L rpc_prepender b of Inl e \<Rightarrow> [] | Inr f \<Rightarrow> b_bytes L f)
     | _ \<Rightarrow> []) (handler_write L M m))"

text \<open>A direction: the bytes written to it so far, those that have arrived, the decoder at its end and
  how many of the decoder's frames the handler behind it has read.\<close>

record ('q, 'b) lane =
  ln_sent :: "byte list"
  ln_arrived :: "byte list"
  ln_rx :: "('q, 'b) receiver"
  ln_read :: nat

definition lane_new :: "'q \<Rightarrow> ('q, 'b) lane" where
  "lane_new q = \<lparr>ln_sent = [], ln_arrived = [],
     ln_rx = \<lparr>rx_queue = q, rx_frames = [], rx_exceptions = []\<rparr>, ln_read = 0\<rparr>"

definition lane_send :: "byte list \<Rightarrow> ('q, 'b) lane \<Rightarrow> ('q, 'b) lane" where
  "lane_send bs ln = ln\<lparr>ln_sent := ln_sent ln @ bs\<rparr>"

text \<open>A chunk arrives, or the decoder is called.\<close>

inductive lane_step ::
  "('q, 'b, 'c) iobuf_lib \<Rightarrow> ('q, 'b) lane \<Rightarrow> ('q, 'b) lane \<Rightarrow> bool" for L where
  arrive: "\<lbrakk>prefix (ln_arrived ln @ chunk) (ln_sent ln); q_bytes L q = q_bytes L (rx_queue (ln_rx ln)) @ chunk\<rbrakk> \<Longrightarrow>
    lane_step L ln (ln\<lparr>ln_arrived := ln_arrived ln @ chunk, ln_rx := (ln_rx ln)\<lparr>rx_queue := q\<rparr>\<rparr>)"
| decode: "decode L rpc_decoder (rx_queue (ln_rx ln)) = Inr r \<Longrightarrow>
    lane_step L ln (ln\<lparr>ln_rx := rx_apply (ln_rx ln) r\<rparr>)"

text \<open>The next frame for the handler, and the direction after it was read.\<close>

definition lane_next :: "('q, 'b) lane \<Rightarrow> 'b option" where
  "lane_next ln = (if ln_read ln < length (rx_frames (ln_rx ln)) then Some (rx_frames (ln_rx ln) ! ln_read ln) else None)"

definition lane_advance :: "('q, 'b) lane \<Rightarrow> ('q, 'b) lane" where
  "lane_advance ln = ln\<lparr>ln_read := Suc (ln_read ln)\<rparr>"

text \<open>Nothing is under way: every byte has arrived, the decoder waits, every frame was read.\<close>

definition lane_idle :: "('q, 'b, 'c) iobuf_lib \<Rightarrow> ('q, 'b) lane \<Rightarrow> bool" where
  "lane_idle L ln \<longleftrightarrow> ln_arrived ln = ln_sent ln \<and> lane_next ln = None
     \<and> (\<exists>q. decode L rpc_decoder (rx_queue (ln_rx ln)) = Inr (q, ReturnFalse))"

text \<open>The direction carries the messages \<open>ms\<close>; what it can carry.\<close>

definition lane_inv ::
    "('q, 'b, 'c) iobuf_lib \<Rightarrow> 'u wire_lib \<Rightarrow> 'u RpcMessage list \<Rightarrow> ('q, 'b) lane \<Rightarrow> bool" where
  "lane_inv L W ms ln \<longleftrightarrow> ln_sent ln = wire_bytes W ms
     \<and> prefix (ln_arrived ln) (ln_sent ln) \<and> rx_reach L rpc_decoder (ln_arrived ln) (ln_rx ln)
     \<and> ln_read ln \<le> length (rx_frames (ln_rx ln))"

definition lane_ok ::
    "('q, 'b, 'c) iobuf_lib \<Rightarrow> 'u wire_lib \<Rightarrow> 'u RpcMessage list \<Rightarrow> ('q, 'b) lane \<Rightarrow> bool" where
  "lane_ok L W ms ln \<longleftrightarrow> list_all (transmittable W) ms \<and> length (ln_sent ln) < 2 ^ 64
     \<and> list_all (contiguous L) (rx_frames (ln_rx ln))"

text \<open>A message as the other side parses it.\<close>

definition received :: "'u RpcMessage \<Rightarrow> 'u RpcMessage" where
  "received m = m\<lparr>rm_cached_size := 0\<rparr>"

lemma received_sel [simp]:
  "rm_id (received m) = rm_id m" "rm_serviceid (received m) = rm_serviceid m"
  "rm_methodid (received m) = rm_methodid m" "rm_request (received m) = rm_request m"
  "rm_response (received m) = rm_response m" "rm_error (received m) = rm_error m"
  by (simp_all add: received_def)

lemma response_received [simp]: "response_to W api svc (received req) = response_to W api svc req"
  by (simp add: received_def response_same)

lemma wire_bytes_append [simp]: "wire_bytes W (ms @ ms') = wire_bytes W ms @ wire_bytes W ms'"
  by (simp add: wire_bytes_def)

lemma wire_bytes_frames: "wire_bytes W ms = concat (map wire_frame (map (SerializeWithCachedSizes W) ms))"
  by (simp add: wire_bytes_def comp_def)

lemma lane_new_sel [simp]: "ln_sent (lane_new q) = []" "ln_arrived (lane_new q) = []" "ln_read (lane_new q) = 0"
  by (simp_all add: lane_new_def)

lemma lane_inv_new: "q_bytes L q = [] \<Longrightarrow> lane_inv L W [] (lane_new q)"
  by (simp add: lane_inv_def lane_new_def wire_bytes_def rx_reach.start)

lemma lane_inv_send:
  "\<lbrakk>lane_inv L W ms ln; bs = wire_bytes W ms'\<rbrakk> \<Longrightarrow> lane_inv L W (ms @ ms') (lane_send bs ln)"
  by (auto simp: lane_inv_def lane_send_def)

lemma rx_apply_frames: "\<exists>fs. rx_frames (rx_apply s r) = rx_frames s @ fs"
  by (auto simp: rx_apply_def split: decode_out.split)

lemma lane_inv_step: "\<lbrakk>lane_step L ln ln'; lane_inv L W ms ln\<rbrakk> \<Longrightarrow> lane_inv L W ms ln'"
proof (induction rule: lane_step.induct)
  case (arrive ln chunk q)
  then show ?case by (auto simp: lane_inv_def intro: rx_reach.arrive)
next
  case (decode ln r)
  then show ?case
    using rx_apply_frames [of "ln_rx ln" r] by (auto simp: lane_inv_def intro: rx_reach.call)
qed

lemma lane_inv_advance: "\<lbrakk>lane_inv L W ms ln; lane_next ln = Some b\<rbrakk> \<Longrightarrow> lane_inv L W ms (lane_advance ln)"
  by (auto simp: lane_inv_def lane_next_def lane_advance_def split: if_splits)

text \<open>A direction that can carry its messages could before every step.\<close>

lemma lane_ok_step:
  assumes "lane_step L ln ln'" shows "lane_ok L W ms ln' \<Longrightarrow> lane_ok L W ms ln"
  using assms
proof (induction rule: lane_step.induct)
  case (decode ln r)
  then show ?case using rx_apply_frames [of "ln_rx ln" r] by (auto simp: lane_ok_def)
qed (auto simp: lane_ok_def)

lemma lane_ok_send: "lane_ok L W (ms @ ms') (lane_send bs ln) \<Longrightarrow> lane_ok L W ms ln"
  by (auto simp: lane_ok_def lane_send_def)

lemma lane_ok_advance [simp]: "lane_ok L W ms (lane_advance ln) = lane_ok L W ms ln"
  by (simp add: lane_ok_def lane_advance_def)

text \<open>The stages on both ends of a direction, for buffers and messages with their laws.\<close>

locale transport = buf: iobuf L + msg: message_lite W M
  for L :: "('q, 'b, 'c) iobuf_lib" and W :: "'u wire_lib" and M :: "'u message_lib"
begin

lemma write_frame:
  assumes "transmittable W m"
  shows "pipeline_write L M m = wire_bytes W [m]"
proof -
  let ?b = "copyBuffer L (SerializeWithCachedSizes W m)"
  have b: "b_bytes L ?b = SerializeWithCachedSizes W m" by (rule buf.copyBuffer(1))
  have "length (SerializeWithCachedSizes W m) \<le> 65534"
    using assms by (simp add: transmittable_def frameable_def)
  then have "map_sum id (b_bytes L) (LengthFieldPrepender_write L rpc_prepender ?b)
      = Inr (wire_frame (SerializeWithCachedSizes W m))"
    using write_refines [OF buf.iobuf_axioms rpc_codecs(1), of ?b] b
    by (simp add: rpc_prepend_spec fits_int_def rpc_prepender_sel)
  then obtain f where "LengthFieldPrepender_write L rpc_prepender ?b = Inr f"
    "b_bytes L f = wire_frame (SerializeWithCachedSizes W m)"
    by (cases "LengthFieldPrepender_write L rpc_prepender ?b") auto
  with assms msg.handler_write_bytes [of m L] show ?thesis
    by (simp add: pipeline_write_def wire_bytes_def transmittable_def)
qed

lemma delivered:
  assumes "lane_inv L W ms ln" "lane_ok L W ms ln"
  shows "\<exists>k. map (b_bytes L) (rx_frames (ln_rx ln)) = map (SerializeWithCachedSizes W) (take k ms)
    \<and> rx_exceptions (ln_rx ln) = []"
proof -
  let ?msgs = "map (SerializeWithCachedSizes W) ms"
  from assms(1) obtain later where l: "ln_sent ln = ln_arrived ln @ later"
    "ln_arrived ln @ later = concat (map wire_frame ?msgs)"
    unfolding lane_inv_def wire_bytes_frames prefix_def by metis
  have "list_all frameable ?msgs" using assms(2) by (auto simp: lane_ok_def list_all_iff transmittable_def)
  moreover have "length (ln_arrived ln) < 2 ^ 64" using assms(2) l(1) by (simp add: lane_ok_def)
  ultimately have "rx_inv L ?msgs (ln_arrived ln) (ln_rx ln)"
    using assms(1) by (intro rx_reach_inv [OF _ buf.iobuf_axioms _ l(2)]) (simp_all add: lane_inv_def)
  then obtain "done" todo where "?msgs = done @ todo" "map (b_bytes L) (rx_frames (ln_rx ln)) = done"
    "rx_exceptions (ln_rx ln) = []"
    by (auto simp: rx_inv_def)
  then show ?thesis by (intro exI [of _ "length done"]) (metis append_eq_conv_conj take_map)
qed

lemma read_next:
  assumes "lane_inv L W ms ln" "lane_ok L W ms ln" "lane_next ln = Some b"
  shows "ln_read ln < length ms \<and> handler_read L W M b = [FireRead (received (ms ! ln_read ln))]"
proof -
  obtain k where k: "map (b_bytes L) (rx_frames (ln_rx ln)) = map (SerializeWithCachedSizes W) (take k ms)"
    using delivered [OF assms(1,2)] by blast
  let ?i = "ln_read ln"
  from assms(3) have i: "?i < length (rx_frames (ln_rx ln))" "b = rx_frames (ln_rx ln) ! ?i"
    by (auto simp: lane_next_def split: if_splits)
  have len: "length (rx_frames (ln_rx ln)) = length (take k ms)"
    using arg_cong [OF k, of length] by simp
  with i have ms: "?i < length ms" by simp
  have "b_bytes L b = SerializeWithCachedSizes W (ms ! ?i)"
    using arg_cong [OF k, of "\<lambda>xs. xs ! ?i"] i len by simp
  moreover have "contiguous L b" "sendable W (ms ! ?i)"
    using assms(2) i ms by (auto simp: lane_ok_def list_all_length transmittable_def)
  ultimately show ?thesis
    using read_contiguous [OF msg.message_lite_axioms] ms by (simp add: received_def)
qed

lemma read_bound:
  assumes "lane_inv L W ms ln" "lane_ok L W ms ln"
  shows "ln_read ln \<le> length ms"
proof -
  obtain k where "map (b_bytes L) (rx_frames (ln_rx ln)) = map (SerializeWithCachedSizes W) (take k ms)"
    using delivered [OF assms] by blast
  then have "length (rx_frames (ln_rx ln)) = length (take k ms)" by (metis length_map)
  with assms(1) show ?thesis by (simp add: lane_inv_def)
qed

text \<open>An idle direction has delivered everything.\<close>

lemma idle_delivered:
  assumes "lane_inv L W ms ln" "lane_ok L W ms ln" "lane_idle L ln"
  shows "ln_read ln = length ms"
proof -
  let ?msgs = "map (SerializeWithCachedSizes W) ms"
  obtain q where q: "decode L rpc_decoder (rx_queue (ln_rx ln)) = Inr (q, ReturnFalse)"
    using assms(3) by (auto simp: lane_idle_def)
  have "list_all frameable ?msgs" using assms(2) by (auto simp: lane_ok_def list_all_iff transmittable_def)
  moreover have "rx_reach L rpc_decoder (concat (map wire_frame ?msgs)) (ln_rx ln)"
    "length (concat (map wire_frame ?msgs)) < 2 ^ 64"
    using assms unfolding wire_bytes_frames [symmetric] by (simp_all add: lane_inv_def lane_idle_def lane_ok_def)
  ultimately have "map (b_bytes L) (rx_frames (ln_rx ln)) = ?msgs"
    using all_delivered [OF buf.iobuf_axioms _ _ _ q] by blast
  then have "length (rx_frames (ln_rx ln)) = length ms" by (metis length_map)
  then show ?thesis using assms(1,3) by (auto simp: lane_inv_def lane_idle_def lane_next_def split: if_splits)
qed

end

interpretation chain_transport: transport chain_lib varint_lib "generated_message_lib varint_lib" ..

section \<open>What a client's history leaves behind\<close>

lemma call_written:
  assumes "dispatcher_call W T arg s = Inr s'"
  shows "(cl_written s' = cl_written s \<and> cl_result s' (cl_calls s) \<noteq> None \<and> cl_timer s' = cl_timer s)
    \<or> (cl_written s' = cl_written s @ [arg] \<and> (\<exists>t. cl_timer s' = (cl_timer s)(cl_calls s \<mapsto> t)))"
  using call_form [OF assms, of "cl_calls s"] by (auto simp: finish_def call_begin_def)

lemma call_old:
  assumes "dispatcher_call W T arg s = Inr s'" "q < cl_calls s"
  shows "cl_arg s' q = cl_arg s q" "cl_result s' q = cl_result s q" "cl_value s' q = cl_value s q"
    "cl_timer s' q = cl_timer s q"
  using call_changes [OF assms(1)] call_written [OF assms(1)] assms(2) by auto

text \<open>Only requests written have timers, and only they get values; the value of a promise is the
  result of its call, and has its id.\<close>

definition values_right :: "('h, 'u) client \<Rightarrow> bool" where
  "values_right s \<longleftrightarrow> (\<forall>p. cl_timer s p \<noteq> None \<longrightarrow> cl_arg s p \<in> set (cl_written s))
     \<and> (\<forall>p m. cl_value s p = Some m \<longrightarrow> cl_timer s p \<noteq> None \<and> cl_result s p = Some m \<and> rm_id m = rm_id (cl_arg s p))"

lemma values_rightD:
  assumes "values_right s"
  shows "cl_timer s p \<noteq> None \<Longrightarrow> cl_arg s p \<in> set (cl_written s)"
    "cl_value s p = Some m \<Longrightarrow> cl_timer s p \<noteq> None \<and> cl_result s p = Some m \<and> rm_id m = rm_id (cl_arg s p)"
  using assms by (auto simp: values_right_def)

context promise_map
begin

lemma values_call:
  assumes inv: "client_inv W T lim t s" and v: "values_right s" and c: "dispatcher_call W T arg s = Inr s'"
  shows "values_right s'"
  unfolding values_right_def
proof (intro conjI allI impI)
  note ch = call_changes [OF c]
  fix p assume "cl_timer s' p \<noteq> None"
  moreover have "cl_timer s (cl_calls s) = None" using client_invD(4) [OF inv] less_irrefl by blast
  ultimately show "cl_arg s' p \<in> set (cl_written s')"
    using call_written [OF c] values_rightD(1) [OF v, of p] ch(5) by (cases "p = cl_calls s") auto
next
  fix p m assume "cl_value s' p = Some m"
  then have m: "cl_value s p = Some m" using call_changes(1) [OF c] by simp
  with client_invD(2,5) [OF inv] have p: "p < cl_calls s" by blast
  from values_rightD(2) [OF v m] call_old [OF c p]
  show "cl_timer s' p \<noteq> None" "cl_result s' p = Some m" "rm_id m = rm_id (cl_arg s' p)" by simp_all
qed

lemma values_read:
  assumes inv: "client_inv W T lim t s" and v: "values_right s" and r: "dispatcher_read T m s = Inr s'"
  shows "values_right s'"
proof (cases "client_entries T s (rm_id m)")
  case None
  with read_unknown [of s m] r v show ?thesis by simp
next
  case (Some p)
  then have "pending s p" "rm_id (cl_arg s p) = rm_id m" using client_invD(1) [OF inv] by blast+
  with client_invD(3) [OF inv] read_known [OF inv Some] r v show ?thesis by (auto simp: values_right_def)
qed

lemma reach_values: "client_reach W T lim t s \<Longrightarrow> values_right s"
proof (induction rule: client_reach.induct)
  case (start pl)
  show ?case by (simp add: values_right_def client_new_def)
next
  case (connected s p)
  then show ?case by (simp add: values_right_def setPipeline_def)
next
  case (call s arg s')
  then show ?case by (blast intro: values_call reach_inv)
next
  case (read s m s')
  then show ?case by (blast intro: values_read reach_inv)
next
  case (timeout s p)
  from timeout.IH timeout.hyps(3) show ?case
    by (auto simp: values_right_def timeout_sel timeout_written)
next
  case (eof s s')
  then show ?case by (auto simp: values_right_def dispatcher_readEOF_def split: sum.splits)
qed

end

section \<open>The connection\<close>

text \<open>The client and its requests on their way up, the requests the service threads are busy with, the
  server, the calls it has answered and its responses on their way down.\<close>

record ('h, 'u, 'q, 'b, 's, 'd, 'p) connection =
  cn_client :: "('h, 'u) client"
  cn_up :: "('q, 'b) lane"
  cn_work :: "'u RpcMessage list"
  cn_server :: "('s, 'd, 'p) pbRPCServer"
  cn_done :: "('u RpcMessage \<times> 'u RpcMessage) list"
  cn_down :: "('q, 'b) lane"

text \<open>The bytes of the messages a call has added to those the client had written.\<close>

definition written_bytes ::
    "('q, 'b, 'c) iobuf_lib \<Rightarrow> 'u message_lib \<Rightarrow> ('h, 'u) client \<Rightarrow> ('h, 'u) client \<Rightarrow> byte list" where
  "written_bytes L M s s' = concat (map (pipeline_write L M) (drop (length (cl_written s)) (cl_written s')))"

text \<open>A client that connects a second time has a second socket; the runs here are those with one.\<close>

inductive conn_step ::
    "('q, 'b, 'c) iobuf_lib \<Rightarrow> 'u wire_lib \<Rightarrow> 'u message_lib \<Rightarrow> 'h table_lib \<Rightarrow> ('s, 'd, 'p, 'm) service_api
     \<Rightarrow> ('h, 'u, 'q, 'b, 's, 'd, 'p) connection \<Rightarrow> ('h, 'u, 'q, 'b, 's, 'd, 'p) connection \<Rightarrow> bool"
  for L W M T api where
  connect: "conn_step L W M T api c (c\<lparr>cn_client := setPipeline pl (cn_client c)\<rparr>)"
| call: "dispatcher_call W T arg (cn_client c) = Inr s \<Longrightarrow>
    conn_step L W M T api c (c\<lparr>cn_client := s, cn_up := lane_send (written_bytes L M (cn_client c) s) (cn_up c)\<rparr>)"
| up: "lane_step L (cn_up c) ln \<Longrightarrow> conn_step L W M T api c (c\<lparr>cn_up := ln\<rparr>)"
| serve: "\<lbrakk>lane_next (cn_up c) = Some b; handler_read L W M b = [FireRead req]\<rbrakk> \<Longrightarrow>
    conn_step L W M T api c (c\<lparr>cn_up := lane_advance (cn_up c), cn_work := cn_work c @ [req]\<rparr>)"
| answer: "\<lbrakk>cn_work c = ws @ req # ws'; RpcMsgService_call W api req (cn_server c) = Inr (res, srv)\<rbrakk> \<Longrightarrow>
    conn_step L W M T api c (c\<lparr>cn_work := ws @ ws', cn_server := srv, cn_done := cn_done c @ [(req, res)],
      cn_down := lane_send (concat (map (pipeline_write L M) (multiplex_callback (Inr res)))) (cn_down c)\<rparr>)"
| down: "lane_step L (cn_down c) ln \<Longrightarrow> conn_step L W M T api c (c\<lparr>cn_down := ln\<rparr>)"
| receive: "\<lbrakk>lane_next (cn_down c) = Some b; handler_read L W M b = [FireRead m];
    dispatcher_read T m (cn_client c) = Inr s\<rbrakk> \<Longrightarrow>
    conn_step L W M T api c (c\<lparr>cn_down := lane_advance (cn_down c), cn_client := s\<rparr>)"
| timeout: "\<lbrakk>cl_timer (cn_client c) p \<noteq> None; cl_result (cn_client c) p = None\<rbrakk> \<Longrightarrow>
    conn_step L W M T api c (c\<lparr>cn_client := dispatcher_timeout W T p (cn_client c)\<rparr>)"

inductive conn_reach ::
    "('q, 'b, 'c) iobuf_lib \<Rightarrow> 'u wire_lib \<Rightarrow> 'u message_lib \<Rightarrow> 'h table_lib \<Rightarrow> ('s, 'd, 'p, 'm) service_api
     \<Rightarrow> 's list \<Rightarrow> u64 \<Rightarrow> u32 \<Rightarrow> ('h, 'u, 'q, 'b, 's, 'd, 'p) connection \<Rightarrow> bool"
  for L W M T api svcs lim t where
  start: "\<lbrakk>server_reach W api svcs n srv; q_bytes L q = []; q_bytes L q' = []\<rbrakk> \<Longrightarrow>
    conn_reach L W M T api svcs lim t
      \<lparr>cn_client = client_new W (MultiplexClientDispatcher_new T lim t pl),
       cn_up = lane_new q, cn_work = [], cn_server = srv, cn_done = [], cn_down = lane_new q'\<rparr>"
| step: "\<lbrakk>conn_reach L W M T api svcs lim t c; conn_step L W M T api c c'\<rbrakk> \<Longrightarrow>
    conn_reach L W M T api svcs lim t c'"

text \<open>What the properties ask of a run: messages of at most 65534 bytes, fewer than \<open>2 ^ 64\<close> bytes in
  each direction, every frame in one buffer (\<open>link_ok\<close>), and requests with different ids.\<close>

definition link_ok ::
    "('q, 'b, 'c) iobuf_lib \<Rightarrow> 'u wire_lib \<Rightarrow> ('h, 'u, 'q, 'b, 's, 'd, 'p) connection \<Rightarrow> bool" where
  "link_ok L W c \<longleftrightarrow> lane_ok L W (cl_written (cn_client c)) (cn_up c) \<and> lane_ok L W (map snd (cn_done c)) (cn_down c)"

definition conn_ok ::
    "('q, 'b, 'c) iobuf_lib \<Rightarrow> 'u wire_lib \<Rightarrow> ('h, 'u, 'q, 'b, 's, 'd, 'p) connection \<Rightarrow> bool" where
  "conn_ok L W c \<longleftrightarrow> link_ok L W c \<and> distinct (map rm_id (cl_written (cn_client c)))"

text \<open>The answer of the server to a request.\<close>

definition served ::
    "'u wire_lib \<Rightarrow> ('s, 'd, 'p, 'm) service_api \<Rightarrow> 's list \<Rightarrow> 'u RpcMessage \<Rightarrow> 'u RpcMessage \<Rightarrow> bool" where
  "served W api svcs req res \<longleftrightarrow> (\<exists>svc. last_registered api svcs (rm_serviceid req) = Some svc
     \<and> unat (rm_methodid req) < method_count api svc \<and> res = response_to W api svc req)"

definition conn_inv ::
    "('q, 'b, 'c) iobuf_lib \<Rightarrow> 'u wire_lib \<Rightarrow> 'h table_lib \<Rightarrow> ('s, 'd, 'p, 'm) service_api
     \<Rightarrow> 's list \<Rightarrow> u64 \<Rightarrow> u32 \<Rightarrow> ('h, 'u, 'q, 'b, 's, 'd, 'p) connection \<Rightarrow> bool" where
  "conn_inv L W T api svcs lim t c \<longleftrightarrow> client_reach W T lim t (cn_client c) \<and> (\<exists>n. server_reach W api svcs n (cn_server c))
     \<and> lane_inv L W (cl_written (cn_client c)) (cn_up c) \<and> lane_inv L W (map snd (cn_done c)) (cn_down c)
     \<and> (\<forall>(req, res) \<in> set (cn_done c). served W api svcs req res)
     \<and> mset (map fst (cn_done c)) + mset (cn_work c)
         = mset (map received (take (ln_read (cn_up c)) (cl_written (cn_client c))))
     \<and> (\<forall>p m. cl_value (cn_client c) p = Some m \<longrightarrow> m \<in> received ` snd ` set (cn_done c))
     \<and> (\<forall>p. pending (cn_client c) p \<longrightarrow>
          rm_id (cl_arg (cn_client c) p) \<notin> rm_id ` snd ` set (take (ln_read (cn_down c)) (cn_done c)))"

lemma conn_invI:
  assumes "client_reach W T lim t (cn_client c)" "\<exists>n. server_reach W api svcs n (cn_server c)"
    "lane_inv L W (cl_written (cn_client c)) (cn_up c)" "lane_inv L W (map snd (cn_done c)) (cn_down c)"
    "\<And>req res. (req, res) \<in> set (cn_done c) \<Longrightarrow> served W api svcs req res"
    "mset (map fst (cn_done c)) + mset (cn_work c)
       = mset (map received (take (ln_read (cn_up c)) (cl_written (cn_client c))))"
    "\<And>p m. cl_value (cn_client c) p = Some m \<Longrightarrow> m \<in> received ` snd ` set (cn_done c)"
    "\<And>p. pending (cn_client c) p \<Longrightarrow>
       rm_id (cl_arg (cn_client c) p) \<notin> rm_id ` snd ` set (take (ln_read (cn_down c)) (cn_done c))"
  shows "conn_inv L W T api svcs lim t c"
  unfolding conn_inv_def using assms by blast

lemma conn_invD:
  assumes "conn_inv L W T api svcs lim t c"
  shows "client_reach W T lim t (cn_client c)" "\<exists>n. server_reach W api svcs n (cn_server c)"
    "lane_inv L W (cl_written (cn_client c)) (cn_up c)" "lane_inv L W (map snd (cn_done c)) (cn_down c)"
    "(req, res) \<in> set (cn_done c) \<Longrightarrow> served W api svcs req res"
    "mset (map fst (cn_done c)) + mset (cn_work c)
       = mset (map received (take (ln_read (cn_up c)) (cl_written (cn_client c))))"
    "cl_value (cn_client c) p = Some m \<Longrightarrow> m \<in> received ` snd ` set (cn_done c)"
    "pending (cn_client c) p \<Longrightarrow>
       rm_id (cl_arg (cn_client c) p) \<notin> rm_id ` snd ` set (take (ln_read (cn_down c)) (cn_done c))"
  using assms unfolding conn_inv_def by blast+

lemma served_id: "served W api svcs req res \<Longrightarrow> rm_id res = rm_id req"
  by (auto simp: served_def response_to_def)

lemma read_written: "dispatcher_read T m s = Inr s' \<Longrightarrow> cl_written s' = cl_written s"
  by (auto simp: dispatcher_read_def setValue_def Let_def finish_def split: option.splits if_splits)

text \<open>A run that is well behaved now was so before each step.\<close>

lemma link_ok_step:
  assumes "conn_step L W M T api c c'" "link_ok L W c'"
  shows "link_ok L W c"
  using assms
proof (induction rule: conn_step.induct)
  case (call arg c s)
  from call_written [OF call.hyps] obtain ms where "cl_written s = cl_written (cn_client c) @ ms"
    by (metis append_Nil2)
  with call.prems show ?case by (auto simp: link_ok_def dest: lane_ok_send)
next
  case (up c ln)
  then show ?case by (auto simp: link_ok_def dest: lane_ok_step)
next
  case (answer c ws req ws' res srv)
  then show ?case by (auto simp: link_ok_def dest: lane_ok_send)
next
  case (down c ln)
  then show ?case by (auto simp: link_ok_def dest: lane_ok_step)
next
  case (receive c b m s)
  from receive.prems read_written [OF receive.hyps(3)] show ?case by (simp add: link_ok_def)
qed (simp_all add: link_ok_def timeout_written setPipeline_def)

lemma written_grows:
  assumes "conn_step L W M T api c c'"
  shows "\<exists>ms. cl_written (cn_client c') = cl_written (cn_client c) @ ms"
  using assms
proof cases
  case (call arg s)
  then show ?thesis using call_written [of W T arg "cn_client c" s] by auto
next
  case (receive b m s)
  then show ?thesis using read_written [of T m "cn_client c" s] by simp
qed (simp_all add: timeout_written setPipeline_def)

lemma conn_ok_step: "\<lbrakk>conn_step L W M T api c c'; conn_ok L W c'\<rbrakk> \<Longrightarrow> conn_ok L W c"
  using written_grows [of L W M T api c c'] by (auto simp: conn_ok_def link_ok_step)

text \<open>The invariant under each step, for libraries with their laws.\<close>

locale rpc_connection = transport L W M + promise_map T
  for L :: "('q, 'b, 'c) iobuf_lib" and W :: "'u wire_lib" and M :: "'u message_lib" and T :: "'h table_lib"
begin

lemma write_frames: "list_all (transmittable W) ms \<Longrightarrow> concat (map (pipeline_write L M) ms) = wire_bytes W ms"
  by (induction ms) (simp_all add: write_frame, simp_all add: wire_bytes_def)

lemma done_ids:
  assumes "conn_inv L W T api svcs lim t c" "(req, res) \<in> set (cn_done c)"
  shows "\<exists>w \<in> set (cl_written (cn_client c)). req = received w \<and> served W api svcs w res"
proof -
  note i = conn_invD [OF assms(1)]
  have "req \<in># mset (map fst (cn_done c)) + mset (cn_work c)" using assms(2) by force
  then have "req \<in> set (map received (take (ln_read (cn_up c)) (cl_written (cn_client c))))"
    unfolding i(6) by simp
  then obtain w where "w \<in> set (cl_written (cn_client c))" "req = received w" using set_take_subset by fastforce
  with i(5) [OF assms(2)] show ?thesis by (auto simp: served_def)
qed

lemma inv_call:
  assumes inv: "conn_inv L W T api svcs lim t c" and call: "dispatcher_call W T arg (cn_client c) = Inr s"
    and ok: "conn_ok L W (c\<lparr>cn_client := s, cn_up := lane_send (written_bytes L M (cn_client c) s) (cn_up c)\<rparr>)"
  shows "conn_inv L W T api svcs lim t
    (c\<lparr>cn_client := s, cn_up := lane_send (written_bytes L M (cn_client c) s) (cn_up c)\<rparr>)"
    (is "conn_inv L W T api svcs lim t ?c")
proof -
  note i = conn_invD [OF inv] and ch = call_changes [OF call]
  let ?s = "cn_client c"
  obtain ms where ms: "cl_written s = cl_written ?s @ ms"
    and new: "ms = [arg] \<or> ms = [] \<and> cl_result s (cl_calls ?s) \<noteq> None"
    using call_written [OF call] by (metis append_Nil2)
  have "list_all (transmittable W) ms" using ok ms by (simp add: conn_ok_def link_ok_def lane_ok_def)
  then have bytes: "written_bytes L M ?s s = wire_bytes W ms" by (simp add: written_bytes_def ms write_frames)
  have up: "ln_read (cn_up c) \<le> length (cl_written ?s)"
    using ok ms by (intro read_bound [OF i(3)]) (auto simp: conn_ok_def link_ok_def dest: lane_ok_send)
  show ?thesis
  proof (rule conn_invI)
    show "client_reach W T lim t (cn_client ?c)" using client_reach.call [OF i(1) call] by simp
    show "lane_inv L W (cl_written (cn_client ?c)) (cn_up ?c)"
      using lane_inv_send [OF i(3) refl, of ms] by (simp add: ms bytes)
    show "mset (map fst (cn_done ?c)) + mset (cn_work ?c)
        = mset (map received (take (ln_read (cn_up ?c)) (cl_written (cn_client ?c))))"
      using i(6) up by (simp add: ms lane_send_def)
    show "m \<in> received ` snd ` set (cn_done ?c)" if "cl_value (cn_client ?c) p = Some m" for p m
      using i(7) that by (simp add: ch)
  next
    fix p assume p: "pending (cn_client ?c) p"
    show "rm_id (cl_arg (cn_client ?c) p) \<notin> rm_id ` snd ` set (take (ln_read (cn_down ?c)) (cn_done ?c))"
    proof (cases "p = cl_calls ?s")
      case True
      with p new have m: "ms = [arg]" by (auto simp: pending_def)
      with ok ms have "rm_id arg \<notin> rm_id ` set (cl_written ?s)" by (auto simp: conn_ok_def link_ok_def)
      then have "rm_id arg \<noteq> rm_id res" if "(req, res) \<in> set (cn_done c)" for req res
        using done_ids [OF inv that] by (auto dest!: served_id)
      then have "rm_id arg \<notin> rm_id ` snd ` set (cn_done c)" by force
      then show ?thesis using True by (auto simp: ch dest!: in_set_takeD)
    next
      case False
      with p ch(4) have "p < cl_calls ?s" by (simp add: pending_def)
      with p call_old [OF call this] i(8) [of p] show ?thesis by (simp add: pending_def)
    qed
  qed (use i in simp_all)
qed

lemma inv_lanes:
  assumes inv: "conn_inv L W T api svcs lim t c"
  shows "lane_step L (cn_up c) ln \<Longrightarrow> conn_inv L W T api svcs lim t (c\<lparr>cn_up := ln\<rparr>)"
    and "lane_step L (cn_down c) ln \<Longrightarrow> conn_inv L W T api svcs lim t (c\<lparr>cn_down := ln\<rparr>)"
proof -
  have r: "ln_read ln' = ln_read ln" if "lane_step L ln ln'" for ln ln' :: "('q, 'b) lane"
    using that by (induction rule: lane_step.induct) simp_all
  note i = conn_invD [OF inv]
  show "conn_inv L W T api svcs lim t (c\<lparr>cn_up := ln\<rparr>)" if "lane_step L (cn_up c) ln"
    using i r [OF that] lane_inv_step [OF that i(3)] by (intro conn_invI) simp_all
  show "conn_inv L W T api svcs lim t (c\<lparr>cn_down := ln\<rparr>)" if "lane_step L (cn_down c) ln"
    using i r [OF that] lane_inv_step [OF that i(4)] by (intro conn_invI) simp_all
qed

lemma inv_serve:
  assumes inv: "conn_inv L W T api svcs lim t c" and ok: "conn_ok L W c"
    and b: "lane_next (cn_up c) = Some b" "handler_read L W M b = [FireRead req]"
  shows "conn_inv L W T api svcs lim t (c\<lparr>cn_up := lane_advance (cn_up c), cn_work := cn_work c @ [req]\<rparr>)"
proof -
  note i = conn_invD [OF inv]
  have "ln_read (cn_up c) < length (cl_written (cn_client c))"
    "req = received (cl_written (cn_client c) ! ln_read (cn_up c))"
    using read_next [OF i(3) _ b(1)] ok b(2) by (auto simp: conn_ok_def link_ok_def)
  then have "mset (map fst (cn_done c)) + mset (cn_work c @ [req])
      = mset (map received (take (Suc (ln_read (cn_up c))) (cl_written (cn_client c))))"
    using i(6) by (simp add: take_Suc_conv_app_nth)
  with i lane_inv_advance [OF i(3) b(1)] show ?thesis by (intro conn_invI) (simp_all add: lane_advance_def)
qed

lemma inv_answer:
  assumes inv: "conn_inv L W T api svcs lim t c" and w: "cn_work c = ws @ req # ws'"
    and call: "RpcMsgService_call W api req (cn_server c) = Inr (res, srv)"
    and ok: "conn_ok L W (c\<lparr>cn_work := ws @ ws', cn_server := srv, cn_done := cn_done c @ [(req, res)],
      cn_down := lane_send (concat (map (pipeline_write L M) (multiplex_callback (Inr res)))) (cn_down c)\<rparr>)"
  shows "conn_inv L W T api svcs lim t (c\<lparr>cn_work := ws @ ws', cn_server := srv, cn_done := cn_done c @ [(req, res)],
      cn_down := lane_send (concat (map (pipeline_write L M) (multiplex_callback (Inr res)))) (cn_down c)\<rparr>)"
    (is "conn_inv L W T api svcs lim t ?c")
proof -
  note i = conn_invD [OF inv]
  obtain n where n: "server_reach W api svcs n (cn_server c)" using i(2) by blast
  have res: "served W api svcs req res"
    using call server_call [OF conjunct1 [OF server_reach_inv [OF n]], of W req]
    by (auto simp: served_def response_to_def split: option.splits if_splits)
  have down: "ln_read (cn_down c) \<le> length (map snd (cn_done c))"
    using ok by (intro read_bound [OF i(4)]) (auto simp: conn_ok_def link_ok_def dest: lane_ok_send)
  have "transmittable W res" using ok by (simp add: conn_ok_def link_ok_def lane_ok_def)
  then have bytes: "concat (map (pipeline_write L M) (multiplex_callback (Inr res))) = wire_bytes W [res]"
    by (simp add: multiplex_callback_def write_frame)
  show ?thesis
  proof (rule conn_invI)
    show "\<exists>n. server_reach W api svcs n (cn_server ?c)" using server_reach.call [OF n call] by auto
    show "lane_inv L W (map snd (cn_done ?c)) (cn_down ?c)"
      using lane_inv_send [OF i(4) bytes] by simp
    show "served W api svcs req' res'" if "(req', res') \<in> set (cn_done ?c)" for req' res'
      using that res i(5) by auto
    show "mset (map fst (cn_done ?c)) + mset (cn_work ?c)
        = mset (map received (take (ln_read (cn_up ?c)) (cl_written (cn_client ?c))))"
      using i(6) w by simp
    show "m \<in> received ` snd ` set (cn_done ?c)" if "cl_value (cn_client ?c) p = Some m" for p m
      using i(7) that by auto
    show "rm_id (cl_arg (cn_client ?c) p) \<notin> rm_id ` snd ` set (take (ln_read (cn_down ?c)) (cn_done ?c))"
      if "pending (cn_client ?c) p" for p
      using i(8) that down by (simp add: lane_send_def)
  qed (use i in simp_all)
qed

lemma received_done:
  assumes inv: "conn_inv L W T api svcs lim t c" and ok: "conn_ok L W c"
    and b: "lane_next (cn_down c) = Some b" "handler_read L W M b = [FireRead m]"
  shows "ln_read (cn_down c) < length (cn_done c)" "m = received (snd (cn_done c ! ln_read (cn_down c)))"
  using read_next [OF conn_invD(4) [OF inv] _ b(1)] ok b(2) by (auto simp: conn_ok_def link_ok_def)

lemma inv_receive:
  assumes inv: "conn_inv L W T api svcs lim t c" and ok: "conn_ok L W c"
    and b: "lane_next (cn_down c) = Some b" "handler_read L W M b = [FireRead m]"
    and r: "dispatcher_read T m (cn_client c) = Inr s"
  shows "conn_inv L W T api svcs lim t (c\<lparr>cn_down := lane_advance (cn_down c), cn_client := s\<rparr>)"
    (is "conn_inv L W T api svcs lim t ?c")
proof -
  note i = conn_invD [OF inv]
  let ?s = "cn_client c" let ?k = "ln_read (cn_down c)"
  have ci: "client_inv W T lim t ?s" by (rule reach_inv [OF i(1)])
  have k: "?k < length (cn_done c)" and m: "m = received (snd (cn_done c ! ?k))"
    by (rule received_done [OF inv ok b])+
  have new: "m \<in> received ` snd ` set (cn_done c)" using k m by auto
  have took: "set (take (Suc ?k) (cn_done c)) = insert (cn_done c ! ?k) (set (take ?k (cn_done c)))"
    using k by (simp add: take_Suc_conv_app_nth)
  have s: "cl_arg s = cl_arg ?s \<and> cl_written s = cl_written ?s
    \<and> (\<forall>p m'. cl_value s p = Some m' \<longrightarrow> m' = m \<or> cl_value ?s p = Some m')
    \<and> (\<forall>p. pending s p \<longrightarrow> pending ?s p \<and> rm_id (cl_arg ?s p) \<noteq> rm_id m)"
  proof (cases "client_entries T ?s (rm_id m)")
    case None
    with read_unknown [of ?s m] r client_invD(1) [OF ci] show ?thesis by force
  next
    case (Some q)
    then have "p = q" if "pending ?s p" "rm_id (cl_arg ?s p) = rm_id m" for p
      using client_invD(1) [OF ci, of "rm_id m" p] that by simp
    with read_known [OF ci Some] r show ?thesis by (auto simp: pending_def split: if_splits)
  qed
  show ?thesis
  proof (rule conn_invI)
    show "client_reach W T lim t (cn_client ?c)" using client_reach.read [OF i(1) r] by simp
    show "lane_inv L W (map snd (cn_done ?c)) (cn_down ?c)" using lane_inv_advance [OF i(4) b(1)] by simp
    show "m' \<in> received ` snd ` set (cn_done ?c)" if "cl_value (cn_client ?c) p = Some m'" for p m'
    proof -
      have "m' = m \<or> cl_value ?s p = Some m'" using s that by auto
      with new i(7) show ?thesis by auto
    qed
    show "rm_id (cl_arg (cn_client ?c) p) \<notin> rm_id ` snd ` set (take (ln_read (cn_down ?c)) (cn_done ?c))"
      if "pending (cn_client ?c) p" for p
      using i(8) [of p] s that m by (auto simp: lane_advance_def took)
  qed (use i s in simp_all)
qed

lemma inv_timeout:
  assumes inv: "conn_inv L W T api svcs lim t c" and p: "cl_timer (cn_client c) p \<noteq> None" "cl_result (cn_client c) p = None"
  shows "conn_inv L W T api svcs lim t (c\<lparr>cn_client := dispatcher_timeout W T p (cn_client c)\<rparr>)"
proof -
  note i = conn_invD [OF inv]
  have "pending (dispatcher_timeout W T p (cn_client c)) q \<Longrightarrow> pending (cn_client c) q" for q
    by (simp add: pending_def timeout_sel split: if_splits)
  with i client_reach.timeout [OF i(1) p] show ?thesis
    by (intro conn_invI) (simp_all add: timeout_sel timeout_written)
qed

lemma reach_conn_inv: "\<lbrakk>conn_reach L W M T api svcs lim t c; conn_ok L W c\<rbrakk> \<Longrightarrow> conn_inv L W T api svcs lim t c"
proof (induction rule: conn_reach.induct)
  case (start n srv q q' pl)
  have "client_reach W T lim t (client_new W (MultiplexClientDispatcher_new T lim t pl))"
    by (rule client_reach.start)
  with start show ?case
    by (intro conn_invI) (auto simp: client_new_def pending_def lane_inv_new)
next
  case (step c c')
  then have inv: "conn_inv L W T api svcs lim t c" and ok: "conn_ok L W c" by (blast intro: conn_ok_step)+
  from step.hyps(2) show ?case
  proof cases
    case (connect pl)
    with conn_invD [OF inv] client_reach.connected [OF conn_invD(1) [OF inv]] show ?thesis
      by (intro conn_invI) (simp_all add: setPipeline_def pending_def)
  next
    case (call arg s)
    then show ?thesis using inv_call [OF inv] step.prems by blast
  next
    case (up ln)
    then show ?thesis using inv_lanes(1) [OF inv] by blast
  next
    case (serve b req)
    then show ?thesis using inv_serve [OF inv ok] by blast
  next
    case (answer ws req ws' res srv)
    then show ?thesis using inv_answer [OF inv] step.prems by blast
  next
    case (down ln)
    then show ?thesis using inv_lanes(2) [OF inv] by blast
  next
    case (receive b m s)
    then show ?thesis using inv_receive [OF inv ok] by blast
  next
    case (timeout p)
    then show ?thesis using inv_timeout [OF inv] by blast
  qed
qed

end

context rpc_connection
begin

text \<open>A value comes from the answer to the request with the id of its call, which is the call's own.\<close>

lemma value_answers:
  assumes "conn_reach L W M T api svcs lim t c" "conn_ok L W c" "cl_value (cn_client c) p = Some m"
  shows "\<exists>svc. last_registered api svcs (rm_serviceid (cl_arg (cn_client c) p)) = Some svc
    \<and> cl_result (cn_client c) p = Some m \<and> m = received (response_to W api svc (cl_arg (cn_client c) p))"
proof -
  note inv = reach_conn_inv [OF assms(1,2)]
  note v = values_rightD [OF reach_values [OF conn_invD(1) [OF inv]]]
  obtain req res where m: "m = received res" "(req, res) \<in> set (cn_done c)"
    using conn_invD(7) [OF inv assms(3)] by auto
  obtain w where w: "w \<in> set (cl_written (cn_client c))" "req = received w" "served W api svcs w res"
    using done_ids [OF inv m(2)] by blast
  have "cl_arg (cn_client c) p \<in> set (cl_written (cn_client c))" "rm_id (cl_arg (cn_client c) p) = rm_id w"
    using v(2) [OF assms(3)] v(1) [of p] served_id [OF w(3)] m(1) by auto
  then have "cl_arg (cn_client c) p = w"
    using assms(2) w(1) by (auto simp: conn_ok_def link_ok_def distinct_map dest: inj_onD)
  with w(3) m(1) v(2) [OF assms(3)] show ?thesis by (auto simp: served_def)
qed

end

interpretation chain_connection: rpc_connection chain_lib varint_lib "generated_message_lib varint_lib" alist_table ..

text \<open>One call over a connection, step by step.\<close>

lemma request_bytes: "SerializeWithCachedSizes varint_lib sample_request = [8, 1, 16, 0, 24, 77, 32, 1, 42, 1, 8]"
  by code_simp

lemma response_bytes:
  "SerializeWithCachedSizes varint_lib (response_to varint_lib echo_api 77 sample_request)
    = [8, 2, 16, 0, 24, 77, 32, 1, 50, 2, 1, 8, 56, 0]"
  by code_simp

lemma sample_request_sel:
  "rm_methodid sample_request = 1" "rm_serviceid sample_request = 77" "rm_request sample_request = [8]"
  "rm_id sample_request = 0" "rm_response sample_request = []"
  "rm_internal_metadata sample_request = no_unknown_fields varint_lib"
  by (simp_all add: sample_request_def rpc_accessors RpcMessage_new_def)

lemma echo_reply: "reply echo_api 77 (Suc 0) [8] = [1, 8]"
  by (simp add: reply_def echo_api_def Let_def)

lemma call_transmittable:
  "transmittable varint_lib sample_request"
  "transmittable varint_lib (response_to varint_lib echo_api 77 sample_request)"
proof -
  show "transmittable varint_lib sample_request"
    by (simp add: transmittable_def sendable_def frameable_def request_bytes sample_request_sel)
      (simp add: sample_request_def setters_wf)
  show "transmittable varint_lib (response_to varint_lib echo_api 77 sample_request)"
    by (simp add: transmittable_def frameable_def response_bytes response_sendable sample_request_sel echo_reply)
qed

text \<open>A frame sent over an idle direction arrives in one chunk and is cut out.\<close>

lemma lane_run:
  assumes "ln = \<lparr>ln_sent = bs, ln_arrived = [], ln_rx = \<lparr>rx_queue = [], rx_frames = [], rx_exceptions = []\<rparr>, ln_read = 0\<rparr>"
    and "decode chain_lib rpc_decoder [bs] = Inr ([], ReturnTrue [f])"
    and "ln2 = \<lparr>ln_sent = bs, ln_arrived = bs, ln_rx = \<lparr>rx_queue = [], rx_frames = [[f]], rx_exceptions = []\<rparr>, ln_read = 0\<rparr>"
  shows "\<exists>ln1. lane_step chain_lib ln ln1 \<and> lane_step chain_lib ln1 ln2"
proof -
  let ?ln1 = "ln\<lparr>ln_arrived := ln_arrived ln @ bs, ln_rx := (ln_rx ln)\<lparr>rx_queue := [bs]\<rparr>\<rparr>"
  have "lane_step chain_lib ln ?ln1" by (rule lane_step.arrive) (simp_all add: assms(1))
  moreover have "lane_step chain_lib ?ln1 (?ln1\<lparr>ln_rx := rx_apply (ln_rx ?ln1) ([], ReturnTrue [f])\<rparr>)"
    by (rule lane_step.decode) (simp add: assms(1,2))
  ultimately show ?thesis by (auto simp: assms(1,3) rx_apply_def)
qed

text \<open>One call over an idle connection, as steps of any run that allows them: its request was written, its
  bytes arrive in one chunk, it is served, and its response comes back.\<close>

lemma call_steps:
  fixes reach :: "((s64 \<times> nat) list, byte list, chain, chain, 's, 'd, 'p) connection \<Rightarrow> bool"
    and api :: "('s, 'd, 'p, 'm) service_api"
  assumes sent: "reach \<lparr>cn_client = s, cn_up = lane_send (wire_bytes varint_lib [req]) (lane_new []), cn_work = [],
      cn_server = srv, cn_done = [], cn_down = lane_new []\<rparr>"
    and step: "\<And>c c'. \<lbrakk>reach c;
      conn_step chain_lib varint_lib (generated_message_lib varint_lib) alist_table api c c';
      cl_calls (cn_client c') = cl_calls (cn_client c)\<rbrakk> \<Longrightarrow> reach c'"
    and fits: "transmittable varint_lib req" "transmittable varint_lib res"
    and frames: "decode chain_lib rpc_decoder [wire_bytes varint_lib [req]]
        = Inr ([], ReturnTrue [SerializeWithCachedSizes varint_lib req])"
      "decode chain_lib rpc_decoder [wire_bytes varint_lib [res]]
        = Inr ([], ReturnTrue [SerializeWithCachedSizes varint_lib res])"
    and serve: "RpcMsgService_call varint_lib api (received req) srv = Inr (res, srv')"
    and client: "cl_written s = [req]" "dispatcher_read alist_table (received res) s = Inr s'"
      "cl_calls s' = cl_calls s"
  obtains c where "reach c" "link_ok chain_lib varint_lib c" "cn_client c = s'" "cn_work c = []"
    "lane_idle chain_lib (cn_up c)" "lane_idle chain_lib (cn_down c)" "cn_done c = [(received req, res)]"
proof -
  let ?M = "generated_message_lib varint_lib"
  let ?lane = "\<lambda>bs as q fs n. \<lparr>ln_sent = bs, ln_arrived = as,
      ln_rx = \<lparr>rx_queue = q, rx_frames = fs, rx_exceptions = []\<rparr>, ln_read = n\<rparr> :: (chain, chain) lane"
  let ?u = "SerializeWithCachedSizes varint_lib req" and ?d = "SerializeWithCachedSizes varint_lib res"
  let ?U = "wire_bytes varint_lib [req]" and ?D = "wire_bytes varint_lib [res]"
  have idle: "decode chain_lib rpc_decoder [] = Inr ([], ReturnFalse)" by code_simp
  have read: "handler_read chain_lib varint_lib ?M [SerializeWithCachedSizes varint_lib x] = [FireRead (received x)]"
    if "transmittable varint_lib x" for x
    using read_contiguous [OF varint_message.message_lite_axioms, of x chain_lib "[SerializeWithCachedSizes varint_lib x]"]
      that by (simp add: received_def transmittable_def contiguous_def chain_head_def)
  have r1: "reach \<lparr>cn_client = s, cn_up = ?lane ?U [] [] [] 0, cn_work = [], cn_server = srv,
      cn_done = [], cn_down = lane_new []\<rparr>"
    using sent by (simp add: lane_send_def lane_new_def)
  have r2: "reach \<lparr>cn_client = s, cn_up = ?lane ?U ?U [] [[?u]] 0, cn_work = [], cn_server = srv,
      cn_done = [], cn_down = lane_new []\<rparr>"
    using lane_run [OF refl frames(1) refl] step [OF step [OF r1 conn_step.up] conn_step.up] by fastforce
  have r3: "reach \<lparr>cn_client = s, cn_up = ?lane ?U ?U [] [[?u]] 1, cn_work = [received req],
      cn_server = srv, cn_done = [], cn_down = lane_new []\<rparr>"
    using step [OF r2 conn_step.serve [OF _ read [OF fits(1)]]] by (simp add: lane_next_def lane_advance_def)
  have r4: "reach \<lparr>cn_client = s, cn_up = ?lane ?U ?U [] [[?u]] 1, cn_work = [], cn_server = srv',
      cn_done = [(received req, res)], cn_down = ?lane ?D [] [] [] 0\<rparr>"
    using step [OF r3 conn_step.answer [where ws = "[]" and ws' = "[]"
      and req = "received req" and res = res and srv = srv']] serve chain_transport.write_frame [OF fits(2)]
    by (simp add: lane_send_def lane_new_def multiplex_callback_def)
  have r5: "reach \<lparr>cn_client = s, cn_up = ?lane ?U ?U [] [[?u]] 1, cn_work = [], cn_server = srv',
      cn_done = [(received req, res)], cn_down = ?lane ?D ?D [] [[?d]] 0\<rparr>"
    using lane_run [OF refl frames(2) refl] step [OF step [OF r4 conn_step.down] conn_step.down] by fastforce
  have r6: "reach \<lparr>cn_client = s', cn_up = ?lane ?U ?U [] [[?u]] 1, cn_work = [], cn_server = srv',
      cn_done = [(received req, res)], cn_down = ?lane ?D ?D [] [[?d]] 1\<rparr>"
    using step [OF r5 conn_step.receive [OF _ read [OF fits(2)]]] client(2,3)
    by (simp add: lane_next_def lane_advance_def)
  have short: "length (wire_bytes varint_lib [x]) < 2 ^ 64" if "transmittable varint_lib x" for x
    using that by (simp add: wire_bytes_def transmittable_def frameable_def wire_frame_def be_bytes_2)
  show ?thesis
    using client(1) read_written [OF client(2)]
    by (intro that [OF r6]) (simp_all add: link_ok_def lane_ok_def fits lane_idle_def lane_next_def idle
      contiguous_def chain_head_def short del: power_numeral)
qed

lemma one_call_written:
  "cl_written (setPipeline 0 (client_new varint_lib (MultiplexClientDispatcher_new alist_table 1 100 Null))) = []"
  "cl_written one_call = [sample_request]" "cl_value one_call = (\<lambda>_. None)"
  by (simp_all add: one_call_def dispatcher_call_def call_begin_def limit_reached_def call_send_def
      setPipeline_def client_new_def MultiplexClientDispatcher_new_def alist_table_def Let_def)

definition sent_call :: "((s64 \<times> nat) list, byte list, chain, chain, nat, nat, unit) connection" where
  "sent_call = \<lparr>cn_client = one_call, cn_up = lane_send (wire_bytes varint_lib [sample_request]) (lane_new []),
     cn_work = [], cn_server = echo_server, cn_done = [], cn_down = lane_new []\<rparr>"

lemma sample_steps:
  fixes reach :: "((s64 \<times> nat) list, byte list, chain, chain, nat, nat, unit) connection \<Rightarrow> bool"
  assumes sent: "reach sent_call"
    and step: "\<And>c c'. \<lbrakk>reach c;
      conn_step chain_lib varint_lib (generated_message_lib varint_lib) alist_table echo_api c c';
      cl_calls (cn_client c') = cl_calls (cn_client c)\<rbrakk> \<Longrightarrow> reach c'"
  obtains c where "reach c"
    "conn_ok chain_lib varint_lib c" "cl_calls (cn_client c) = 1" "cl_arg (cn_client c) 0 = sample_request"
    "cl_value (cn_client c) 0 = Some (received (response_to varint_lib echo_api 77 sample_request))"
    "lane_idle chain_lib (cn_up c)" "lane_idle chain_lib (cn_down c)" "cn_work c = []"
    "cn_done c = [(received sample_request, response_to varint_lib echo_api 77 sample_request)]"
    "cl_written (cn_client c) = [sample_request]"
proof -
  let ?res = "response_to varint_lib echo_api 77 sample_request"
  have frames: "decode chain_lib rpc_decoder [wire_bytes varint_lib [sample_request]]
      = Inr ([], ReturnTrue [SerializeWithCachedSizes varint_lib sample_request])"
    "decode chain_lib rpc_decoder [wire_bytes varint_lib [?res]]
      = Inr ([], ReturnTrue [SerializeWithCachedSizes varint_lib ?res])"
    unfolding wire_bytes_def by (simp_all add: request_bytes response_bytes wire_frame_def be_bytes_2) (code_simp+)
  obtain srv where srv: "RpcMsgService_call varint_lib echo_api (received sample_request) echo_server = Inr (?res, srv)"
    using server_call [OF conjunct1 [OF server_reach_inv [OF echo_reach]], of varint_lib "received sample_request"]
      response_received [of varint_lib echo_api 77 sample_request]
    by (simp add: sample_request_sel echo_registered echo_count response_to_def del: response_received)
  have known: "client_entries alist_table one_call (rm_id (received ?res)) = Some 0"
    by (simp add: one_call_pending sample_request_sel response_to_def)
  obtain s where s: "dispatcher_read alist_table (received ?res) one_call = Inr s"
    "cl_calls s = 1" "cl_arg s 0 = sample_request" "cl_value s 0 = Some (received ?res)" "cl_written s = [sample_request]"
    using alist.read_known [OF alist.reach_inv [OF one_call_reach] known] by (auto simp: one_call_pending one_call_written)
  have calls: "cl_calls s = cl_calls one_call" by (simp add: s(2) one_call_pending(2))
  note run = call_steps [where reach = reach, OF sent [unfolded sent_call_def] step call_transmittable frames srv
      one_call_written(2) s(1) calls]
  show ?thesis
  proof (rule run)
    fix c assume c: "reach c" "link_ok chain_lib varint_lib c" "cn_client c = s" "cn_work c = []"
      "lane_idle chain_lib (cn_up c)" "lane_idle chain_lib (cn_down c)" "cn_done c = [(received sample_request, ?res)]"
    have "conn_ok chain_lib varint_lib c" using c(2,3) s(5) by (simp add: conn_ok_def)
    then show thesis using that [OF c(1)] c(3-) s by simp
  qed assumption
qed

lemma sample_run:
  obtains c :: "((s64 \<times> nat) list, byte list, chain, chain, nat, nat, unit) connection"
  where "conn_reach chain_lib varint_lib (generated_message_lib varint_lib) alist_table echo_api [77] 1 100 c"
    "conn_ok chain_lib varint_lib c" "cl_calls (cn_client c) = 1" "cl_arg (cn_client c) 0 = sample_request"
    "cl_value (cn_client c) 0 = Some (received (response_to varint_lib echo_api 77 sample_request))"
    "lane_idle chain_lib (cn_up c)" "lane_idle chain_lib (cn_down c)" "cn_work c = []"
    "cn_done c = [(received sample_request, response_to varint_lib echo_api 77 sample_request)]"
    "cl_written (cn_client c) = [sample_request]"
proof -
  let ?reach = "conn_reach chain_lib varint_lib (generated_message_lib varint_lib) alist_table echo_api [77] 1 100"
  let ?s0 = "setPipeline 0 (client_new varint_lib (MultiplexClientDispatcher_new alist_table 1 100 Null))"
  have r0: "?reach \<lparr>cn_client = ?s0, cn_up = lane_new [], cn_work = [], cn_server = echo_server,
      cn_done = [], cn_down = lane_new []\<rparr>"
  proof -
    have "?reach \<lparr>cn_client = client_new varint_lib (MultiplexClientDispatcher_new alist_table 1 100 Null),
        cn_up = lane_new [], cn_work = [], cn_server = echo_server, cn_done = [], cn_down = lane_new []\<rparr>"
      by (rule conn_reach.start [OF echo_reach]) simp_all
    from conn_reach.step [OF this conn_step.connect [where pl = 0]] show ?thesis by simp
  qed
  have "?reach sent_call"
    using conn_reach.step [OF r0 conn_step.call [where arg = sample_request]] one_call_step one_call_written
      chain_transport.write_frame [OF call_transmittable(1)]
    by (simp add: sent_call_def written_bytes_def)
  then show ?thesis by (rule sample_steps) (rule conn_reach.step, assumption+, rule that, assumption+)
qed

section \<open>Properties\<close>







end
