(* ===== verification/PbRpcClient.thy ===== *)
theory PbRpcClient
  imports ClientDispatcher
begin

text \<open>
  The client connection and the protobuf channel over it (\<open>net/PbRpcClient.h\<close>,
  \<open>net/PbRpcClient.cc\<close>). A client holds its connection state and its dispatcher; connecting is
  asynchronous, its callback is a sequence of separate assignments. A channel numbers its requests
  and drives the dispatcher; one call is the code up to the dispatcher's future, and the code run with
  the response. The reflection, parsing and hashing calls are parameters (\<open>channel_api\<close>).
\<close>

section \<open>The pipeline\<close>

definition client_newPipeline :: "(stage list) option" where
  "client_newPipeline =
     (case (LengthFieldBasedFrameDecoder_new 2 65536 0 0 2 True, LengthFieldPrepender_new 2 0 False True) of
        (Some d, Some p) \<Rightarrow> Some [AsyncSocketHandler, EventBaseHandler, FrameDecoder d,
           FramePrepender p, SerializeHandler]
      | _ \<Rightarrow> None)"

section \<open>PbRpcClient\<close>

record ('h, 'u) rpc_client =
  rc_host :: "byte list"
  rc_port :: s32
  rc_ioThreads :: u32
  rc_pipeline :: "nat ptr"
  rc_connected :: bool
  rc_client :: "('h, 'u) client"

text \<open>The first constructor makes a thread pool of \<open>ioThreadNum\<close> threads, or of as many as the
  machine has cores (a parameter) when it is zero; the others are given a pool. \<open>pl\<close> is the initial
  \<open>pipeline_\<close> of the dispatcher's base class. Each constructor then starts \<open>connect\<close>.\<close>

definition pool_size :: "s32 \<Rightarrow> u32 \<Rightarrow> u32" where
  "pool_size ioThreadNum hardware_concurrency =
     (if ioThreadNum \<noteq> 0 then ioThreadNum else let cpuNum = hardware_concurrency in cpuNum)"

definition PbRpcClient_new ::
    "'u wire_lib \<Rightarrow> 'h table_lib \<Rightarrow> nat ptr \<Rightarrow> u32 \<Rightarrow> byte list \<Rightarrow> s32 \<Rightarrow> s32 \<Rightarrow> ('h, 'u) rpc_client" where
  "PbRpcClient_new W T pl hardware_concurrency host port ioThreadNum =
     \<lparr>rc_host = host, rc_port = port, rc_ioThreads = pool_size ioThreadNum hardware_concurrency,
      rc_pipeline = Null, rc_connected = False,
      rc_client = client_new W (default_dispatcher T pl)\<rparr>"

definition PbRpcClient_new_pool ::
    "'u wire_lib \<Rightarrow> 'h table_lib \<Rightarrow> nat ptr \<Rightarrow> byte list \<Rightarrow> s32 \<Rightarrow> u32 \<Rightarrow> ('h, 'u) rpc_client" where
  "PbRpcClient_new_pool W T pl host port ioThreadPool =
     \<lparr>rc_host = host, rc_port = port, rc_ioThreads = ioThreadPool, rc_pipeline = Null,
      rc_connected = False, rc_client = client_new W (default_dispatcher T pl)\<rparr>"

definition PbRpcClient_new_limits ::
    "'u wire_lib \<Rightarrow> 'h table_lib \<Rightarrow> nat ptr \<Rightarrow> byte list \<Rightarrow> s32 \<Rightarrow> u32 \<Rightarrow> u64 \<Rightarrow> u32 \<Rightarrow> ('h, 'u) rpc_client" where
  "PbRpcClient_new_limits W T pl host port ioThreadPool reqLimit t =
     \<lparr>rc_host = host, rc_port = port, rc_ioThreads = ioThreadPool, rc_pipeline = Null,
      rc_connected = False, rc_client = client_new W (MultiplexClientDispatcher_new T reqLimit t pl)\<rparr>"

text \<open>The callbacks of \<open>connect\<close>: on success three assignments, in this order and not atomic, with
  the pipeline \<open>p\<close>; on an exception the pipeline is null.\<close>

definition connect_pipeline :: "nat \<Rightarrow> ('h, 'u) rpc_client \<Rightarrow> ('h, 'u) rpc_client" where
  "connect_pipeline p c = c\<lparr>rc_pipeline := Ptr p\<rparr>"

definition connect_flag :: "('h, 'u) rpc_client \<Rightarrow> ('h, 'u) rpc_client" where
  "connect_flag c = c\<lparr>rc_connected := True\<rparr>"

definition connect_dispatcher :: "nat \<Rightarrow> ('h, 'u) rpc_client \<Rightarrow> ('h, 'u) rpc_client" where
  "connect_dispatcher p c = c\<lparr>rc_client := setPipeline p (rc_client c)\<rparr>"

definition connect_success :: "nat \<Rightarrow> ('h, 'u) rpc_client \<Rightarrow> ('h, 'u) rpc_client" where
  "connect_success p c = connect_dispatcher p (connect_flag (connect_pipeline p c))"

definition connect_error :: "('h, 'u) rpc_client \<Rightarrow> ('h, 'u) rpc_client" where
  "connect_error c = c\<lparr>rc_pipeline := Null\<rparr>"

text \<open>The destructor closes the pipeline: the pipeline it closes, or the fault.\<close>

definition PbRpcClient_destroy :: "('h, 'u) rpc_client \<Rightarrow> rpc_fault + nat" where
  "PbRpcClient_destroy c = deref (rc_pipeline c)"

section \<open>RpcChannel\<close>

record ('d, 'm) channel_api =
  method_service_name :: "'d \<Rightarrow> byte list" \<comment> \<open>\<open>method->service()->full_name()\<close>\<close>
  method_index :: "'d \<Rightarrow> u32"
  msg_SerializeToString :: "'m \<Rightarrow> byte list"
  msg_ParseFromString :: "byte list \<Rightarrow> 'm \<Rightarrow> bool \<times> 'm"
  name_Hash32 :: "byte list \<Rightarrow> u32"

text \<open>\<open>ch_client\<close> is false for a channel made by the default constructor, whose client pointer is null
  and whose counter (\<open>None\<close>) is not initialised.\<close>

record rpc_channel =
  ch_client :: bool
  ch_request_id :: "s64 option"

definition RpcChannel_default :: rpc_channel where
  "RpcChannel_default = \<lparr>ch_client = False, ch_request_id = None\<rparr>"

definition RpcChannel_new :: rpc_channel where
  "RpcChannel_new = \<lparr>ch_client = True, ch_request_id = Some 0\<rparr>"

datatype call_fault = NullClient | ConnectException | UninitialisedId | DispatcherFault client_fault

text \<open>The connection made by \<open>CallMethod\<close> when the client is not connected; \<open>conn\<close> is the outcome of
  the blocking connect.\<close>

definition ensure_connected ::
    "nat option \<Rightarrow> ('h, 'u) rpc_client \<Rightarrow> call_fault + ('h, 'u) rpc_client" where
  "ensure_connected conn c =
     (if \<not> rc_connected c then
        (case conn of
           None \<Rightarrow> Inl ConnectException
         | Some p \<Rightarrow> Inr (c\<lparr>rc_pipeline := Ptr p, rc_client := setPipeline p (rc_client c),
                           rc_connected := True\<rparr>))
      else Inr c)"

definition build_request ::
    "'u wire_lib \<Rightarrow> s64 \<Rightarrow> u32 \<Rightarrow> u32 \<Rightarrow> byte list \<Rightarrow> 'u RpcMessage" where
  "build_request W i serviceId methodId request_str =
     set_request request_str (set_methodid methodId (set_serviceid serviceId
       (set_id i (set_type REQUEST (RpcMessage_new W)))))"

text \<open>\<open>CallMethod\<close> up to the dispatcher's future.\<close>

definition CallMethod_start ::
    "'u wire_lib \<Rightarrow> 'h table_lib \<Rightarrow> ('d, 'm) channel_api \<Rightarrow> nat option \<Rightarrow> 'd \<Rightarrow> 'm \<Rightarrow> rpc_channel
     \<Rightarrow> ('h, 'u) rpc_client \<Rightarrow> call_fault + rpc_channel \<times> ('h, 'u) rpc_client" where
  "CallMethod_start W T api conn method_d request ch c =
     (if \<not> ch_client ch then Inl NullClient
      else case ensure_connected conn c of Inl e \<Rightarrow> Inl e | Inr c \<Rightarrow>
        (let serviceName = method_service_name api method_d;
             serviceId = name_Hash32 api serviceName
         in case ch_request_id ch of None \<Rightarrow> Inl UninitialisedId | Some i \<Rightarrow>
           (let ch = ch\<lparr>ch_request_id := Some (i + 1)\<rparr>;
                request_str = msg_SerializeToString api request;
                Req = build_request W i serviceId (method_index api method_d) request_str
            in case dispatcher_call W T Req (rc_client c) of
                 Inl f \<Rightarrow> Inl (DispatcherFault f)
               | Inr s \<Rightarrow> Inr (ch, c\<lparr>rc_client := s\<rparr>))))"

text \<open>What is done with the response message: the user's response object after the call and, for an
  asynchronous call (\<open>done\<close> not null), how often \<open>done\<close> is run.\<close>

definition CallMethod_finish ::
    "('d, 'm) channel_api \<Rightarrow> bool \<Rightarrow> 'u RpcMessage \<Rightarrow> 'm \<Rightarrow> 'm \<times> nat" where
  "CallMethod_finish api is_async Res response =
     (if \<not> is_async then (snd (msg_ParseFromString api (rm_response Res) response), 0)
      else (let response = snd (msg_ParseFromString api (rm_response Res) response) in (response, 1)))"

text \<open>\<open>CallMethod\<close> from the wait on, for every outcome of the future: the response object, how often
  \<open>done\<close> was run and how the call ended. \<open>get()\<close> throws what the future carries. An asynchronous call
  leaves the response alone when the future failed; that exception, or the one \<open>done\<close> throws
  (\<open>done_throws\<close>), reaches \<open>thenError\<close>, which prints a \<open>std::exception\<close> and does not match any other.\<close>

datatype call_end = Ended | Threw thrown | PrintedError string | Unnoticed thrown

definition then_error :: "thrown option \<Rightarrow> call_end" where
  "then_error e = (case e of None \<Rightarrow> Ended
    | Some (StdException what) \<Rightarrow> PrintedError (''[RpcClient] call error: '' @ what)
    | Some ForeignException \<Rightarrow> Unnoticed ForeignException)"

definition CallMethod_end ::
    "('d, 'm) channel_api \<Rightarrow> bool \<Rightarrow> ('m \<Rightarrow> thrown option) \<Rightarrow> thrown + 'u RpcMessage \<Rightarrow> 'm
     \<Rightarrow> 'm \<times> nat \<times> call_end" where
  "CallMethod_end api is_async done_throws outcome response =
     (case outcome of
        Inl e \<Rightarrow> (response, 0, if \<not> is_async then Threw e else then_error (Some e))
      | Inr Res \<Rightarrow>
          (case CallMethod_finish api is_async Res response of
             (response, n) \<Rightarrow>
               (response, n, if \<not> is_async then Ended else then_error (done_throws response))))"

section \<open>A channel with a client of its own\<close>

text \<open>The histories of a client used by one channel: the pieces of the connect callback, calls on the
  channel, responses and timeouts, in any order. The number counts the calls.\<close>

inductive chan_reach ::
  "'u wire_lib \<Rightarrow> 'h table_lib \<Rightarrow> ('d, 'm) channel_api \<Rightarrow> u64 \<Rightarrow> u32 \<Rightarrow> nat \<Rightarrow> rpc_channel
   \<Rightarrow> ('h, 'u) rpc_client \<Rightarrow> bool" for W T api lim t where
  start: "chan_reach W T api lim t 0 RpcChannel_new (PbRpcClient_new_limits W T pl host port pool lim t)"
| pipeline: "chan_reach W T api lim t n ch c \<Longrightarrow> chan_reach W T api lim t n ch (connect_pipeline p c)"
| flag: "chan_reach W T api lim t n ch c \<Longrightarrow> chan_reach W T api lim t n ch (connect_flag c)"
| dispatcher: "chan_reach W T api lim t n ch c \<Longrightarrow> chan_reach W T api lim t n ch (connect_dispatcher p c)"
| error: "chan_reach W T api lim t n ch c \<Longrightarrow> chan_reach W T api lim t n ch (connect_error c)"
| call: "\<lbrakk>chan_reach W T api lim t n ch c; CallMethod_start W T api conn d request ch c = Inr (ch', c')\<rbrakk> \<Longrightarrow>
    chan_reach W T api lim t (Suc n) ch' c'"
| read: "\<lbrakk>chan_reach W T api lim t n ch c; dispatcher_read T m (rc_client c) = Inr s\<rbrakk> \<Longrightarrow>
    chan_reach W T api lim t n ch (c\<lparr>rc_client := s\<rparr>)"
| timeout: "\<lbrakk>chan_reach W T api lim t n ch c; cl_timer (rc_client c) p \<noteq> None; cl_result (rc_client c) p = None\<rbrakk> \<Longrightarrow>
    chan_reach W T api lim t n ch (c\<lparr>rc_client := dispatcher_timeout W T p (rc_client c)\<rparr>)"

definition chan_inv ::
    "'u wire_lib \<Rightarrow> 'h table_lib \<Rightarrow> u64 \<Rightarrow> u32 \<Rightarrow> nat \<Rightarrow> rpc_channel \<Rightarrow> ('h, 'u) rpc_client \<Rightarrow> bool" where
  "chan_inv W T lim t n ch c \<longleftrightarrow> client_reach W T lim t (rc_client c) \<and> ch_client ch
     \<and> ch_request_id ch = Some (of_nat n) \<and> cl_calls (rc_client c) = n
     \<and> (\<forall>p < n. rm_id (cl_arg (rc_client c) p) = of_nat p)"

lemma build_request_id [simp]: "rm_id (build_request W i h m bs) = i"
  by (simp add: build_request_def rpc_accessors)

lemma ensure_connected_reach:
  assumes "ensure_connected conn c = Inr c'" "client_reach W T lim t (rc_client c)"
  shows "client_reach W T lim t (rc_client c')" "cl_calls (rc_client c') = cl_calls (rc_client c)"
    "cl_arg (rc_client c') = cl_arg (rc_client c)"
  using assms
  by (auto simp: ensure_connected_def setPipeline_def [of _ "rc_client c"] split: if_splits option.splits
      dest: client_reach.connected [where p = "the conn"])

context promise_map
begin

lemma call_sel:
  assumes "dispatcher_call W T arg s = Inr s'"
  shows "cl_calls s' = cl_calls s + 1" "cl_arg s' = (cl_arg s)(cl_calls s := arg)"
  using assms
  by (auto simp: dispatcher_call_def call_begin_def call_send_def Let_def finish_def
      split: if_splits prod.splits bool.splits sum.splits)

lemma read_sel:
  assumes "dispatcher_read T m s = Inr s'"
  shows "cl_calls s' = cl_calls s" "cl_arg s' = cl_arg s"
  using assms
  by (auto simp: dispatcher_read_def setValue_def Let_def finish_def split: option.splits if_splits)

lemma start_call_inv:
  assumes inv: "chan_inv W T lim t n ch c"
    and c: "CallMethod_start W T api conn d request ch c = Inr (ch', c')"
  shows "chan_inv W T lim t (Suc n) ch' c'"
proof -
  obtain c1 s where e: "ensure_connected conn c = Inr c1"
    and s: "dispatcher_call W T (build_request W (of_nat n) (name_Hash32 api (method_service_name api d))
        (method_index api d) (msg_SerializeToString api request)) (rc_client c1) = Inr s"
    and r: "ch' = ch\<lparr>ch_request_id := Some (of_nat n + 1)\<rparr>" "c' = c1\<lparr>rc_client := s\<rparr>"
    using c inv by (auto simp: CallMethod_start_def chan_inv_def Let_def split: sum.splits)
  have i: "client_reach W T lim t (rc_client c)" "cl_calls (rc_client c) = n" "ch_client ch"
    "\<forall>p < n. rm_id (cl_arg (rc_client c) p) = of_nat p"
    using inv by (simp_all add: chan_inv_def)
  have "client_reach W T lim t s" by (rule client_reach.call [OF ensure_connected_reach(1) [OF e i(1)] s])
  then show ?thesis
    using call_sel [OF s] ensure_connected_reach(2,3) [OF e i(1)] i
    by (auto simp: chan_inv_def r less_Suc_eq)
qed

lemma chan_reach_inv: "chan_reach W T api lim t n ch c \<Longrightarrow> chan_inv W T lim t n ch c"
proof (induction rule: chan_reach.induct)
  case (start pl host port pool)
  then show ?case
    by (simp add: chan_inv_def RpcChannel_new_def PbRpcClient_new_limits_def client_reach.start,
        simp add: client_new_def)
next
  case (dispatcher n ch c p)
  from dispatcher.IH show ?case
    by (simp add: chan_inv_def connect_dispatcher_def client_reach.connected, simp add: setPipeline_def)
next
  case (call n ch c conn d request ch' c')
  show ?case by (rule start_call_inv [OF call.IH call.hyps(2)])
next
  case (read n ch c m s)
  from read.IH read.hyps(2) show ?case
    by (auto simp: chan_inv_def read_sel intro: client_reach.read)
next
  case (timeout n ch c p)
  from timeout.IH timeout.hyps(2,3) show ?case
    by (auto simp: chan_inv_def timeout_sel intro: client_reach.timeout)
qed (simp_all add: chan_inv_def connect_pipeline_def connect_flag_def connect_error_def)

lemma own_id_fresh:
  assumes "chan_inv W T lim t n ch c" "n < 2 ^ 64"
  shows "client_entries T (rc_client c) (of_nat n) = None"
proof (rule ccontr)
  assume "client_entries T (rc_client c) (of_nat n) \<noteq> None"
  then obtain p where p: "client_entries T (rc_client c) (of_nat n) = Some p" by blast
  have "client_inv W T lim t (rc_client c)" using assms(1) by (simp add: chan_inv_def reach_inv)
  with p have "pending (rc_client c) p" "rm_id (cl_arg (rc_client c) p) = of_nat n"
    using client_invD(1) by blast+
  with assms(1) have "p < n" "(of_nat p :: s64) = of_nat n" by (auto simp: chan_inv_def pending_def)
  moreover have "unat (of_nat p :: s64) = p" "unat (of_nat n :: s64) = n"
    using assms(2) \<open>p < n\<close> by (auto intro!: unat_of_nat_u64)
  ultimately show False by simp
qed

end

section \<open>Calls on a connected client\<close>

definition the_request ::
    "'u wire_lib \<Rightarrow> ('d, 'm) channel_api \<Rightarrow> s64 \<Rightarrow> 'd \<Rightarrow> 'm \<Rightarrow> 'u RpcMessage" where
  "the_request W api i d request =
     build_request W i (name_Hash32 api (method_service_name api d)) (method_index api d)
       (msg_SerializeToString api request)"

lemma the_request_id [simp]: "rm_id (the_request W api i d request) = i"
  by (simp add: the_request_def)

lemma start_connected:
  assumes "ch_client ch" "ch_request_id ch = Some i" "rc_connected c"
  shows "CallMethod_start W T api conn d request ch c =
    (case dispatcher_call W T (the_request W api i d request) (rc_client c) of
       Inl f \<Rightarrow> Inl (DispatcherFault f)
     | Inr s \<Rightarrow> Inr (ch\<lparr>ch_request_id := Some (i + 1)\<rparr>, c\<lparr>rc_client := s\<rparr>))"
  using assms by (simp add: CallMethod_start_def ensure_connected_def the_request_def Let_def)

lemma RpcChannel_new_sel: "ch_client RpcChannel_new" "ch_request_id RpcChannel_new = Some 0"
  by (simp_all add: RpcChannel_new_def)

context promise_map
begin

lemma own_call_sent:
  assumes "chan_inv W T lim t n ch c" "n < 2 ^ 64" "rc_connected c"
    "cd_pipeline (cl_disp (rc_client c)) = Ptr pl" "card (dom (client_entries T (rc_client c))) < unat lim"
  shows "\<exists>ch' c'. CallMethod_start W T api conn d request ch c = Inr (ch', c')
    \<and> cl_written (rc_client c') = cl_written (rc_client c) @ [the_request W api (of_nat n) d request]
    \<and> client_entries T (rc_client c') = (client_entries T (rc_client c))(of_nat n \<mapsto> n)"
proof -
  have i: "client_inv W T lim t (rc_client c)" "ch_client ch" "ch_request_id ch = Some (of_nat n)"
    "cl_calls (rc_client c) = n"
    using assms(1) by (simp_all add: chan_inv_def reach_inv)
  have "client_entries T (rc_client c) (rm_id (the_request W api (of_nat n) d request)) = None"
    using own_id_fresh [OF assms(1,2)] by simp
  from call_sent [OF i(1) assms(5) this assms(4)] i(4) show ?thesis
    by (auto simp: start_connected [OF i(2,3) assms(3)])
qed

lemma shared_call_refused:
  assumes "client_reach W T lim t (rc_client c)" "rc_connected c"
    "client_entries T (rc_client c) 0 \<noteq> None" "card (dom (client_entries T (rc_client c))) < unat lim"
  shows "\<exists>ch' c'. CallMethod_start W T api conn d request RpcChannel_new c = Inr (ch', c')
    \<and> cl_result (rc_client c') (cl_calls (rc_client c))
      = Some (local_reply W INVALID_REQUEST (the_request W api 0 d request))
    \<and> cl_written (rc_client c') = cl_written (rc_client c)"
  using call_duplicate [OF reach_inv [OF assms(1)] assms(4), of "the_request W api 0 d request"] assms(3)
  by (auto simp: start_connected [OF RpcChannel_new_sel assms(2)])

lemma start_no_pipeline:
  assumes "client_inv W T lim t (rc_client c)" "rc_connected c" "ch_client ch" "ch_request_id ch = Some i"
    "\<forall>pl. cd_pipeline (cl_disp (rc_client c)) \<noteq> Ptr pl" "client_entries T (rc_client c) i = None"
    "card (dom (client_entries T (rc_client c))) < unat lim"
  shows "CallMethod_start W T api conn d request ch c = Inl (DispatcherFault NoPipeline)"
  using call_no_pipeline [OF assms(1,7) _ assms(5), of "the_request W api i d request"] assms(6)
  by (simp add: start_connected [OF assms(3,4,2)])

end

text \<open>A client whose connection failed, or has not completed, cannot be destroyed.\<close>

lemma destroy_unconnected:
  "PbRpcClient_destroy (PbRpcClient_new_limits W T pl host port pool lim t) = Inl NullDereference"
  "PbRpcClient_destroy (connect_error c) = Inl NullDereference"
  by (simp_all add: PbRpcClient_destroy_def PbRpcClient_new_limits_def connect_error_def)

lemma client_pipeline_stages:
  "client_newPipeline = Some [AsyncSocketHandler, EventBaseHandler, FrameDecoder rpc_decoder,
     FramePrepender rpc_prepender, SerializeHandler]"
  by (simp add: client_newPipeline_def rpc_decoder_constructed rpc_prepender_constructed)

section \<open>Properties\<close>


definition bytes_api :: "(u32, byte list) channel_api" where
  "bytes_api = \<lparr>method_service_name = (\<lambda>d. [77]), method_index = (\<lambda>d. d),
     msg_SerializeToString = (\<lambda>m. m), msg_ParseFromString = (\<lambda>bs m. (True, bs)),
     name_Hash32 = (\<lambda>bs. of_nat (unat (hd bs)))\<rparr>"

lemma bytes_api_parse: "msg_ParseFromString bytes_api bs m = (True, bs)"
  by (simp add: bytes_api_def)

definition fresh_client :: "((s64 \<times> nat) list, byte list) rpc_client" where
  "fresh_client = PbRpcClient_new_limits varint_lib alist_table Null [49] 8000 4 10 5000"

lemma fresh_client_sel:
  "client_entries alist_table (rc_client fresh_client) = Map.empty" "rc_connected fresh_client = False"
  "cd_pipeline (cl_disp (rc_client fresh_client)) = Null" "cl_calls (rc_client fresh_client) = 0"
  by (simp_all add: fresh_client_def PbRpcClient_new_limits_def client_new_def client_entries_def
      MultiplexClientDispatcher_new_def alist_table_def)

lemma fresh_client_reach: "chan_reach varint_lib alist_table bytes_api 10 5000 0 RpcChannel_new fresh_client"
  unfolding fresh_client_def by (rule chan_reach.start)

lemma connected_reach:
  "chan_reach varint_lib alist_table bytes_api 10 5000 0 RpcChannel_new (connect_success 0 fresh_client)"
  unfolding connect_success_def
  by (rule chan_reach.dispatcher, rule chan_reach.flag, rule chan_reach.pipeline, rule fresh_client_reach)

lemma connected_sel:
  "client_entries alist_table (rc_client (connect_success 0 fresh_client)) = Map.empty"
  "rc_connected (connect_success 0 fresh_client)"
  "cd_pipeline (cl_disp (rc_client (connect_success 0 fresh_client))) = Ptr 0"
  "cl_calls (rc_client (connect_success 0 fresh_client)) = 0"
  using fresh_client_sel
  by (simp_all add: connect_success_def connect_dispatcher_def connect_flag_def connect_pipeline_def
      setPipeline_def client_entries_def)


text \<open>Two channels over one client count separately from zero. While the first request of one is
  pending, the first call on the other is refused with INVALID_REQUEST and never written; and as
  \<open>CallMethod\<close> does not look at the error of the response, the caller sees the call complete with
  whatever parsing no bytes gives.\<close>

theorem shared_client_refuses:
  assumes "promise_map T" "client_reach W T lim t (rc_client c)" "rc_connected c"
    and "client_entries T (rc_client c) 0 \<noteq> None"
    and "card (dom (client_entries T (rc_client c))) < unat lim"
  shows "\<exists>ch' c' Res. CallMethod_start W T api conn d request RpcChannel_new c = Inr (ch', c')
    \<and> cl_result (rc_client c') (cl_calls (rc_client c)) = Some Res
    \<and> cl_written (rc_client c') = cl_written (rc_client c)
    \<and> rm_error Res = INVALID_REQUEST
    \<and> CallMethod_finish api is_async Res response
      = (snd (msg_ParseFromString api [] response), if is_async then 1 else 0)"
proof -
  let ?Res = "local_reply W INVALID_REQUEST (the_request W api 0 d request)"
  have "rm_error ?Res = INVALID_REQUEST" "rm_response ?Res = []"
    by (simp_all add: local_reply_def rpc_accessors RpcMessage_new_def)
  with promise_map.shared_call_refused [OF assms, of api conn d request] show ?thesis
    by (auto simp: CallMethod_finish_def)
qed

definition busy_client :: "((s64 \<times> nat) list, byte list) rpc_client" where
  "busy_client = snd (projr (CallMethod_start varint_lib alist_table bytes_api None 3 [1, 2]
     RpcChannel_new (connect_success 0 fresh_client)))"

lemma busy_client_step: "\<exists>ch'. CallMethod_start varint_lib alist_table bytes_api None 3 [1, 2]
    RpcChannel_new (connect_success 0 fresh_client) = Inr (ch', busy_client)
  \<and> client_entries alist_table (rc_client busy_client) = [0 \<mapsto> 0]"
  using alist.own_call_sent [OF alist.chan_reach_inv [OF connected_reach] _ connected_sel(2,3),
      of bytes_api None 3 "[1, 2]"]
  by (auto simp: connected_sel busy_client_def)

lemma busy_client_facts:
  "client_reach varint_lib alist_table 10 5000 (rc_client busy_client)"
  "client_entries alist_table (rc_client busy_client) = [0 \<mapsto> 0]" "rc_connected busy_client"
proof -
  obtain ch' where s: "CallMethod_start varint_lib alist_table bytes_api None 3 [1, 2]
      RpcChannel_new (connect_success 0 fresh_client) = Inr (ch', busy_client)"
    "client_entries alist_table (rc_client busy_client) = [0 \<mapsto> 0]"
    using busy_client_step by blast
  from alist.chan_reach_inv [OF chan_reach.call [OF connected_reach s(1)]]
  show "client_reach varint_lib alist_table 10 5000 (rc_client busy_client)" by (simp add: chan_inv_def)
  show "client_entries alist_table (rc_client busy_client) = [0 \<mapsto> 0]" by (rule s(2))
  obtain x where x: "(connect_success 0 fresh_client)\<lparr>rc_client := x\<rparr> = busy_client"
    using s(1) by (auto simp: start_connected [OF RpcChannel_new_sel connected_sel(2)] split: sum.splits)
  show "rc_connected busy_client" unfolding x [symmetric] by (simp add: connected_sel)
qed

theorem shared_client_refuses_witness:
  "\<exists>ch' c' Res. CallMethod_start varint_lib alist_table bytes_api None 4 [5] RpcChannel_new busy_client
      = Inr (ch', c')
    \<and> cl_result (rc_client c') (cl_calls (rc_client busy_client)) = Some Res
    \<and> rm_error Res = INVALID_REQUEST \<and> CallMethod_finish bytes_api True Res [6] = ([], 1)"
  using shared_client_refuses [OF alist.promise_map_axioms busy_client_facts(1,3),
      of bytes_api None 4 "[5]" True "[6]"]
  by (auto simp: busy_client_facts(2) bytes_api_parse)

text \<open>\<open>CallMethod\<close> never reports an error: what the caller gets depends on the bytes of the
  response only, not on its error code, so a call that timed out or was refused looks like one that
  succeeded with an empty response, and an asynchronous callback runs all the same.\<close>

theorem channel_hides_errors:
  "CallMethod_finish api is_async (set_error e Res) response = CallMethod_finish api is_async Res response
   \<and> CallMethod_finish api is_async (local_reply W e arg) response
     = (snd (msg_ParseFromString api [] response), if is_async then 1 else 0)"
  by (simp add: CallMethod_finish_def local_reply_def rpc_accessors RpcMessage_new_def)

text \<open>The connect callback publishes \<open>connected\<close> before it gives the dispatcher its pipeline. A call
  made between the two assignments skips the connecting branch and dereferences the pipeline the
  dispatcher does not have yet.\<close>

theorem connected_before_pipeline:
  assumes "promise_map T" "chan_reach W T api lim t n ch c" "n < 2 ^ 64"
    and "\<forall>q. cd_pipeline (cl_disp (rc_client c)) \<noteq> Ptr q"
    and "card (dom (client_entries T (rc_client c))) < unat lim"
  shows "CallMethod_start W T api conn d request ch (connect_flag (connect_pipeline p c))
    = Inl (DispatcherFault NoPipeline)"
proof (rule promise_map.start_no_pipeline [OF assms(1)])
  have inv: "chan_inv W T lim t n ch c" by (rule promise_map.chan_reach_inv [OF assms(1,2)])
  show "client_inv W T lim t (rc_client (connect_flag (connect_pipeline p c)))"
    using inv promise_map.reach_inv [OF assms(1), of W lim t "rc_client c"]
    by (simp add: chan_inv_def connect_flag_def connect_pipeline_def)
  show "client_entries T (rc_client (connect_flag (connect_pipeline p c))) (of_nat n) = None"
    using promise_map.own_id_fresh [OF assms(1) inv assms(3)]
    by (simp add: connect_flag_def connect_pipeline_def)
  show "ch_client ch" "ch_request_id ch = Some (of_nat n)" using inv by (simp_all add: chan_inv_def)
qed (use assms in \<open>simp_all add: connect_flag_def connect_pipeline_def\<close>)

theorem connected_before_pipeline_witness:
  "CallMethod_start varint_lib alist_table bytes_api None 3 [1] RpcChannel_new
     (connect_flag (connect_pipeline 0 fresh_client)) = Inl (DispatcherFault NoPipeline)"
  by (rule connected_before_pipeline [OF alist.promise_map_axioms fresh_client_reach])
    (simp_all add: fresh_client_sel)

end
