(* ===== verification/ChannelConnection.thy ===== *)
theory ChannelConnection
  imports Connection PbRpcClient
begin

text \<open>
  A channel on a connection: \<open>RpcChannel::CallMethod\<close> (\<open>net/PbRpcClient.cc\<close>) with a client of its own, and
  the connection of that client. The channel numbers its requests, so the requests it writes have
  different ids, and what a stub's call returns is what the method on the server computed.
\<close>

section \<open>Requests written are calls\<close>

context promise_map
begin

lemma written_calls:
  "client_reach W T lim t s \<Longrightarrow>
   \<exists>ps. distinct ps \<and> set ps \<subseteq> {..<cl_calls s} \<and> cl_written s = map (cl_arg s) ps"
proof (induction rule: client_reach.induct)
  case (call s arg s')
  then obtain ps where ps: "distinct ps" "set ps \<subseteq> {..<cl_calls s}" "cl_written s = map (cl_arg s) ps" by blast
  note sel = call_sel [OF call.hyps(2)]
  have old: "map (cl_arg s') ps = map (cl_arg s) ps" using ps(2) by (auto simp: sel)
  from call_written [OF call.hyps(2)] show ?case
  proof
    assume "cl_written s' = cl_written s \<and> cl_result s' (cl_calls s) \<noteq> None \<and> cl_timer s' = cl_timer s"
    with ps old show ?thesis by (intro exI [of _ ps]) (simp add: sel(1) lessThan_Suc subset_insertI2)
  next
    assume "cl_written s' = cl_written s @ [arg] \<and> (\<exists>t. cl_timer s' = (cl_timer s)(cl_calls s \<mapsto> t))"
    with ps old show ?thesis
      by (intro exI [of _ "ps @ [cl_calls s]"]) (auto simp: sel lessThan_Suc)
  qed
next
  case (read s m s')
  then show ?case by (simp add: read_sel [OF read.hyps(2)] read_written [OF read.hyps(2)])
next
  case (eof s s')
  then have "cl_written s' = cl_written s" "cl_arg s' = cl_arg s" "cl_calls s' = cl_calls s"
    by (auto simp: dispatcher_readEOF_def split: sum.splits)
  with eof.IH show ?case by simp
qed (simp_all add: client_new_def setPipeline_def timeout_sel timeout_written)

end

lemma of_nat_ids:
  assumes "distinct ps" "set ps \<subseteq> {..<n}" "n \<le> 2 ^ 64"
  shows "distinct (map (\<lambda>p. of_nat p :: s64) ps)"
proof -
  have "inj_on (\<lambda>p. of_nat p :: s64) (set ps)"
  proof (rule inj_onI)
    fix p q assume "p \<in> set ps" "q \<in> set ps" and e: "(of_nat p :: s64) = of_nat q"
    with assms(2,3) have "p < 2 ^ 64" "q < 2 ^ 64" by (blast intro: less_le_trans)+
    with e show "p = q" using unat_of_nat_u64 [of p] unat_of_nat_u64 [of q] by metis
  qed
  with assms(1) show ?thesis by (simp add: distinct_map)
qed

section \<open>A channel on a connection\<close>

text \<open>What happens to the client and its connection between two calls: a step of the connection that is
  not a call (the assignment of the dispatcher's pipeline is one), or another piece of the connect
  callback.\<close>

inductive link_step ::
    "('q, 'b, 'c) iobuf_lib \<Rightarrow> 'u wire_lib \<Rightarrow> 'u message_lib \<Rightarrow> 'h table_lib \<Rightarrow> ('s, 'sd, 'p, 'sm) service_api
     \<Rightarrow> ('h, 'u) rpc_client \<Rightarrow> ('h, 'u, 'q, 'b, 's, 'sd, 'p) connection
     \<Rightarrow> ('h, 'u) rpc_client \<Rightarrow> ('h, 'u, 'q, 'b, 's, 'sd, 'p) connection \<Rightarrow> bool"
  for L W M T sapi where
  pipeline: "link_step L W M T sapi rc c (connect_pipeline pl rc) c"
| flag: "link_step L W M T sapi rc c (connect_flag rc) c"
| error: "link_step L W M T sapi rc c (connect_error rc) c"
| net: "\<lbrakk>conn_step L W M T sapi c c'; cl_calls (cn_client c') = cl_calls (cn_client c)\<rbrakk> \<Longrightarrow>
    link_step L W M T sapi rc c (rc\<lparr>rc_client := cn_client c'\<rparr>) c'"

text \<open>The connection after a call that left the client as \<open>rc\<close>: the bytes it wrote are on their way.\<close>

definition link_sent ::
    "('q, 'b, 'c) iobuf_lib \<Rightarrow> 'u message_lib \<Rightarrow> ('h, 'u) rpc_client \<Rightarrow> ('h, 'u, 'q, 'b, 's, 'sd, 'p) connection
     \<Rightarrow> ('h, 'u, 'q, 'b, 's, 'sd, 'p) connection" where
  "link_sent L M rc c = c\<lparr>cn_client := rc_client rc,
     cn_up := lane_send (written_bytes L M (cn_client c) (rc_client rc)) (cn_up c)\<rparr>"

text \<open>A new client and a connection to a server, with nothing sent.\<close>

definition link_start ::
    "('q, 'b, 'c) iobuf_lib \<Rightarrow> 'u wire_lib \<Rightarrow> ('s, 'sd, 'p, 'sm) service_api \<Rightarrow> 's list
     \<Rightarrow> ('h, 'u) rpc_client \<Rightarrow> ('h, 'u, 'q, 'b, 's, 'sd, 'p) connection \<Rightarrow> bool" where
  "link_start L W sapi svcs rc c \<longleftrightarrow> (\<exists>n srv q q'. server_reach W sapi svcs n srv \<and> q_bytes L q = [] \<and> q_bytes L q' = []
     \<and> c = \<lparr>cn_client = rc_client rc, cn_up = lane_new q, cn_work = [], cn_server = srv, cn_done = [],
            cn_down = lane_new q'\<rparr>)"

text \<open>The calls made so far (method and request object), the channel, its client and the connection.\<close>

inductive link_reach ::
    "('q, 'b, 'c) iobuf_lib \<Rightarrow> 'u wire_lib \<Rightarrow> 'u message_lib \<Rightarrow> 'h table_lib \<Rightarrow> ('s, 'sd, 'p, 'sm) service_api
     \<Rightarrow> 's list \<Rightarrow> ('d, 'm) channel_api \<Rightarrow> u64 \<Rightarrow> u32 \<Rightarrow> ('d \<times> 'm) list \<Rightarrow> rpc_channel \<Rightarrow> ('h, 'u) rpc_client
     \<Rightarrow> ('h, 'u, 'q, 'b, 's, 'sd, 'p) connection \<Rightarrow> bool"
  for L W M T sapi svcs capi lim t where
  start: "link_start L W sapi svcs (PbRpcClient_new_limits W T pl host port pool lim t) c \<Longrightarrow>
    link_reach L W M T sapi svcs capi lim t [] RpcChannel_new (PbRpcClient_new_limits W T pl host port pool lim t) c"
| call: "\<lbrakk>link_reach L W M T sapi svcs capi lim t calls ch rc c;
      CallMethod_start W T capi conn d request ch rc = Inr (ch', rc')\<rbrakk> \<Longrightarrow>
    link_reach L W M T sapi svcs capi lim t (calls @ [(d, request)]) ch' rc' (link_sent L M rc' c)"
| other: "\<lbrakk>link_reach L W M T sapi svcs capi lim t calls ch rc c; link_step L W M T sapi rc c rc' c'\<rbrakk> \<Longrightarrow>
    link_reach L W M T sapi svcs capi lim t calls ch rc' c'"

definition link_inv ::
    "('q, 'b, 'c) iobuf_lib \<Rightarrow> 'u wire_lib \<Rightarrow> 'u message_lib \<Rightarrow> 'h table_lib \<Rightarrow> ('s, 'sd, 'p, 'sm) service_api
     \<Rightarrow> 's list \<Rightarrow> ('d, 'm) channel_api \<Rightarrow> u64 \<Rightarrow> u32 \<Rightarrow> ('d \<times> 'm) list \<Rightarrow> rpc_channel \<Rightarrow> ('h, 'u) rpc_client
     \<Rightarrow> ('h, 'u, 'q, 'b, 's, 'sd, 'p) connection \<Rightarrow> bool" where
  "link_inv L W M T sapi svcs capi lim t calls ch rc c \<longleftrightarrow> conn_reach L W M T sapi svcs lim t c
     \<and> cn_client c = rc_client rc \<and> ch_client ch
     \<and> ch_request_id ch = Some (of_nat (length calls)) \<and> cl_calls (cn_client c) = length calls
     \<and> (\<forall>p < length calls. cl_arg (cn_client c) p = the_request W capi (of_nat p) (fst (calls ! p)) (snd (calls ! p)))"

lemma link_invD:
  assumes "link_inv L W M T sapi svcs capi lim t calls ch rc c"
  shows "conn_reach L W M T sapi svcs lim t c" "cn_client c = rc_client rc" "cl_calls (cn_client c) = length calls"
    "\<lbrakk>p < length calls; calls ! p = (d, request)\<rbrakk> \<Longrightarrow>
      cl_arg (rc_client rc) p = the_request W capi (of_nat p) d request"
  using assms unfolding link_inv_def by (elim conjE, simp)+

context promise_map
begin

lemma quiet_args:
  assumes "conn_step L W M T sapi c c'" "cl_calls (cn_client c') = cl_calls (cn_client c)"
  shows "cl_arg (cn_client c') = cl_arg (cn_client c)"
  using assms by cases (auto simp: call_sel read_sel timeout_sel setPipeline_def)

text \<open>A call of a channel: perhaps connecting, then a call of the dispatcher.\<close>

lemma start_call_form:
  assumes "CallMethod_start W T capi conn d request ch rc = Inr (ch', rc')" "ch_request_id ch = Some i"
  shows "\<exists>s s'. (s = rc_client rc \<or> (\<exists>pl. s = setPipeline pl (rc_client rc)))
    \<and> dispatcher_call W T (the_request W capi i d request) s = Inr s' \<and> rc_client rc' = s'
    \<and> ch' = ch\<lparr>ch_request_id := Some (i + 1)\<rparr>"
proof -
  obtain rc1 where e: "ensure_connected conn rc = Inr rc1"
    and s: "\<exists>s'. dispatcher_call W T (the_request W capi i d request) (rc_client rc1) = Inr s' \<and> rc_client rc' = s'
      \<and> ch' = ch\<lparr>ch_request_id := Some (i + 1)\<rparr>"
    using assms by (auto simp: CallMethod_start_def the_request_def Let_def split: sum.splits if_splits)
  from e have "rc_client rc1 = rc_client rc \<or> (\<exists>pl. rc_client rc1 = setPipeline pl (rc_client rc))"
    by (auto simp: ensure_connected_def split: if_splits option.splits)
  with s show ?thesis by blast
qed

lemma link_step_reach:
  assumes "link_step L W M T sapi rc c rc' c'" "conn_reach L W M T sapi svcs lim t c" "cn_client c = rc_client rc"
  shows "conn_reach L W M T sapi svcs lim t c'" "cn_client c' = rc_client rc'"
    "cl_calls (cn_client c') = cl_calls (cn_client c)" "cl_arg (cn_client c') = cl_arg (cn_client c)"
  using assms
  by (cases; auto simp: connect_pipeline_def connect_flag_def connect_error_def quiet_args intro: conn_reach.step)+

lemma link_sent_reach:
  assumes "dispatcher_call W T arg s = Inr s'" "s = cn_client c \<or> (\<exists>pl. s = setPipeline pl (cn_client c))"
    and "conn_reach L W M T sapi svcs lim t c" "rc_client rc' = s'"
  shows "conn_reach L W M T sapi svcs lim t (link_sent L M rc' c)"
proof -
  have "conn_reach L W M T sapi svcs lim t (c\<lparr>cn_client := s\<rparr>)"
    using assms(2) conn_reach.step [OF assms(3) conn_step.connect] assms(3) by auto
  from conn_reach.step [OF this conn_step.call, of arg s'] assms(1,2) show ?thesis
    by (auto simp: link_sent_def assms(4) written_bytes_def setPipeline_def)
qed

lemma link_reach_inv:
  "link_reach L W M T sapi svcs capi lim t calls ch rc c \<Longrightarrow> link_inv L W M T sapi svcs capi lim t calls ch rc c"
proof (induction rule: link_reach.induct)
  case (start pl host port pool c)
  let ?rc = "PbRpcClient_new_limits W T pl host port pool lim t"
  have s: "rc_client ?rc = client_new W (MultiplexClientDispatcher_new T lim t pl)"
    by (simp add: PbRpcClient_new_limits_def)
  from start.hyps obtain n srv q q' where c: "server_reach W sapi svcs n srv" "q_bytes L q = []" "q_bytes L q' = []"
    "c = \<lparr>cn_client = rc_client ?rc, cn_up = lane_new q, cn_work = [], cn_server = srv, cn_done = [],
      cn_down = lane_new q'\<rparr>" by (auto simp: link_start_def)
  from conn_reach.start [OF c(1-3), of M T lim t pl] show ?case
    unfolding c(4) by (simp add: link_inv_def RpcChannel_new_def s) (simp add: client_new_def)
next
  case (call calls ch rc c conn d request ch' rc')
  note i = call.IH [unfolded link_inv_def]
  from i start_call_form [OF call.hyps(2)] obtain s s' where
    s: "s = rc_client rc \<or> (\<exists>pl. s = setPipeline pl (rc_client rc))"
      "dispatcher_call W T (the_request W capi (of_nat (length calls)) d request) s = Inr s'" "rc_client rc' = s'"
      "ch' = ch\<lparr>ch_request_id := Some (of_nat (length calls) + 1)\<rparr>" by blast
  have "conn_reach L W M T sapi svcs lim t (link_sent L M rc' c)"
    using s(1) i by (intro link_sent_reach [OF s(2) _ _ s(3)]) auto
  moreover have "cl_calls s = cl_calls (rc_client rc)" "cl_arg s = cl_arg (rc_client rc)"
    using s(1) by (auto simp: setPipeline_def)
  ultimately show ?case
    using i call_sel [OF s(2)] unfolding link_inv_def
    by (elim conjE) (auto simp: s(3,4) link_sent_def nth_append less_Suc_eq)
next
  case (other calls ch rc c rc' c')
  note i = other.IH [unfolded link_inv_def]
  with link_step_reach [OF other.hyps(2), of svcs lim t] show ?case
    unfolding link_inv_def by (elim conjE) simp
qed

text \<open>The channel's requests have different ids.\<close>

lemma link_ids:
  assumes "link_inv L W M T sapi svcs capi lim t calls ch rc c" "client_reach W T lim t (cn_client c)"
    and "length calls \<le> 2 ^ 64"
  shows "distinct (map rm_id (cl_written (cn_client c)))"
proof -
  obtain ps where ps: "distinct ps" "set ps \<subseteq> {..<length calls}" "cl_written (cn_client c) = map (cl_arg (cn_client c)) ps"
    using written_calls [OF assms(2)] assms(1) by (auto simp: link_inv_def)
  have "rm_id (cl_arg (cn_client c) p) = of_nat p" if "p \<in> set ps" for p
    using assms(1) ps(2) that by (auto simp: link_inv_def)
  then have "map rm_id (cl_written (cn_client c)) = map (\<lambda>p. of_nat p) ps" by (simp add: ps(3))
  with of_nat_ids [OF ps(1,2) assms(3)] show ?thesis by simp
qed

end

context promise_map
begin

text \<open>A run that is well behaved now was so before.\<close>

lemma link_ok_before:
  "\<lbrakk>link_step L W M T sapi rc c rc' c'; link_ok L W c'\<rbrakk> \<Longrightarrow> link_ok L W c"
  by (cases rule: link_step.cases) (auto dest: link_ok_step)

lemma link_ok_sent:
  assumes "CallMethod_start W T capi conn d request ch rc = Inr (ch', rc')" "ch_request_id ch = Some i"
    and "cn_client c = rc_client rc" "link_ok L W (link_sent L M rc' c)"
  shows "link_ok L W c"
proof -
  from start_call_form [OF assms(1,2)] obtain s where
    s: "s = rc_client rc \<or> (\<exists>pl. s = setPipeline pl (rc_client rc))"
      "dispatcher_call W T (the_request W capi i d request) s = Inr (rc_client rc')" by blast
  have "cl_written s = cl_written (cn_client c)" using s(1) by (auto simp: assms(3) setPipeline_def)
  with call_written [OF s(2)] obtain ms where "cl_written (rc_client rc') = cl_written (cn_client c) @ ms"
    by (metis append_Nil2)
  with assms(4) show ?thesis by (auto simp: link_ok_def link_sent_def dest: lane_ok_send)
qed

lemma conn_client_reach:
  "conn_reach L W M T sapi svcs lim t c \<Longrightarrow> client_reach W T lim t (cn_client c)"
proof (induction rule: conn_reach.induct)
  case (start n srv q q' pl)
  show ?case by (simp add: client_reach.connected client_reach.start)
next
  case (step c c')
  from step.hyps(2) step.IH show ?case
    by cases (auto intro: client_reach.connected client_reach.call client_reach.read client_reach.timeout)
qed

lemma link_conn_ok:
  assumes "link_reach L W M T sapi svcs capi lim t calls ch rc c" "link_ok L W c" "length calls \<le> 2 ^ 64"
  shows "conn_ok L W c"
proof -
  note inv = link_reach_inv [OF assms(1)]
  then have "client_reach W T lim t (cn_client c)" unfolding link_inv_def by (blast intro: conn_client_reach)
  from link_ids [OF inv this assms(3)] assms(2) show ?thesis by (simp add: conn_ok_def link_ok_def)
qed

end

section \<open>One call of a channel\<close>

lemma link_sample:
  obtains ch rc and c :: "((s64 \<times> nat) list, byte list, chain, chain, nat, nat, unit) connection"
  where "link_reach chain_lib varint_lib (generated_message_lib varint_lib) alist_table echo_api [77] bytes_api 1 100
      [(1, [8])] ch rc c" "link_ok chain_lib varint_lib c"
    "cl_value (rc_client rc) 0 = Some (received (response_to varint_lib echo_api 77 sample_request))"
proof -
  let ?link = "link_reach chain_lib varint_lib (generated_message_lib varint_lib) alist_table echo_api [77] bytes_api 1 100"
  let ?fresh = "PbRpcClient_new_limits varint_lib alist_table Null [49] 8000 4 1 100 :: ((s64 \<times> nat) list, byte list) rpc_client"
  let ?s0 = "setPipeline 0 (client_new varint_lib (MultiplexClientDispatcher_new alist_table 1 100 Null))"
  let ?rc = "connect_flag (?fresh\<lparr>rc_client := ?s0\<rparr>)"
  have client: "rc_client ?rc = ?s0" "rc_connected ?rc"
    "rc_client ?fresh = client_new varint_lib (MultiplexClientDispatcher_new alist_table 1 100 Null)"
    by (simp_all add: connect_flag_def PbRpcClient_new_limits_def)
  have request: "the_request varint_lib bytes_api 0 1 [8] = sample_request"
    by (simp add: the_request_def build_request_def sample_request_def bytes_api_def)
  let ?idle = "\<lparr>cn_client = rc_client ?fresh, cn_up = lane_new [], cn_work = [], cn_server = echo_server,
    cn_done = [], cn_down = lane_new []\<rparr> :: ((s64 \<times> nat) list, byte list, chain, chain, nat, nat, unit) connection"
  let ?c = "?idle\<lparr>cn_client := ?s0\<rparr>"
  have "?link [] RpcChannel_new ?fresh ?idle"
    by (rule link_reach.start, unfold link_start_def, intro exI conjI, rule echo_reach) simp_all
  moreover have "link_step chain_lib varint_lib (generated_message_lib varint_lib) alist_table echo_api ?fresh ?idle
      (?fresh\<lparr>rc_client := ?s0\<rparr>) ?c"
  proof -
    have "conn_step chain_lib varint_lib (generated_message_lib varint_lib) alist_table echo_api ?idle ?c"
      using conn_step.connect [where c = ?idle and pl = 0] by (simp only: connection.simps client(3))
    moreover have "cl_calls (cn_client ?c) = cl_calls (cn_client ?idle)" by (simp add: client(3) setPipeline_def)
    ultimately show ?thesis using link_step.net [of _ _ _ _ _ ?idle ?c ?fresh] by simp
  qed
  ultimately have r0: "?link [] RpcChannel_new ?rc ?c"
    by (intro link_reach.other [OF _ link_step.flag]) (rule link_reach.other)
  have "CallMethod_start varint_lib alist_table bytes_api None 1 [8] RpcChannel_new ?rc
      = Inr (RpcChannel_new\<lparr>ch_request_id := Some (0 + 1)\<rparr>, ?rc\<lparr>rc_client := one_call\<rparr>)"
    by (simp add: start_connected [OF RpcChannel_new_sel client(2)] client(1) request one_call_step)
  from link_reach.call [OF r0 this] have "?link [(1, [8])] (RpcChannel_new\<lparr>ch_request_id := Some (0 + 1)\<rparr>)
      (?rc\<lparr>rc_client := one_call\<rparr>) sent_call"
    using one_call_written chain_transport.write_frame [OF call_transmittable(1)]
    by (simp add: sent_call_def written_bytes_def link_sent_def)
  then have "\<exists>ch rc. ?link [(1, [8])] ch rc sent_call" by blast
  then show ?thesis
  proof (rule sample_steps)
    fix c :: "((s64 \<times> nat) list, byte list, chain, chain, nat, nat, unit) connection"
    assume "\<exists>ch rc. ?link [(1, [8])] ch rc c" "conn_ok chain_lib varint_lib c"
      and v: "cl_value (cn_client c) 0 = Some (received (response_to varint_lib echo_api 77 sample_request))"
    then obtain ch rc where l: "?link [(1, [8])] ch rc c" and ok: "link_ok chain_lib varint_lib c"
      by (auto simp: conn_ok_def link_ok_def)
    from alist.link_reach_inv [OF l] v show thesis by (intro that [OF l ok]) (simp add: link_inv_def)
  qed (elim exE, intro exI, rule link_reach.other, assumption, rule link_step.net, assumption+)
qed

section \<open>Properties\<close>



end
