(* ===== verification/ExampleMessages.thy ===== *)
theory ExampleMessages
  imports Wire_Lib
begin

text \<open>
  The messages of the example services (\<open>example/MyService.proto\<close>, \<open>example/MyService.pb.cc\<close>). Their
  generated parsers are one loop with a different switch each: the loop and the switch are defined
  once, over a table of cases, and its termination is proved once, in a locale the six classes
  interpret. \<open>EchoReq\<close> and \<open>EchoRes\<close> are the same class up to names, and so are the request and
  result classes of the two number types.
\<close>

section \<open>The runtime's strings and floats\<close>

text \<open>A float is its 32 bits.\<close>

record text_float_lib =
  WriteStringMaybeAliased :: "nat \<Rightarrow> byte list \<Rightarrow> byte list"
  WriteFloat :: "nat \<Rightarrow> u32 \<Rightarrow> byte list"
  ReadString :: "byte list \<Rightarrow> byte list \<Rightarrow> byte list \<times> byte list option"
  ReadFloat :: "u32 \<Rightarrow> byte list \<Rightarrow> u32 \<times> byte list option"
  WriteStringToArray :: "nat \<Rightarrow> byte list \<Rightarrow> byte list \<Rightarrow> byte list"
  WriteFloatToArray :: "nat \<Rightarrow> u32 \<Rightarrow> byte list \<Rightarrow> byte list"
  StringSize :: "byte list \<Rightarrow> u64"

locale example_wire = wire W for W :: "'u wire_lib" +
  fixes X :: text_float_lib
  assumes string_field: "\<lbrakk>1 \<le> k; k \<le> 15; length bs < 2147483648\<rbrakk> \<Longrightarrow>
      \<exists>r. ReadTagWithCutoffNoLastTag W (WriteStringMaybeAliased X k bs @ rest)
          = ((of_nat (8 * k + 2), True), r)
        \<and> (\<forall>old. ReadString X old r = (bs, Some rest))"
    and float_field: "\<lbrakk>1 \<le> k; k \<le> 15\<rbrakk> \<Longrightarrow>
      \<exists>r. ReadTagWithCutoffNoLastTag W (WriteFloat X k x @ rest) = ((of_nat (8 * k + 5), True), r)
        \<and> (\<forall>old. ReadFloat X old r = (x, Some rest))"
    and read_string_shrinks: "ReadString X bs inp = (bs', Some r) \<Longrightarrow> length r \<le> length inp"
    and read_float_shrinks: "ReadFloat X x inp = (x', Some r) \<Longrightarrow> length r \<le> length inp"
    and text_to_array: "WriteStringToArray X k bs tgt = tgt @ WriteStringMaybeAliased X k bs"
    and float_to_array: "WriteFloatToArray X k x tgt = tgt @ WriteFloat X k x"
    and text_size: "\<lbrakk>1 \<le> k; k \<le> 15\<rbrakk> \<Longrightarrow>
      of_nat (length (WriteStringMaybeAliased X k bs)) = 1 + StringSize X bs"
    and float_size: "\<lbrakk>1 \<le> k; k \<le> 15\<rbrakk> \<Longrightarrow> of_nat (length (WriteFloat X k x)) = (1 + 4 :: u64)"

definition v_readfloat :: "u32 \<Rightarrow> byte list \<Rightarrow> u32 \<times> byte list option" where
  "v_readfloat old bs =
     (if length bs < 4 then (old, None) else (of_nat (le_val (take 4 bs)), Some (drop 4 bs)))"

definition text_float :: text_float_lib where
  "text_float = \<lparr>
     WriteStringMaybeAliased = (\<lambda>k bs. vtag k 2 @ v_bytes bs),
     WriteFloat = (\<lambda>k x. vtag k 5 @ le_bytes 4 (unat x)),
     ReadString = v_readbytes, ReadFloat = v_readfloat,
     WriteStringToArray = (\<lambda>k bs t. t @ vtag k 2 @ v_bytes bs),
     WriteFloatToArray = (\<lambda>k x t. t @ vtag k 5 @ le_bytes 4 (unat x)),
     StringSize = (\<lambda>bs. of_nat (length (v_bytes bs)))\<rparr>"

lemma v_readfloat_bytes: "v_readfloat old (le_bytes 4 (unat (x :: u32)) @ rest) = (x, Some rest)"
proof -
  have "unat x < 2 ^ LENGTH(32)" by (rule unsigned_less)
  then show ?thesis by (simp add: v_readfloat_def)
qed

interpretation example_varint: example_wire varint_lib text_float
  apply unfold_locales
  subgoal for k bs rest
    using v_readtag_field [of k v_readbytes _ rest bs 2, OF _ _ v_readbytes_bytes]
    by (simp add: varint_lib_def text_float_def)
  subgoal for k x rest
    using v_readtag_field [of k v_readfloat _ rest x 5, OF _ _ v_readfloat_bytes]
    by (simp add: varint_lib_def text_float_def)
  subgoal by (simp add: text_float_def v_readbytes_shrinks)
  subgoal by (auto simp: text_float_def v_readfloat_def split: if_splits)
  by (simp_all add: text_float_def length_vtag)

section \<open>The loop of the generated parsers\<close>

datatype 'm turn = Again 'm "byte list" | Stop bool 'm "byte list"

text \<open>A case of the switch: the field number, the low byte of its tag and the reader of the field.\<close>

type_synonym 'm field_case = "u32 \<times> byte \<times> ('m \<Rightarrow> byte list \<Rightarrow> 'm \<times> byte list option)"

definition unusual_turn ::
    "'u wire_lib \<Rightarrow> ('m \<Rightarrow> 'u) \<Rightarrow> ('u \<Rightarrow> 'm \<Rightarrow> 'm) \<Rightarrow> u32 \<Rightarrow> 'm \<Rightarrow> byte list \<Rightarrow> 'm turn" where
  "unusual_turn W unk upd tag m inp =
     (if tag = 0 then Stop True m inp
      else (case SkipField W tag (unk m) inp of
              (u, None) \<Rightarrow> Stop False (upd u m) []
            | (u, Some r) \<Rightarrow> Again (upd u m) r))"

definition field_turn ::
    "'u wire_lib \<Rightarrow> 'm field_case list \<Rightarrow> ('m \<Rightarrow> 'u) \<Rightarrow> ('u \<Rightarrow> 'm \<Rightarrow> 'm) \<Rightarrow> 'm \<Rightarrow> byte list \<Rightarrow> 'm turn" where
  "field_turn W tbl unk upd m inp =
     (case ReadTagWithCutoffNoLastTag W inp of ((tag, second), inp) \<Rightarrow>
        if \<not> second then unusual_turn W unk upd tag m inp
        else (case find (\<lambda>(k, low, rd). GetTagFieldNumber W tag = k) tbl of
            None \<Rightarrow> unusual_turn W unk upd tag m inp
          | Some (k, low, rd) \<Rightarrow>
              if ucast tag = low then
                (case rd m inp of (m', None) \<Rightarrow> Stop False m' [] | (m', Some r) \<Rightarrow> Again m' r)
              else unusual_turn W unk upd tag m inp))"

partial_function (option) parse_loop ::
    "('m \<Rightarrow> byte list \<Rightarrow> 'm turn) \<Rightarrow> 'm \<Rightarrow> byte list \<Rightarrow> (bool \<times> 'm \<times> byte list) option" where
  "parse_loop turn m inp = (case turn m inp of
      Again m' r \<Rightarrow> parse_loop turn m' r
    | Stop ok m' r \<Rightarrow> Some (ok, m', r))"

declare parse_loop.simps [code]

lemma find_case:
  "find (\<lambda>(k, low, rd). n = k) tbl = Some (k, low, rd) \<Longrightarrow> (k, low, rd) \<in> set tbl \<and> n = k"
  by (induction tbl) (auto split: if_splits)

lemma find_no_case: "(\<And>k low rd. (k, low, rd) \<in> set tbl \<Longrightarrow> n \<noteq> k) \<Longrightarrow> find (\<lambda>(k, low, rd). n = k) tbl = None"
  by (induction tbl) (simp, force)

locale generated_parser = wire W for W :: "'u wire_lib" +
  fixes tbl :: "'m field_case list" and unk :: "'m \<Rightarrow> 'u" and upd :: "'u \<Rightarrow> 'm \<Rightarrow> 'm"
  assumes case_number: "(k, low, rd) \<in> set tbl \<Longrightarrow> k \<noteq> 0"
    and reader_shrinks: "\<lbrakk>(k, low, rd) \<in> set tbl; rd m inp = (m', Some r)\<rbrakk> \<Longrightarrow> length r \<le> length inp"
begin

lemma unusual_turn_shrinks:
  assumes "unusual_turn W unk upd tag m inp = Again m' r"
  shows "tag \<noteq> 0 \<and> length r \<le> length inp"
proof -
  obtain u rest where skip: "SkipField W tag (unk m) inp = (u, rest)" by (metis prod.exhaust)
  have "tag \<noteq> 0" using assms by (auto simp: unusual_turn_def)
  with assms skip have "rest = Some r" by (cases rest) (simp_all add: unusual_turn_def)
  with skip \<open>tag \<noteq> 0\<close> show ?thesis by (simp add: skip_shrinks)
qed

lemma turn_cases:
  assumes "field_turn W tbl unk upd m inp = Again m' r"
    and "ReadTagWithCutoffNoLastTag W inp = ((tag, second), r0)"
  shows "unusual_turn W unk upd tag m r0 = Again m' r
    \<or> (\<exists>k low rd. (k, low, rd) \<in> set tbl \<and> GetTagFieldNumber W tag = k \<and> rd m r0 = (m', Some r))"
proof (cases "second \<and> (\<exists>c. find (\<lambda>(k, low, rd). GetTagFieldNumber W tag = k) tbl = Some c)")
  case False
  then have "\<not> second \<or> find (\<lambda>(k, low, rd). GetTagFieldNumber W tag = k) tbl = None"
    by (metis not_None_eq)
  with assms show ?thesis by (simp add: field_turn_def split: if_splits)
next
  case True
  then obtain k low rd where hit: "find (\<lambda>(k, low, rd). GetTagFieldNumber W tag = k) tbl = Some (k, low, rd)"
    by (metis prod.exhaust)
  obtain m1 rest where rd: "rd m r0 = (m1, rest)" by (metis prod.exhaust)
  show ?thesis
  proof (cases "ucast tag = low")
    case True
    with \<open>second \<and> _\<close> assms hit rd have "rd m r0 = (m', Some r)"
      by (cases rest) (simp_all add: field_turn_def)
    with find_case [OF hit] show ?thesis by blast
  next
    case False
    with \<open>second \<and> _\<close> assms hit show ?thesis by (simp add: field_turn_def)
  qed
qed

lemma number_zero: "GetTagFieldNumber W 0 = 0"
  using field_number [of 0 0] by simp

lemma turn_shrinks:
  assumes "field_turn W tbl unk upd m inp = Again m' r"
  shows "length r < length inp"
proof -
  obtain tag second r0 where t: "ReadTagWithCutoffNoLastTag W inp = ((tag, second), r0)"
    by (metis prod.exhaust)
  from turn_cases [OF assms t] have "tag \<noteq> 0 \<and> length r \<le> length r0"
  proof
    assume "unusual_turn W unk upd tag m r0 = Again m' r"
    then show ?thesis by (rule unusual_turn_shrinks)
  next
    assume "\<exists>k low rd. (k, low, rd) \<in> set tbl \<and> GetTagFieldNumber W tag = k \<and> rd m r0 = (m', Some r)"
    then show ?thesis using case_number reader_shrinks number_zero by metis
  qed
  with tag_consumes [OF t] show ?thesis by simp
qed

lemma loop_terminates: "\<exists>res. parse_loop (field_turn W tbl unk upd) m inp = Some res"
proof (induction inp arbitrary: m rule: length_induct)
  case (1 inp)
  show ?case
  proof (cases "field_turn W tbl unk upd m inp")
    case (Again m' r)
    with 1 turn_shrinks [OF Again] show ?thesis by (simp add: parse_loop.simps [of _ m inp])
  next
    case (Stop ok m' r)
    then show ?thesis by (simp add: parse_loop.simps [of _ m inp])
  qed
qed

lemma loop_end: "parse_loop (field_turn W tbl unk upd) m [] = Some (True, m, [])"
proof -
  obtain b where t: "ReadTagWithCutoffNoLastTag W [] = ((0, b), [])" using tag_at_end by blast
  have n: "find (\<lambda>(k, low, rd). GetTagFieldNumber W 0 = k) tbl = None"
    by (rule find_no_case) (use case_number number_zero in force)
  have "field_turn W tbl unk upd m [] = Stop True m []"
    by (simp add: field_turn_def t n unusual_turn_def)
  then show ?thesis by (simp add: parse_loop.simps [of _ m])
qed

lemma loop_field:
  assumes "ReadTagWithCutoffNoLastTag W inp = ((tag, True), r0)"
    and "case find (\<lambda>(k, low, rd). GetTagFieldNumber W tag = k) tbl of
      Some (k, low, rd) \<Rightarrow> ucast tag = low \<and> rd m r0 = (m', Some r) | None \<Rightarrow> False"
  shows "parse_loop (field_turn W tbl unk upd) m inp = parse_loop (field_turn W tbl unk upd) m' r"
  using assms by (auto simp: parse_loop.simps [of _ m inp] field_turn_def split: option.splits)

end

text \<open>protobuf's \<open>ParseFromString\<close> on a cleared message: the loop, and success when it ended well with
  every byte read and every required field set.\<close>

definition parse_string ::
    "('m \<Rightarrow> byte list \<Rightarrow> 'm turn) \<Rightarrow> ('m \<Rightarrow> bool) \<Rightarrow> byte list \<Rightarrow> 'm \<Rightarrow> bool \<times> 'm" where
  "parse_string turn initialized bs m = (case parse_loop turn m bs of
      Some (ok, m', rest) \<Rightarrow> (ok \<and> rest = [] \<and> initialized m', m')
    | None \<Rightarrow> (False, m))"

section \<open>\<open>EchoReq\<close> and \<open>EchoRes\<close>\<close>

record 'u EchoMsg =
  em_has_bits :: u32
  em_text :: "byte list"
  em_unknown :: 'u
  em_cached_size :: s32

definition EchoMsg_new :: "'u wire_lib \<Rightarrow> 'u EchoMsg" where
  "EchoMsg_new W = \<lparr>em_has_bits = 0, em_text = [], em_unknown = no_unknown_fields W,
     em_cached_size = 0\<rparr>"

definition set_text :: "byte list \<Rightarrow> 'u EchoMsg \<Rightarrow> 'u EchoMsg" where
  "set_text s m = m\<lparr>em_has_bits := em_has_bits m OR 1, em_text := s\<rparr>"

definition EchoMsg_clear :: "'u wire_lib \<Rightarrow> 'u EchoMsg \<Rightarrow> 'u EchoMsg" where
  "EchoMsg_clear W m =
     (let cached_has_bits = em_has_bits m;
          m = (if cached_has_bits AND 1 \<noteq> 0 then m\<lparr>em_text := []\<rparr> else m)
      in m\<lparr>em_has_bits := 0, em_unknown := no_unknown_fields W\<rparr>)"

definition EchoMsg_initialized :: "'u EchoMsg \<Rightarrow> bool" where
  "EchoMsg_initialized m \<longleftrightarrow> em_has_bits m AND 1 = 1"

text \<open>Checking the string's encoding only prints a diagnostic.\<close>

definition EchoMsg_cases :: "text_float_lib \<Rightarrow> 'u EchoMsg field_case list" where
  "EchoMsg_cases X = [(1, 10, \<lambda>m inp.
     let m = m\<lparr>em_has_bits := em_has_bits m OR 1\<rparr>
     in case ReadString X (em_text m) inp of (s, r) \<Rightarrow> (m\<lparr>em_text := s\<rparr>, r))]"

definition EchoMsg_turn :: "'u wire_lib \<Rightarrow> text_float_lib \<Rightarrow> 'u EchoMsg \<Rightarrow> byte list \<Rightarrow> 'u EchoMsg turn" where
  "EchoMsg_turn W X = field_turn W (EchoMsg_cases X) em_unknown (\<lambda>u m. m\<lparr>em_unknown := u\<rparr>)"

definition EchoMsg_serialize :: "'u wire_lib \<Rightarrow> text_float_lib \<Rightarrow> 'u EchoMsg \<Rightarrow> byte list" where
  "EchoMsg_serialize W X m =
     (let cached_has_bits = em_has_bits m; out = [];
          out = (if cached_has_bits AND 1 \<noteq> 0 then out @ WriteStringMaybeAliased X 1 (em_text m) else out)
      in if have_unknown_fields W (em_unknown m) then out @ SerializeUnknownFields W (em_unknown m) else out)"

section \<open>\<open>OperaReq\<close>, \<open>OperaRes\<close> and their float versions\<close>

record ('u, 'n) OperaReqMsg =
  oq_has_bits :: u32
  oq_a :: 'n
  oq_b :: 'n
  oq_unknown :: 'u
  oq_cached_size :: s32

record ('u, 'n) OperaResMsg =
  os_has_bits :: u32
  os_c :: 'n
  os_unknown :: 'u
  os_cached_size :: s32

definition OperaReqMsg_new :: "'u wire_lib \<Rightarrow> ('u, 'n :: zero) OperaReqMsg" where
  "OperaReqMsg_new W = \<lparr>oq_has_bits = 0, oq_a = 0, oq_b = 0, oq_unknown = no_unknown_fields W,
     oq_cached_size = 0\<rparr>"

definition OperaResMsg_new :: "'u wire_lib \<Rightarrow> ('u, 'n :: zero) OperaResMsg" where
  "OperaResMsg_new W = \<lparr>os_has_bits = 0, os_c = 0, os_unknown = no_unknown_fields W,
     os_cached_size = 0\<rparr>"

definition set_a :: "'n \<Rightarrow> ('u, 'n) OperaReqMsg \<Rightarrow> ('u, 'n) OperaReqMsg" where
  "set_a v m = m\<lparr>oq_has_bits := oq_has_bits m OR 1, oq_a := v\<rparr>"

definition set_b :: "'n \<Rightarrow> ('u, 'n) OperaReqMsg \<Rightarrow> ('u, 'n) OperaReqMsg" where
  "set_b v m = m\<lparr>oq_has_bits := oq_has_bits m OR 2, oq_b := v\<rparr>"

definition set_c :: "'n \<Rightarrow> ('u, 'n) OperaResMsg \<Rightarrow> ('u, 'n) OperaResMsg" where
  "set_c v m = m\<lparr>os_has_bits := os_has_bits m OR 1, os_c := v\<rparr>"

definition OperaReqMsg_clear :: "'u wire_lib \<Rightarrow> ('u, 'n :: zero) OperaReqMsg \<Rightarrow> ('u, 'n) OperaReqMsg" where
  "OperaReqMsg_clear W m =
     (let cached_has_bits = oq_has_bits m;
          m = (if cached_has_bits AND 3 \<noteq> 0 then m\<lparr>oq_a := 0, oq_b := 0\<rparr> else m)
      in m\<lparr>oq_has_bits := 0, oq_unknown := no_unknown_fields W\<rparr>)"

definition OperaResMsg_clear :: "'u wire_lib \<Rightarrow> ('u, 'n :: zero) OperaResMsg \<Rightarrow> ('u, 'n) OperaResMsg" where
  "OperaResMsg_clear W m = m\<lparr>os_c := 0, os_has_bits := 0, os_unknown := no_unknown_fields W\<rparr>"

definition OperaReqMsg_initialized :: "('u, 'n) OperaReqMsg \<Rightarrow> bool" where
  "OperaReqMsg_initialized m \<longleftrightarrow> oq_has_bits m AND 3 = 3"

definition OperaResMsg_initialized :: "('u, 'n) OperaResMsg \<Rightarrow> bool" where
  "OperaResMsg_initialized m \<longleftrightarrow> os_has_bits m AND 1 = 1"

definition OperaReqMsg_cases ::
    "byte \<Rightarrow> byte \<Rightarrow> ('n \<Rightarrow> byte list \<Rightarrow> 'n \<times> byte list option) \<Rightarrow> ('u, 'n) OperaReqMsg field_case list" where
  "OperaReqMsg_cases la lb rd =
    [(1, la, \<lambda>m inp.
       let m = m\<lparr>oq_has_bits := oq_has_bits m OR 1\<rparr>
       in case rd (oq_a m) inp of (v, r) \<Rightarrow> (m\<lparr>oq_a := v\<rparr>, r)),
     (2, lb, \<lambda>m inp.
       let m = m\<lparr>oq_has_bits := oq_has_bits m OR 2\<rparr>
       in case rd (oq_b m) inp of (v, r) \<Rightarrow> (m\<lparr>oq_b := v\<rparr>, r))]"

definition OperaResMsg_cases ::
    "byte \<Rightarrow> ('n \<Rightarrow> byte list \<Rightarrow> 'n \<times> byte list option) \<Rightarrow> ('u, 'n) OperaResMsg field_case list" where
  "OperaResMsg_cases lc rd =
    [(1, lc, \<lambda>m inp.
       let m = m\<lparr>os_has_bits := os_has_bits m OR 1\<rparr>
       in case rd (os_c m) inp of (v, r) \<Rightarrow> (m\<lparr>os_c := v\<rparr>, r))]"

definition OperaReqMsg_turn ::
    "'u wire_lib \<Rightarrow> byte \<Rightarrow> byte \<Rightarrow> ('n \<Rightarrow> byte list \<Rightarrow> 'n \<times> byte list option)
     \<Rightarrow> ('u, 'n) OperaReqMsg \<Rightarrow> byte list \<Rightarrow> ('u, 'n) OperaReqMsg turn" where
  "OperaReqMsg_turn W la lb rd = field_turn W (OperaReqMsg_cases la lb rd) oq_unknown (\<lambda>u m. m\<lparr>oq_unknown := u\<rparr>)"

definition OperaResMsg_turn ::
    "'u wire_lib \<Rightarrow> byte \<Rightarrow> ('n \<Rightarrow> byte list \<Rightarrow> 'n \<times> byte list option)
     \<Rightarrow> ('u, 'n) OperaResMsg \<Rightarrow> byte list \<Rightarrow> ('u, 'n) OperaResMsg turn" where
  "OperaResMsg_turn W lc rd = field_turn W (OperaResMsg_cases lc rd) os_unknown (\<lambda>u m. m\<lparr>os_unknown := u\<rparr>)"

definition OperaReqMsg_serialize ::
    "'u wire_lib \<Rightarrow> (nat \<Rightarrow> 'n \<Rightarrow> byte list) \<Rightarrow> ('u, 'n) OperaReqMsg \<Rightarrow> byte list" where
  "OperaReqMsg_serialize W wr m =
     (let cached_has_bits = oq_has_bits m; out = [];
          out = (if cached_has_bits AND 1 \<noteq> 0 then out @ wr 1 (oq_a m) else out);
          out = (if cached_has_bits AND 2 \<noteq> 0 then out @ wr 2 (oq_b m) else out)
      in if have_unknown_fields W (oq_unknown m) then out @ SerializeUnknownFields W (oq_unknown m) else out)"

definition OperaResMsg_serialize ::
    "'u wire_lib \<Rightarrow> (nat \<Rightarrow> 'n \<Rightarrow> byte list) \<Rightarrow> ('u, 'n) OperaResMsg \<Rightarrow> byte list" where
  "OperaResMsg_serialize W wr m =
     (let cached_has_bits = os_has_bits m; out = [];
          out = (if cached_has_bits AND 1 \<noteq> 0 then out @ wr 1 (os_c m) else out)
      in if have_unknown_fields W (os_unknown m) then out @ SerializeUnknownFields W (os_unknown m) else out)"

text \<open>The integer classes have varint fields (tags 8 and 16), the float classes 32-bit fields (13, 21).\<close>

definition OperaReq_turn :: "'u wire_lib \<Rightarrow> ('u, s64) OperaReqMsg \<Rightarrow> byte list \<Rightarrow> ('u, s64) OperaReqMsg turn" where
  "OperaReq_turn W = OperaReqMsg_turn W 8 16 (ReadInt64 W)"

definition OperaRes_turn :: "'u wire_lib \<Rightarrow> ('u, s64) OperaResMsg \<Rightarrow> byte list \<Rightarrow> ('u, s64) OperaResMsg turn" where
  "OperaRes_turn W = OperaResMsg_turn W 8 (ReadInt64 W)"

definition OperaReqF_turn ::
    "'u wire_lib \<Rightarrow> text_float_lib \<Rightarrow> ('u, u32) OperaReqMsg \<Rightarrow> byte list \<Rightarrow> ('u, u32) OperaReqMsg turn" where
  "OperaReqF_turn W X = OperaReqMsg_turn W 13 21 (ReadFloat X)"

definition OperaResF_turn ::
    "'u wire_lib \<Rightarrow> text_float_lib \<Rightarrow> ('u, u32) OperaResMsg \<Rightarrow> byte list \<Rightarrow> ('u, u32) OperaResMsg turn" where
  "OperaResF_turn W X = OperaResMsg_turn W 13 (ReadFloat X)"

lemma clear_new [simp]:
  "EchoMsg_clear W (EchoMsg_new W) = EchoMsg_new W" "OperaReqMsg_clear W (OperaReqMsg_new W) = OperaReqMsg_new W"
  "OperaResMsg_clear W (OperaResMsg_new W) = OperaResMsg_new W"
  by (simp_all add: EchoMsg_clear_def EchoMsg_new_def OperaReqMsg_clear_def OperaReqMsg_new_def
      OperaResMsg_clear_def OperaResMsg_new_def)

section \<open>Round trips\<close>

text \<open>A number format: writing and reading a field with wire type \<open>wt\<close>.\<close>

locale number_codec = wire W for W :: "'u wire_lib" +
  fixes wr :: "nat \<Rightarrow> 'n \<Rightarrow> byte list" and rd :: "'n \<Rightarrow> byte list \<Rightarrow> 'n \<times> byte list option" and wt :: nat
  assumes number_field: "\<lbrakk>1 \<le> k; k \<le> 15\<rbrakk> \<Longrightarrow>
      \<exists>r. ReadTagWithCutoffNoLastTag W (wr k v @ rest) = ((of_nat (8 * k + wt), True), r)
        \<and> (\<forall>old. rd old r = (v, Some rest))"
    and read_shrinks: "rd old inp = (v, Some r) \<Longrightarrow> length r \<le> length inp"
    and wire_type: "wt < 8"

sublocale number_codec \<subseteq> operands: generated_parser W "OperaReqMsg_cases la lb rd" oq_unknown
    "\<lambda>u (m :: ('u, 'n) OperaReqMsg). m\<lparr>oq_unknown := u\<rparr>" for la lb
  by unfold_locales
    (auto simp: OperaReqMsg_cases_def Let_def split: prod.splits dest: read_shrinks)

sublocale number_codec \<subseteq> result: generated_parser W "OperaResMsg_cases la rd" os_unknown
    "\<lambda>u (m :: ('u, 'n) OperaResMsg). m\<lparr>os_unknown := u\<rparr>" for la
  by unfold_locales
    (auto simp: OperaResMsg_cases_def Let_def split: prod.splits dest: read_shrinks)

sublocale example_wire \<subseteq> int64: number_codec W "WriteInt64 W" "ReadInt64 W" 0
  using int64_field read_int64_shrinks by unfold_locales auto

sublocale example_wire \<subseteq> float: number_codec W "WriteFloat X" "ReadFloat X" 5
  using float_field read_float_shrinks by unfold_locales auto

sublocale example_wire \<subseteq> echo: generated_parser W "EchoMsg_cases X" em_unknown
    "\<lambda>u (m :: 'u EchoMsg). m\<lparr>em_unknown := u\<rparr>"
  by unfold_locales
    (auto simp: EchoMsg_cases_def Let_def split: prod.splits dest: read_string_shrinks)


text \<open>A present field is one turn of the loop.\<close>

lemma loop_if:
  assumes "b \<Longrightarrow> parse_loop t m (seg @ rest) = parse_loop t (g m) rest"
  shows "parse_loop t m ((if b then seg else []) @ rest) = parse_loop t (if b then g m else m) rest"
  using assms by simp

context number_codec
begin

lemma low_tag: "1 \<le> k \<Longrightarrow> k \<le> 15 \<Longrightarrow> ucast (of_nat (8 * k + wt) :: u32) = (of_nat (8 * k + wt) :: byte)"
  using wire_type by (simp add: unsigned_of_nat take_bit_nat_eq_self del: of_nat_add of_nat_mult)

lemma case_of: "1 \<le> k \<Longrightarrow> k \<le> 15 \<Longrightarrow> GetTagFieldNumber W (of_nat (8 * k + wt)) = of_nat k"
  using field_number [of k wt] wire_type by simp

lemma operands_parse:
  assumes "oq_unknown m = no_unknown_fields W" "la = of_nat (8 * 1 + wt)" "lb = of_nat (8 * 2 + wt)"
  shows "parse_loop (OperaReqMsg_turn W la lb rd) m0 (OperaReqMsg_serialize W wr m)
    = Some (True, (let m1 = (if oq_has_bits m AND 1 \<noteq> 0 then set_a (oq_a m) m0 else m0)
        in if oq_has_bits m AND 2 \<noteq> 0 then set_b (oq_b m) m1 else m1), [])"
proof -
  let ?loop = "parse_loop (OperaReqMsg_turn W la lb rd)"
  have step_a: "?loop x (wr 1 v @ rest) = ?loop (set_a v x) rest" for x v rest
  proof -
    from number_field [of 1 v rest] obtain r where
      t: "ReadTagWithCutoffNoLastTag W (wr 1 v @ rest) = ((of_nat (8 * 1 + wt), True), r)"
      and r: "\<forall>old. rd old r = (v, Some rest)" by auto
    have "ucast (of_nat (8 * 1 + wt) :: u32) = la" "GetTagFieldNumber W (of_nat (8 * 1 + wt)) = 1"
      using low_tag [of 1] case_of [of 1] assms(2) by simp_all
    then show ?thesis
      unfolding OperaReqMsg_turn_def using r
      by (intro operands.loop_field [OF t]) (simp_all add: OperaReqMsg_cases_def set_a_def)
  qed
  have step_b: "?loop x (wr 2 v @ rest) = ?loop (set_b v x) rest" for x v rest
  proof -
    from number_field [of 2 v rest] obtain r where
      t: "ReadTagWithCutoffNoLastTag W (wr 2 v @ rest) = ((of_nat (8 * 2 + wt), True), r)"
      and r: "\<forall>old. rd old r = (v, Some rest)" by auto
    have "ucast (of_nat (8 * 2 + wt) :: u32) = lb" "GetTagFieldNumber W (of_nat (8 * 2 + wt)) = 2"
      using low_tag [of 2] case_of [of 2] assms(3) by simp_all
    then show ?thesis
      unfolding OperaReqMsg_turn_def using r
      by (intro operands.loop_field [OF t]) (simp_all add: OperaReqMsg_cases_def set_b_def)
  qed
  have "OperaReqMsg_serialize W wr m = (if oq_has_bits m AND 1 \<noteq> 0 then wr 1 (oq_a m) else [])
      @ (if oq_has_bits m AND 2 \<noteq> 0 then wr 2 (oq_b m) else []) @ []"
    using assms(1) unknown(1) by (simp add: OperaReqMsg_serialize_def Let_def)
  then show ?thesis
    by (simp only: loop_if [where g = "set_a _", OF step_a] loop_if [where g = "set_b _", OF step_b] Let_def)
      (simp add: OperaReqMsg_turn_def operands.loop_end)
qed

lemma result_parse:
  assumes "os_unknown m = no_unknown_fields W" "lc = of_nat (8 * 1 + wt)"
  shows "parse_loop (OperaResMsg_turn W lc rd) m0 (OperaResMsg_serialize W wr m)
    = Some (True, if os_has_bits m AND 1 \<noteq> 0 then set_c (os_c m) m0 else m0, [])"
proof -
  let ?loop = "parse_loop (OperaResMsg_turn W lc rd)"
  have step_c: "?loop x (wr 1 v @ rest) = ?loop (set_c v x) rest" for x v rest
  proof -
    from number_field [of 1 v rest] obtain r where
      t: "ReadTagWithCutoffNoLastTag W (wr 1 v @ rest) = ((of_nat (8 * 1 + wt), True), r)"
      and r: "\<forall>old. rd old r = (v, Some rest)" by auto
    have "ucast (of_nat (8 * 1 + wt) :: u32) = lc" "GetTagFieldNumber W (of_nat (8 * 1 + wt)) = 1"
      using low_tag [of 1] case_of [of 1] assms(2) by simp_all
    then show ?thesis
      unfolding OperaResMsg_turn_def using r
      by (intro result.loop_field [OF t]) (simp_all add: OperaResMsg_cases_def set_c_def)
  qed
  have "OperaResMsg_serialize W wr m = (if os_has_bits m AND 1 \<noteq> 0 then wr 1 (os_c m) else []) @ []"
    using assms(1) unknown(1) by (simp add: OperaResMsg_serialize_def Let_def)
  then show ?thesis
    by (simp only: loop_if [where g = "set_c _", OF step_c]) (simp add: OperaResMsg_turn_def result.loop_end)
qed

end

context example_wire
begin

lemma echo_parse:
  assumes "em_unknown m = no_unknown_fields W" "length (em_text m) < 2147483648"
  shows "parse_loop (EchoMsg_turn W X) m0 (EchoMsg_serialize W X m)
    = Some (True, if em_has_bits m AND 1 \<noteq> 0 then set_text (em_text m) m0 else m0, [])"
proof -
  let ?loop = "parse_loop (EchoMsg_turn W X)"
  have step: "?loop x (WriteStringMaybeAliased X 1 (em_text m) @ rest) = ?loop (set_text (em_text m) x) rest"
    for x rest
  proof -
    from string_field [of 1 "em_text m" rest] assms(2) obtain r where
      t: "ReadTagWithCutoffNoLastTag W (WriteStringMaybeAliased X 1 (em_text m) @ rest)
        = ((of_nat (8 * 1 + 2), True), r)"
      and r: "\<forall>old. ReadString X old r = (em_text m, Some rest)" by auto
    have "GetTagFieldNumber W (of_nat (8 * 1 + 2)) = 1" using field_number [of 1 2] by simp
    then show ?thesis
      unfolding EchoMsg_turn_def using r
      by (intro echo.loop_field [OF t]) (simp_all add: EchoMsg_cases_def set_text_def)
  qed
  have "EchoMsg_serialize W X m
      = (if em_has_bits m AND 1 \<noteq> 0 then WriteStringMaybeAliased X 1 (em_text m) else []) @ []"
    using assms(1) unknown(1) by (simp add: EchoMsg_serialize_def Let_def)
  then show ?thesis
    by (simp only: loop_if [where g = "set_text _", OF step]) (simp add: EchoMsg_turn_def echo.loop_end)
qed

lemma OperaReq_parse:
  "oq_unknown m = no_unknown_fields W \<Longrightarrow>
   parse_loop (OperaReq_turn W) m0 (OperaReqMsg_serialize W (WriteInt64 W) m)
    = Some (True, (let m1 = (if oq_has_bits m AND 1 \<noteq> 0 then set_a (oq_a m) m0 else m0)
        in if oq_has_bits m AND 2 \<noteq> 0 then set_b (oq_b m) m1 else m1), [])"
  unfolding OperaReq_turn_def by (rule int64.operands_parse) simp_all

lemma OperaReqF_parse:
  "oq_unknown m = no_unknown_fields W \<Longrightarrow>
   parse_loop (OperaReqF_turn W X) m0 (OperaReqMsg_serialize W (WriteFloat X) m)
    = Some (True, (let m1 = (if oq_has_bits m AND 1 \<noteq> 0 then set_a (oq_a m) m0 else m0)
        in if oq_has_bits m AND 2 \<noteq> 0 then set_b (oq_b m) m1 else m1), [])"
  unfolding OperaReqF_turn_def by (rule float.operands_parse) simp_all

lemma OperaRes_parse:
  "os_unknown m = no_unknown_fields W \<Longrightarrow>
   parse_loop (OperaRes_turn W) m0 (OperaResMsg_serialize W (WriteInt64 W) m)
    = Some (True, if os_has_bits m AND 1 \<noteq> 0 then set_c (os_c m) m0 else m0, [])"
  unfolding OperaRes_turn_def by (rule int64.result_parse) simp_all

lemma OperaResF_parse:
  "os_unknown m = no_unknown_fields W \<Longrightarrow>
   parse_loop (OperaResF_turn W X) m0 (OperaResMsg_serialize W (WriteFloat X) m)
    = Some (True, if os_has_bits m AND 1 \<noteq> 0 then set_c (os_c m) m0 else m0, [])"
  unfolding OperaResF_turn_def by (rule float.result_parse) simp_all

end

end
