(* ===== verification/RpcServerTest.thy ===== *)
theory RpcServerTest
  imports ExampleMessages PbRpcServer
begin

text \<open>
  The example server (\<open>example/RpcServerTest.cpp\<close>) over the service classes of
  \<open>example/MyService.pb.cc\<close>: the two service implementations with their call counters, the generated
  dispatch on the method index, and \<open>main\<close>, which registers both services and picks the port. The
  record \<open>cpp_env\<close> holds what the code leaves to the machine: float arithmetic and the value of a
  signed addition or subtraction that overflows (undefined in C++).
\<close>

section \<open>Machine arithmetic\<close>

record cpp_env =
  float_mul :: "u32 \<Rightarrow> u32 \<Rightarrow> u32"
  float_div :: "u32 \<Rightarrow> u32 \<Rightarrow> u32"
  int_to_float :: "int \<Rightarrow> u32"
  overflow_add :: "s64 \<Rightarrow> s64 \<Rightarrow> s64"
  overflow_sub :: "s64 \<Rightarrow> s64 \<Rightarrow> s64"

definition fits_s64 :: "int \<Rightarrow> bool" where
  "fits_s64 x \<longleftrightarrow> - (2 ^ 63) \<le> x \<and> x < 2 ^ 63"

definition add_s64 :: "cpp_env \<Rightarrow> s64 \<Rightarrow> s64 \<Rightarrow> s64" where
  "add_s64 E a b = (if fits_s64 (sint a + sint b) then a + b else overflow_add E a b)"

definition sub_s64 :: "cpp_env \<Rightarrow> s64 \<Rightarrow> s64 \<Rightarrow> s64" where
  "sub_s64 E a b = (if fits_s64 (sint a - sint b) then a - b else overflow_sub E a b)"

section \<open>The service implementations\<close>

text \<open>The counter of \<open>Service2Impl\<close> is not initialised (\<open>None\<close>). A method gives the response, the
  counter it prints and the object after the call; \<open>done\<close> is null on the server.\<close>

record service_impl =
  callCount :: "s64 option"

definition MyServiceImpl_new :: service_impl where
  "MyServiceImpl_new = \<lparr>callCount = Some 0\<rparr>"

definition Service2Impl_new :: service_impl where
  "Service2Impl_new = \<lparr>callCount = None\<rparr>"

definition count_call :: "service_impl \<Rightarrow> s64 option \<times> service_impl" where
  "count_call impl = (callCount impl, impl\<lparr>callCount := map_option (\<lambda>n. n + 1) (callCount impl)\<rparr>)"

definition Echo :: "'u EchoMsg \<Rightarrow> 'u EchoMsg \<Rightarrow> service_impl \<Rightarrow> 'u EchoMsg \<times> s64 option \<times> service_impl" where
  "Echo request response impl = (let response = set_text (em_text request) response in (response, count_call impl))"

definition Add ::
    "cpp_env \<Rightarrow> ('u, s64) OperaReqMsg \<Rightarrow> ('u, s64) OperaResMsg \<Rightarrow> service_impl
     \<Rightarrow> ('u, s64) OperaResMsg \<times> s64 option \<times> service_impl" where
  "Add E request response impl =
     (let response = set_c (add_s64 E (oq_a request) (oq_b request)) response in (response, count_call impl))"

definition Sub ::
    "cpp_env \<Rightarrow> ('u, s64) OperaReqMsg \<Rightarrow> ('u, s64) OperaResMsg \<Rightarrow> service_impl
     \<Rightarrow> ('u, s64) OperaResMsg \<times> s64 option \<times> service_impl" where
  "Sub E request response impl =
     (let response = set_c (sub_s64 E (oq_a request) (oq_b request)) response in (response, count_call impl))"

definition Mul ::
    "cpp_env \<Rightarrow> ('u, u32) OperaReqMsg \<Rightarrow> ('u, u32) OperaResMsg \<Rightarrow> service_impl
     \<Rightarrow> ('u, u32) OperaResMsg \<times> s64 option \<times> service_impl" where
  "Mul E request response impl =
     (let response = set_c (float_mul E (oq_a request) (oq_b request)) response in (response, count_call impl))"

definition Div ::
    "cpp_env \<Rightarrow> ('u, u32) OperaReqMsg \<Rightarrow> ('u, u32) OperaResMsg \<Rightarrow> service_impl
     \<Rightarrow> ('u, u32) OperaResMsg \<times> s64 option \<times> service_impl" where
  "Div E request response impl =
     (let response = set_c (float_div E (oq_a request) (oq_b request)) response in (response, count_call impl))"

section \<open>The generated services\<close>

datatype example_service = MyService | Service2

datatype 'u example_message = EchoReq "'u EchoMsg" | EchoRes "'u EchoMsg"
  | OperaReq "('u, s64) OperaReqMsg" | OperaRes "('u, s64) OperaResMsg"
  | OperaReqF "('u, u32) OperaReqMsg" | OperaResF "('u, u32) OperaResMsg"

text \<open>A method descriptor is the service and the index. A prototype is the default instance of its
  class; no prototype is the fatal log of the default branch.\<close>

fun GetRequestProto :: "'u wire_lib \<Rightarrow> example_service \<Rightarrow> nat \<Rightarrow> 'u example_message option" where
  "GetRequestProto W MyService i =
     (if i = 0 then Some (EchoReq (EchoMsg_new W))
      else if i = 1 then Some (OperaReq (OperaReqMsg_new W))
      else if i = 2 then Some (OperaReq (OperaReqMsg_new W)) else None)"
| "GetRequestProto W Service2 i =
     (if i = 0 then Some (OperaReqF (OperaReqMsg_new W))
      else if i = 1 then Some (OperaReqF (OperaReqMsg_new W)) else None)"

fun GetResponseProto :: "'u wire_lib \<Rightarrow> example_service \<Rightarrow> nat \<Rightarrow> 'u example_message option" where
  "GetResponseProto W MyService i =
     (if i = 0 then Some (EchoRes (EchoMsg_new W))
      else if i = 1 then Some (OperaRes (OperaResMsg_new W))
      else if i = 2 then Some (OperaRes (OperaResMsg_new W)) else None)"
| "GetResponseProto W Service2 i =
     (if i = 0 then Some (OperaResF (OperaResMsg_new W))
      else if i = 1 then Some (OperaResF (OperaResMsg_new W)) else None)"

text \<open>\<open>CallMethod\<close>: the cast arguments, the implementation, the response. \<open>None\<close>: a fatal log (a bad
  index) or a cast to the wrong class.\<close>

fun MyService_CallMethod ::
    "cpp_env \<Rightarrow> nat \<Rightarrow> 'u example_message \<Rightarrow> 'u example_message \<Rightarrow> service_impl
     \<Rightarrow> ('u example_message \<times> s64 option \<times> service_impl) option" where
  "MyService_CallMethod E i (EchoReq q) (EchoRes r) impl =
     (if i = 0 then Some (map_prod EchoRes id (Echo q r impl)) else None)"
| "MyService_CallMethod E i (OperaReq q) (OperaRes r) impl =
     (if i = 1 then Some (map_prod OperaRes id (Add E q r impl))
      else if i = 2 then Some (map_prod OperaRes id (Sub E q r impl)) else None)"
| "MyService_CallMethod E i q r impl = None"

fun Service2_CallMethod ::
    "cpp_env \<Rightarrow> nat \<Rightarrow> 'u example_message \<Rightarrow> 'u example_message \<Rightarrow> service_impl
     \<Rightarrow> ('u example_message \<times> s64 option \<times> service_impl) option" where
  "Service2_CallMethod E i (OperaReqF q) (OperaResF r) impl =
     (if i = 0 then Some (map_prod OperaResF id (Mul E q r impl))
      else if i = 1 then Some (map_prod OperaResF id (Div E q r impl)) else None)"
| "Service2_CallMethod E i q r impl = None"

text \<open>\<open>ParseFromString\<close> and \<open>SerializeToString\<close> dispatch on the class of the message.\<close>

fun message_parse :: "'u wire_lib \<Rightarrow> text_float_lib \<Rightarrow> byte list \<Rightarrow> 'u example_message \<Rightarrow> bool \<times> 'u example_message" where
  "message_parse W X bs (EchoReq m) =
     map_prod id EchoReq (parse_string (EchoMsg_turn W X) EchoMsg_initialized bs (EchoMsg_clear W m))"
| "message_parse W X bs (EchoRes m) =
     map_prod id EchoRes (parse_string (EchoMsg_turn W X) EchoMsg_initialized bs (EchoMsg_clear W m))"
| "message_parse W X bs (OperaReq m) =
     map_prod id OperaReq (parse_string (OperaReq_turn W) OperaReqMsg_initialized bs (OperaReqMsg_clear W m))"
| "message_parse W X bs (OperaRes m) =
     map_prod id OperaRes (parse_string (OperaRes_turn W) OperaResMsg_initialized bs (OperaResMsg_clear W m))"
| "message_parse W X bs (OperaReqF m) =
     map_prod id OperaReqF (parse_string (OperaReqF_turn W X) OperaReqMsg_initialized bs (OperaReqMsg_clear W m))"
| "message_parse W X bs (OperaResF m) =
     map_prod id OperaResF (parse_string (OperaResF_turn W X) OperaResMsg_initialized bs (OperaResMsg_clear W m))"

fun message_serialize :: "'u wire_lib \<Rightarrow> text_float_lib \<Rightarrow> 'u example_message \<Rightarrow> byte list" where
  "message_serialize W X (EchoReq m) = EchoMsg_serialize W X m"
| "message_serialize W X (EchoRes m) = EchoMsg_serialize W X m"
| "message_serialize W X (OperaReq m) = OperaReqMsg_serialize W (WriteInt64 W) m"
| "message_serialize W X (OperaRes m) = OperaResMsg_serialize W (WriteInt64 W) m"
| "message_serialize W X (OperaReqF m) = OperaReqMsg_serialize W (WriteFloat X) m"
| "message_serialize W X (OperaResF m) = OperaResMsg_serialize W (WriteFloat X) m"

definition str :: "string \<Rightarrow> byte list" where
  "str s = map of_char s"

fun service_full_name :: "example_service \<Rightarrow> byte list" where
  "service_full_name MyService = str ''example.rpcProto.MyService''"
| "service_full_name Service2 = str ''example.rpcProto.Service2''"

fun service_methods :: "example_service \<Rightarrow> string list" where
  "service_methods MyService = [''Echo'', ''Add'', ''Sub'']"
| "service_methods Service2 = [''Mul'', ''Div'']"

text \<open>The services as the server sees them. The response does not depend on the counter.\<close>

definition example_api ::
    "'u wire_lib \<Rightarrow> text_float_lib \<Rightarrow> cpp_env \<Rightarrow> (byte list \<Rightarrow> u32)
     \<Rightarrow> (example_service, example_service \<times> nat, 'u example_message, 'u example_message) service_api" where
  "example_api W X E hash32 = \<lparr>
     full_name = service_full_name,
     method_count = (\<lambda>s. length (service_methods s)),
     svc_method = (\<lambda>s i. (s, i)),
     GetRequestPrototype = (\<lambda>s d. the (GetRequestProto W s (snd d))),
     GetResponsePrototype = (\<lambda>s d. the (GetResponseProto W s (snd d))),
     New = (\<lambda>p. p),
     ParseFromString = message_parse W X,
     SerializeToString = message_serialize W X,
     svc_CallMethod = (\<lambda>s d q r. fst (the (case s of
        MyService \<Rightarrow> MyService_CallMethod E (snd d) q r MyServiceImpl_new
      | Service2 \<Rightarrow> Service2_CallMethod E (snd d) q r Service2Impl_new))),
     Hash32 = hash32\<rparr>"

section \<open>\<open>main\<close>\<close>

fun digits_value :: "int \<Rightarrow> string \<Rightarrow> int" where
  "digits_value acc [] = acc"
| "digits_value acc (c # cs) =
     (if of_char c \<in> {48..57 :: nat} then digits_value (10 * acc + (of_char c - 48)) cs else acc)"

text \<open>\<open>atoi\<close>, for a value that fits an \<open>int\<close>.\<close>

definition atoi :: "string \<Rightarrow> int" where
  "atoi s = (case dropWhile (\<lambda>c. of_char c \<in> ({9..13} \<union> {32 :: nat})) s of
      [] \<Rightarrow> 0
    | c # cs \<Rightarrow> if c = CHR ''-'' then - digits_value 0 cs
               else if c = CHR ''+'' then digits_value 0 cs
               else digits_value 0 (c # cs))"

text \<open>\<open>argv\<close> without the program's name; the result is the server and the port it is started on.\<close>

definition server_main ::
    "('s, 'd, 'p, 'm) service_api \<Rightarrow> 's \<Rightarrow> 's \<Rightarrow> string list \<Rightarrow> ('s, 'd, 'p) pbRPCServer \<times> int" where
  "server_main api myServiceImpl service2Impl args =
     (let rpc_server = pbRPCServer_new;
          rpc_server = snd (RegisterService api myServiceImpl rpc_server);
          rpc_server = snd (RegisterService api service2Impl rpc_server)
      in (rpc_server, if args = [] then 8888 else atoi (hd args)))"

section \<open>What the services answer\<close>

text \<open>The messages the clients build: a text, or two operands.\<close>

definition text_of :: "'u wire_lib \<Rightarrow> byte list \<Rightarrow> 'u EchoMsg" where
  "text_of W t = set_text t (EchoMsg_new W)"

definition operands :: "'u wire_lib \<Rightarrow> 'n :: zero \<Rightarrow> 'n \<Rightarrow> ('u, 'n) OperaReqMsg" where
  "operands W a b = set_b b (set_a a (OperaReqMsg_new W))"

definition result :: "'u wire_lib \<Rightarrow> 'n :: zero \<Rightarrow> ('u, 'n) OperaResMsg" where
  "result W c = set_c c (OperaResMsg_new W)"

lemma built_sel [simp]:
  "em_text (text_of W t) = t" "em_unknown (text_of W t) = no_unknown_fields W" "em_has_bits (text_of W t) = 1"
  "oq_a (operands W a b) = a" "oq_b (operands W a b) = b" "oq_unknown (operands W a b) = no_unknown_fields W"
  "oq_has_bits (operands W a b) = 3"
  "os_c (result W c) = c" "os_unknown (result W c) = no_unknown_fields W" "os_has_bits (result W c) = 1"
  by (simp_all add: text_of_def set_text_def EchoMsg_new_def operands_def set_a_def set_b_def OperaReqMsg_new_def
      result_def set_c_def OperaResMsg_new_def)

lemma built_initialized [simp]:
  "EchoMsg_initialized (text_of W t)" "OperaReqMsg_initialized (operands W a b)" "OperaResMsg_initialized (result W c)"
  by (simp_all add: EchoMsg_initialized_def OperaReqMsg_initialized_def OperaResMsg_initialized_def)

context example_wire
begin

lemma parse_built:
  "length t < 2147483648 \<Longrightarrow>
    message_parse W X (message_serialize W X (EchoReq (text_of W t))) (EchoReq (EchoMsg_new W)) = (True, EchoReq (text_of W t))"
  "length t < 2147483648 \<Longrightarrow>
    message_parse W X (message_serialize W X (EchoRes (text_of W t))) (EchoRes (EchoMsg_new W)) = (True, EchoRes (text_of W t))"
  "message_parse W X (message_serialize W X (OperaReq (operands W a b))) (OperaReq (OperaReqMsg_new W))
    = (True, OperaReq (operands W a b))"
  "message_parse W X (message_serialize W X (OperaRes (result W c))) (OperaRes (OperaResMsg_new W))
    = (True, OperaRes (result W c))"
  "message_parse W X (message_serialize W X (OperaReqF (operands W x y))) (OperaReqF (OperaReqMsg_new W))
    = (True, OperaReqF (operands W x y))"
  "message_parse W X (message_serialize W X (OperaResF (result W z))) (OperaResF (OperaResMsg_new W))
    = (True, OperaResF (result W z))"
  by (simp_all add: parse_string_def echo_parse OperaReq_parse OperaReqF_parse OperaRes_parse OperaResF_parse
      text_of_def [symmetric] operands_def [symmetric] result_def [symmetric])

lemma parse_nothing:
  "message_parse W X [] (EchoRes (EchoMsg_new W)) = (False, EchoRes (EchoMsg_new W))"
  "message_parse W X [] (OperaRes (OperaResMsg_new W)) = (False, OperaRes (OperaResMsg_new W))"
  "message_parse W X [] (OperaResF (OperaResMsg_new W)) = (False, OperaResF (OperaResMsg_new W))"
  "message_parse W X [] (OperaReq (OperaReqMsg_new W)) = (False, OperaReq (OperaReqMsg_new W))"
  using echo.loop_end [of "EchoMsg_new W"] int64.result.loop_end [where m = "OperaResMsg_new W"]
    float.result.loop_end [where m = "OperaResMsg_new W"] int64.operands.loop_end [where m = "OperaReqMsg_new W"]
  by (simp_all add: parse_string_def EchoMsg_turn_def OperaRes_turn_def OperaResF_turn_def OperaResMsg_turn_def
      OperaReq_turn_def OperaReqMsg_turn_def EchoMsg_initialized_def OperaResMsg_initialized_def OperaReqMsg_initialized_def)
    (simp_all add: EchoMsg_new_def OperaReqMsg_new_def OperaResMsg_new_def)

end

section \<open>Replies\<close>

lemma sint_of_fitting:
  assumes "fits_s64 x"
  shows "sint (word_of_int x :: s64) = x"
proof -
  have "sint (word_of_int x :: s64) = signed_take_bit 63 x" by (simp add: signed_of_int)
  also have "\<dots> = x" using assms by (intro signed_take_bit_int_eq_self) (simp_all add: fits_s64_def)
  finally show ?thesis .
qed

lemma add_sub_s64:
  "fits_s64 (sint a + sint b) \<Longrightarrow> sint (add_s64 E a b) = sint a + sint b"
  "fits_s64 (sint a - sint b) \<Longrightarrow> sint (sub_s64 E a b) = sint a - sint b"
  using sint_of_fitting [of "sint a + sint b"] sint_of_fitting [of "sint a - sint b"]
  by (simp_all add: add_s64_def sub_s64_def)

lemma example_api_sel:
  "full_name (example_api W X E h) = service_full_name"
  "method_count (example_api W X E h) s = length (service_methods s)"
  "Hash32 (example_api W X E h) = h"
  by (simp_all add: example_api_def)

lemma reply_example:
  "reply (example_api W X E h) s i bs = message_serialize W X (fst (the (case s of
      MyService \<Rightarrow> MyService_CallMethod E i (snd (message_parse W X bs (the (GetRequestProto W s i))))
        (the (GetResponseProto W s i)) MyServiceImpl_new
    | Service2 \<Rightarrow> Service2_CallMethod E i (snd (message_parse W X bs (the (GetRequestProto W s i))))
        (the (GetResponseProto W s i)) Service2Impl_new)))"
  by (cases s) (simp_all add: reply_def example_api_def Let_def)

context example_wire
begin

lemma replies:
  "length t < 2147483648 \<Longrightarrow>
    reply (example_api W X E h) MyService 0 (message_serialize W X (EchoReq (text_of W t)))
      = message_serialize W X (EchoRes (text_of W t))"
  "reply (example_api W X E h) MyService (Suc 0) (message_serialize W X (OperaReq (operands W a b)))
      = message_serialize W X (OperaRes (result W (add_s64 E a b)))"
  "reply (example_api W X E h) MyService 2 (message_serialize W X (OperaReq (operands W a b)))
      = message_serialize W X (OperaRes (result W (sub_s64 E a b)))"
  "reply (example_api W X E h) Service2 0 (message_serialize W X (OperaReqF (operands W x y)))
      = message_serialize W X (OperaResF (result W (float_mul E x y)))"
  "reply (example_api W X E h) Service2 (Suc 0) (message_serialize W X (OperaReqF (operands W x y)))
      = message_serialize W X (OperaResF (result W (float_div E x y)))"
  by (simp_all add: reply_example parse_built del: message_serialize.simps message_parse.simps)
    (simp_all add: Echo_def Add_def Sub_def Mul_def Div_def Let_def text_of_def [symmetric] result_def [symmetric])

lemma add_nothing:
  "reply (example_api W X E h) MyService (Suc 0) [] = message_serialize W X (OperaRes (result W (add_s64 E 0 0)))"
  by (simp add: reply_example parse_nothing del: message_serialize.simps message_parse.simps)
    (simp add: Add_def Let_def result_def OperaReqMsg_new_def)

end

text \<open>The registry \<open>main\<close> leaves.\<close>

lemma main_reach:
  "server_reach W' (example_api W X E h) [MyService, Service2] 0
     (fst (server_main (example_api W X E h) MyService Service2 args))"
proof -
  have "server_reach W' (example_api W X E h) ([] @ [MyService]) 0
      (snd (RegisterService (example_api W X E h) MyService pbRPCServer_new))"
    by (rule server_reach.register [OF server_reach.start]) (simp add: example_api_sel)
  then have "server_reach W' (example_api W X E h) (([] @ [MyService]) @ [Service2]) 0
      (snd (RegisterService (example_api W X E h) Service2
        (snd (RegisterService (example_api W X E h) MyService pbRPCServer_new))))"
    by (rule server_reach.register) (simp add: example_api_sel)
  then show ?thesis by (simp add: server_main_def Let_def)
qed

lemma main_registered:
  assumes "h (service_full_name MyService) \<noteq> h (service_full_name Service2)"
  shows "last_registered (example_api W X E h) [MyService, Service2] (h (service_full_name s)) = Some s"
  using assms by (cases s) (simp_all add: last_registered_def service_hash_def example_api_sel del: service_full_name.simps)

section \<open>The types of the methods\<close>

text \<open>The classes of the messages, and the signatures of the methods as \<open>MyService.proto\<close> declares
  them. The generated dispatch is untyped: it takes any message and casts it.\<close>

datatype message_class = EchoReq_class | EchoRes_class | OperaReq_class | OperaRes_class | OperaReqF_class | OperaResF_class

fun class_of :: "'u example_message \<Rightarrow> message_class" where
  "class_of (EchoReq m) = EchoReq_class"
| "class_of (EchoRes m) = EchoRes_class"
| "class_of (OperaReq m) = OperaReq_class"
| "class_of (OperaRes m) = OperaRes_class"
| "class_of (OperaReqF m) = OperaReqF_class"
| "class_of (OperaResF m) = OperaResF_class"

fun method_types :: "example_service \<Rightarrow> (message_class \<times> message_class) list" where
  "method_types MyService =
     [(EchoReq_class, EchoRes_class), (OperaReq_class, OperaRes_class), (OperaReq_class, OperaRes_class)]"
| "method_types Service2 = [(OperaReqF_class, OperaResF_class), (OperaReqF_class, OperaResF_class)]"

fun service_CallMethod ::
    "cpp_env \<Rightarrow> example_service \<Rightarrow> nat \<Rightarrow> 'u example_message \<Rightarrow> 'u example_message \<Rightarrow> service_impl
     \<Rightarrow> ('u example_message \<times> s64 option \<times> service_impl) option" where
  "service_CallMethod E MyService = MyService_CallMethod E"
| "service_CallMethod E Service2 = Service2_CallMethod E"

lemma method_index_cases:
  assumes "i < length (service_methods s)"
  obtains "s = MyService" "i = 0" | "s = MyService" "i = 1" | "s = MyService" "i = 2"
    | "s = Service2" "i = 0" | "s = Service2" "i = 1"
  using assms by (cases s) (auto simp: less_Suc_eq numeral_2_eq_2 numeral_3_eq_3)

lemma parse_class: "class_of (snd (message_parse W X bs m)) = class_of m"
  by (cases m) (simp_all add: map_prod_def split_beta)

lemma call_class:
  "map_option (class_of \<circ> fst) (service_CallMethod E s i m m' impl) =
     (if i < length (service_methods s) \<and> (class_of m, class_of m') = method_types s ! i
      then Some (snd (method_types s ! i)) else None)"
proof (cases "i < length (service_methods s)")
  case True
  then show ?thesis by (rule method_index_cases) (cases m; cases m'; simp)+
next
  case False
  then show ?thesis by (cases s; cases m; cases m') simp_all
qed

section \<open>Properties\<close>

text \<open>C28: The example server computes what its services are for: after \<open>main\<close>'s registrations, whatever
  calls it has answered, a request whose ids name a method and whose bytes are the serialised operands
  is answered with its id, NO_ERROR and the serialised result: the same text, the sum, the difference
  (when they fit 64 bits), the float product and quotient. The two service names must not collide
  under the hash.\<close>

theorem example_server_computes:
  assumes "example_wire W X" "h (service_full_name MyService) \<noteq> h (service_full_name Service2)"
    and "server_reach W (example_api W X E h) [MyService, Service2] n srv"
    and "rm_serviceid req = h (service_full_name s)" "unat (rm_methodid req) = i"
    and "rm_request req = message_serialize W X q"
    and "(s, i, q, a) \<in> {(MyService, 0, EchoReq (text_of W t), EchoRes (text_of W t)),
      (MyService, 1, OperaReq (operands W x y), OperaRes (result W (x + y))),
      (MyService, 2, OperaReq (operands W x y), OperaRes (result W (x - y))),
      (Service2, 0, OperaReqF (operands W f g), OperaResF (result W (float_mul E f g))),
      (Service2, 1, OperaReqF (operands W f g), OperaResF (result W (float_div E f g)))}"
    and "length t < 2147483648" "i = 1 \<Longrightarrow> fits_s64 (sint x + sint y)" "i = 2 \<Longrightarrow> fits_s64 (sint x - sint y)"
  shows "\<exists>res srv'. RpcMsgService_call W (example_api W X E h) req srv = Inr (res, srv')
    \<and> rm_id res = rm_id req \<and> rm_error res = NO_ERROR
    \<and> message_parse W X (rm_response res) (the (GetResponseProto W s i)) = (True, a)
    \<and> server_reach W (example_api W X E h) [MyService, Service2] (Suc n) srv'"
proof -
  have small: "i < length (service_methods s)" using assms(7) by (cases s) auto
  have r: "reply (example_api W X E h) s i (rm_request req) = message_serialize W X a"
    using assms(7-10) unfolding assms(6)
    by (auto simp: example_wire.replies [OF assms(1)] add_s64_def sub_s64_def simp del: message_serialize.simps)
  have p: "message_parse W X (message_serialize W X a) (the (GetResponseProto W s i)) = (True, a)"
    using assms(7,8)
    by (auto simp: example_wire.parse_built [OF assms(1)] simp del: message_serialize.simps message_parse.simps)
  have "last_registered (example_api W X E h) [MyService, Service2] (rm_serviceid req) = Some s"
    unfolding assms(4) by (rule main_registered [OF assms(2)])
  then have call: "RpcMsgService_call W (example_api W X E h) req srv
      = Inr (fill_response (message_serialize W X a) req (RpcMessage_new W), srv\<lparr>live_messages := live_messages srv + 2\<rparr>)"
    unfolding server_call [OF conjunct1 [OF server_reach_inv [OF assms(3)]]]
    using small assms(5) r by (simp add: example_api_sel)
  from server_reach.call [OF assms(3) this] call p show ?thesis
    by (simp add: fill_response_def rpc_accessors del: message_serialize.simps)
qed

text \<open>C29: Calls are well typed: the prototypes of every method index are of the classes its signature
  declares, parsing keeps the class of a message, and \<open>CallMethod\<close> succeeds exactly for the method
  indices of the service with messages of the declared classes, and gives a response of the declared
  class. So the server, which makes both messages from the prototypes, never runs into a failed cast
  or the fatal log of a bad index.\<close>

theorem method_calls_typed:
  "length (method_types s) = length (service_methods s)
   \<and> map_option class_of (GetRequestProto W s i)
     = (if i < length (service_methods s) then Some (fst (method_types s ! i)) else None)
   \<and> map_option class_of (GetResponseProto W s i)
     = (if i < length (service_methods s) then Some (snd (method_types s ! i)) else None)
   \<and> class_of (snd (message_parse W X bs m)) = class_of m
   \<and> map_option (class_of \<circ> fst) (service_CallMethod E s i m m' impl) =
       (if i < length (service_methods s) \<and> (class_of m, class_of m') = method_types s ! i
        then Some (snd (method_types s ! i)) else None)"
proof -
  have "map_option class_of (GetRequestProto W s i)
      = (if i < length (service_methods s) then Some (fst (method_types s ! i)) else None)"
    "map_option class_of (GetResponseProto W s i)
      = (if i < length (service_methods s) then Some (snd (method_types s ! i)) else None)"
    "length (method_types s) = length (service_methods s)"
    by (cases s; auto simp: less_Suc_eq numeral_2_eq_2 numeral_3_eq_3)+
  with parse_class call_class show ?thesis by blast
qed

text \<open>\<open>handleRpcCall\<close> does not look at what \<open>ParseFromString\<close> returns: a request whose required fields
  are missing is executed on the defaults and answered with NO_ERROR.\<close>

theorem unparsed_request_answered:
  assumes "example_wire W X" "h (service_full_name MyService) \<noteq> h (service_full_name Service2)"
    and "server_reach W (example_api W X E h) [MyService, Service2] n srv"
    and "rm_serviceid req = h (service_full_name MyService)" "rm_methodid req = 1" "rm_request req = []"
  shows "\<not> fst (message_parse W X (rm_request req) (the (GetRequestProto W MyService 1)))
    \<and> (\<exists>res srv'. RpcMsgService_call W (example_api W X E h) req srv = Inr (res, srv') \<and> rm_error res = NO_ERROR
        \<and> rm_response res = message_serialize W X (OperaRes (result W 0)))"
proof -
  have "last_registered (example_api W X E h) [MyService, Service2] (rm_serviceid req) = Some MyService"
    unfolding assms(4) by (rule main_registered [OF assms(2)])
  then show ?thesis
    unfolding server_call [OF conjunct1 [OF server_reach_inv [OF assms(3)]]]
    using example_wire.add_nothing [OF assms(1), of E h] example_wire.parse_nothing(4) [OF assms(1)] assms(5,6)
    by (simp add: example_api_sel fill_response_def rpc_accessors add_s64_def fits_s64_def
        del: message_serialize.simps message_parse.simps)
qed

definition name_length :: "byte list \<Rightarrow> u32" where
  "name_length bs = of_nat (length bs)"

definition plain_env :: cpp_env where
  "plain_env = \<lparr>float_mul = (*), float_div = (div), int_to_float = of_int, overflow_add = (+), overflow_sub = (-)\<rparr>"

definition add_request :: "byte list RpcMessage" where
  "add_request = set_request (message_serialize varint_lib text_float (OperaReq (operands varint_lib 300 4)))
     (set_methodid 1 (set_serviceid (name_length (service_full_name MyService))
       (set_id 9 (set_type REQUEST (RpcMessage_new varint_lib)))))"

lemma names_differ: "name_length (service_full_name MyService) \<noteq> name_length (service_full_name Service2)"
  by (simp add: name_length_def str_def)

theorem example_server_computes_witness:
  "\<exists>res srv'. RpcMsgService_call varint_lib (example_api varint_lib text_float plain_env name_length) add_request
      (fst (server_main (example_api varint_lib text_float plain_env name_length) MyService Service2 [''8888'']))
     = Inr (res, srv') \<and> rm_id res = 9
   \<and> message_parse varint_lib text_float (rm_response res) (OperaRes (OperaResMsg_new varint_lib))
     = (True, OperaRes (result varint_lib 304))"
proof -
  have sel: "rm_serviceid add_request = name_length (service_full_name MyService)" "unat (rm_methodid add_request) = 1"
    "rm_request add_request = message_serialize varint_lib text_float (OperaReq (operands varint_lib 300 4))"
    "rm_id add_request = 9"
    by (simp_all add: add_request_def rpc_accessors del: message_serialize.simps service_full_name.simps)
  show ?thesis
    using example_server_computes [OF example_varint.example_wire_axioms names_differ main_reach sel(1-3),
        of "OperaRes (result varint_lib (300 + 4))" "[]" 300 4 0 0 plain_env "[''8888'']"]
    by (simp add: sel(4) fits_s64_def del: message_parse.simps) blast
qed

end
