(* ===== verification/ExampleClients.thy ===== *)
theory ExampleClients
  imports RpcServerTest PbRpcClient ScriptedClient
begin

text \<open>
  The two example clients over a channel (\<open>example/SyncRpcClientTest.cpp\<close>,
  \<open>example/AsyncRpcClientTest.cpp\<close>). Both make the same calls, one per turn of their loop: five kinds
  of call by the remainder of the counter. The synchronous client waits for each result and prints it;
  the asynchronous one leaves that to a callback, which frees the request and the response. Their
  surroundings, the connection callback, the server's responses and the timers, are a step relation.
  What is printed is kept as its values.
\<close>

section \<open>The calls\<close>

fun decimal :: "nat \<Rightarrow> string" where
  "decimal n = (if n < 10 then [] else decimal (n div 10)) @ [char_of (48 + n mod 10)]"

declare decimal.simps [simp del]

text \<open>The text of an echo request: \<open>ss << " --- " << i << " --- "\<close>.\<close>

definition echo_text :: "nat \<Rightarrow> byte list" where
  "echo_text i = str ('' --- '' @ decimal i @ '' --- '')"

text \<open>The stub's method, the request and the response object of turn \<open>i\<close>. The counter stays below a
  million, so the \<open>int\<close> computations do not overflow.\<close>

definition client_method :: "nat \<Rightarrow> example_service \<times> nat" where
  "client_method i =
     (if i mod 5 = 0 then (MyService, 0) else if i mod 5 = 1 then (MyService, 1)
      else if i mod 5 = 2 then (MyService, 2) else if i mod 5 = 3 then (Service2, 0) else (Service2, 1))"

definition client_request :: "'u wire_lib \<Rightarrow> cpp_env \<Rightarrow> nat \<Rightarrow> 'u example_message" where
  "client_request W E i =
     (if i mod 5 = 0 then EchoReq (set_text (echo_text i) (EchoMsg_new W))
      else if i mod 5 = 1 then OperaReq (set_b (of_nat i) (set_a (of_nat i) (OperaReqMsg_new W)))
      else if i mod 5 = 2 then OperaReq (set_b (of_nat i) (set_a (of_nat (i * 2)) (OperaReqMsg_new W)))
      else if i mod 5 = 3 then
        OperaReqF (set_b (int_to_float E (int i)) (set_a (int_to_float E (int i)) (OperaReqMsg_new W)))
      else OperaReqF (set_b (int_to_float E (int i)) (set_a (int_to_float E (int (i + i div 10))) (OperaReqMsg_new W))))"

definition client_response :: "'u wire_lib \<Rightarrow> nat \<Rightarrow> 'u example_message" where
  "client_response W i =
     (if i mod 5 = 0 then EchoRes (EchoMsg_new W)
      else if i mod 5 = 1 \<or> i mod 5 = 2 then OperaRes (OperaResMsg_new W)
      else OperaResF (OperaResMsg_new W))"

text \<open>A line of output: the call and the values it shows.\<close>

datatype line = EchoLine "byte list" "byte list" | AddLine s64 s64 s64 | SubLine s64 s64 s64
  | MulLine u32 u32 u32 | DivLine u32 u32 u32 | NoLine

definition printed :: "nat \<Rightarrow> 'u example_message \<Rightarrow> 'u example_message \<Rightarrow> line" where
  "printed i req res = (case (req, res) of
      (EchoReq q, EchoRes r) \<Rightarrow> EchoLine (em_text q) (em_text r)
    | (OperaReq q, OperaRes r) \<Rightarrow>
        (if i mod 5 = 1 then AddLine else SubLine) (oq_a q) (oq_b q) (os_c r)
    | (OperaReqF q, OperaResF r) \<Rightarrow>
        (if i mod 5 = 3 then MulLine else DivLine) (oq_a q) (oq_b q) (os_c r)
    | _ \<Rightarrow> NoLine)"

text \<open>The stubs call the channel with the descriptor of their method.\<close>

definition example_channel ::
    "'u wire_lib \<Rightarrow> text_float_lib \<Rightarrow> (byte list \<Rightarrow> u32) \<Rightarrow> (example_service \<times> nat, 'u example_message) channel_api" where
  "example_channel W X h = \<lparr>method_service_name = (\<lambda>d. service_full_name (fst d)),
     method_index = (\<lambda>d. of_nat (snd d)), msg_SerializeToString = message_serialize W X,
     msg_ParseFromString = message_parse W X, name_Hash32 = h\<rparr>"

definition client_call ::
    "'u wire_lib \<Rightarrow> 'h table_lib \<Rightarrow> text_float_lib \<Rightarrow> cpp_env \<Rightarrow> (byte list \<Rightarrow> u32) \<Rightarrow> nat option \<Rightarrow> nat
     \<Rightarrow> rpc_channel \<Rightarrow> ('h, 'u) rpc_client \<Rightarrow> call_fault + rpc_channel \<times> ('h, 'u) rpc_client" where
  "client_call W T X E h conn i ch c =
     CallMethod_start W T (example_channel W X h) conn (client_method i) (client_request W E i) ch c"

definition client_start :: "'u wire_lib \<Rightarrow> 'h table_lib \<Rightarrow> nat ptr \<Rightarrow> u32 \<Rightarrow> ('h, 'u) rpc_client" where
  "client_start W T pl cores = PbRpcClient_new W T pl cores (str ''127.0.0.1'') 8888 0"

section \<open>The surroundings\<close>

text \<open>What happens to the client between its own steps: a piece of the connect callback, a response
  of the example server to a request written earlier (parsed, so with a cached size of zero), a
  timer.\<close>

inductive network_step ::
  "'u wire_lib \<Rightarrow> 'h table_lib \<Rightarrow> text_float_lib \<Rightarrow> cpp_env \<Rightarrow> (byte list \<Rightarrow> u32)
   \<Rightarrow> ('h, 'u) rpc_client \<Rightarrow> ('h, 'u) rpc_client \<Rightarrow> bool" for W T X E h where
  pipeline: "network_step W T X E h c (connect_pipeline p c)"
| flag: "network_step W T X E h c (connect_flag c)"
| dispatcher: "network_step W T X E h c (connect_dispatcher p c)"
| error: "network_step W T X E h c (connect_error c)"
| read: "\<lbrakk>req \<in> set (cl_written (rc_client c));
     server_reach W (example_api W X E h) [MyService, Service2] k srv;
     RpcMsgService_call W (example_api W X E h) req srv = Inr (res, srv');
     dispatcher_read T (res\<lparr>rm_cached_size := 0\<rparr>) (rc_client c) = Inr s\<rbrakk> \<Longrightarrow>
     network_step W T X E h c (c\<lparr>rc_client := s\<rparr>)"
| timeout: "\<lbrakk>cl_timer (rc_client c) p \<noteq> None; cl_result (rc_client c) p = None\<rbrakk> \<Longrightarrow>
     network_step W T X E h c (c\<lparr>rc_client := dispatcher_timeout W T p (rc_client c)\<rparr>)"

text \<open>Calls and surroundings in any order.\<close>

inductive example_calls ::
  "'u wire_lib \<Rightarrow> 'h table_lib \<Rightarrow> text_float_lib \<Rightarrow> cpp_env \<Rightarrow> (byte list \<Rightarrow> u32)
   \<Rightarrow> nat \<Rightarrow> rpc_channel \<Rightarrow> ('h, 'u) rpc_client \<Rightarrow> bool" for W T X E h where
  start: "example_calls W T X E h 0 RpcChannel_new (client_start W T pl cores)"
| network: "\<lbrakk>example_calls W T X E h n ch c; network_step W T X E h c c'\<rbrakk> \<Longrightarrow> example_calls W T X E h n ch c'"
| call: "\<lbrakk>example_calls W T X E h n ch c; n < 1000000; client_call W T X E h conn n ch c = Inr (ch', c')\<rbrakk> \<Longrightarrow>
     example_calls W T X E h (Suc n) ch' c'"

section \<open>The synchronous client\<close>

text \<open>\<open>main\<close> at turn \<open>i\<close>, before its call or waiting for the result (the flag), with what it has
  printed.\<close>

inductive sync_run ::
  "'u wire_lib \<Rightarrow> 'h table_lib \<Rightarrow> text_float_lib \<Rightarrow> cpp_env \<Rightarrow> (byte list \<Rightarrow> u32)
   \<Rightarrow> nat \<Rightarrow> bool \<Rightarrow> rpc_channel \<Rightarrow> ('h, 'u) rpc_client \<Rightarrow> line list \<Rightarrow> bool" for W T X E h where
  start: "sync_run W T X E h 0 False RpcChannel_new (client_start W T pl cores) []"
| network: "\<lbrakk>sync_run W T X E h i w ch c out; network_step W T X E h c c'\<rbrakk> \<Longrightarrow>
     sync_run W T X E h i w ch c' out"
| call: "\<lbrakk>sync_run W T X E h i False ch c out; i < 1000000; client_call W T X E h conn i ch c = Inr (ch', c')\<rbrakk> \<Longrightarrow>
     sync_run W T X E h i True ch' c' out"
| return: "\<lbrakk>sync_run W T X E h i True ch c out; cl_result (rc_client c) i = Some Res;
     CallMethod_finish (example_channel W X h) False Res (client_response W i) = (res, 0)\<rbrakk> \<Longrightarrow>
     sync_run W T X E h (Suc i) False ch c (out @ [printed i (client_request W E i) res])"

section \<open>The asynchronous client\<close>

text \<open>\<open>live\<close> holds the calls whose request and response objects are allocated; the callback of a call
  prints and deletes both.\<close>

definition response_callback ::
    "nat \<Rightarrow> 'u example_message \<Rightarrow> 'u example_message \<Rightarrow> nat set \<Rightarrow> line \<times> nat set" where
  "response_callback i req res live = (printed i req res, live - {i})"

inductive async_run ::
  "'u wire_lib \<Rightarrow> 'h table_lib \<Rightarrow> text_float_lib \<Rightarrow> cpp_env \<Rightarrow> (byte list \<Rightarrow> u32)
   \<Rightarrow> nat \<Rightarrow> nat set \<Rightarrow> rpc_channel \<Rightarrow> ('h, 'u) rpc_client \<Rightarrow> (nat \<times> line) list \<Rightarrow> bool" for W T X E h where
  start: "async_run W T X E h 0 {} RpcChannel_new (client_start W T pl cores) []"
| network: "\<lbrakk>async_run W T X E h i live ch c out; network_step W T X E h c c'\<rbrakk> \<Longrightarrow>
     async_run W T X E h i live ch c' out"
| call: "\<lbrakk>async_run W T X E h i live ch c out; i < 1000000; client_call W T X E h conn i ch c = Inr (ch', c')\<rbrakk> \<Longrightarrow>
     async_run W T X E h (Suc i) (insert i live) ch' c' out"
| callback: "\<lbrakk>async_run W T X E h i live ch c out; p \<in> live; cl_result (rc_client c) p = Some Res;
     CallMethod_finish (example_channel W X h) True Res (client_response W p) = (res, 1);
     response_callback p (client_request W E p) res live = (l, live')\<rbrakk> \<Longrightarrow>
     async_run W T X E h i live' ch c (out @ [(p, l)])"

lemma sync_calls: "sync_run W T X E h i w ch c out \<Longrightarrow> example_calls W T X E h (if w then Suc i else i) ch c"
  by (induction rule: sync_run.induct) (auto intro: example_calls.intros)

lemma async_calls: "async_run W T X E h i live ch c out \<Longrightarrow> example_calls W T X E h i ch c"
  by (induction rule: async_run.induct) (auto intro: example_calls.intros)

section \<open>The results of the calls\<close>

text \<open>What a call is meant to print, and what it prints when its call ended without a response.\<close>

definition good_line :: "cpp_env \<Rightarrow> nat \<Rightarrow> line" where
  "good_line E i =
     (let x = int_to_float E (int i); y = int_to_float E (int (i + i div 10)) in
      if i mod 5 = 0 then EchoLine (echo_text i) (echo_text i)
      else if i mod 5 = 1 then AddLine (of_nat i) (of_nat i) (of_nat (i + i))
      else if i mod 5 = 2 then SubLine (of_nat (2 * i)) (of_nat i) (of_nat i)
      else if i mod 5 = 3 then MulLine x x (float_mul E x x)
      else DivLine y x (float_div E y x))"

definition blank_line :: "cpp_env \<Rightarrow> nat \<Rightarrow> line" where
  "blank_line E i =
     (let x = int_to_float E (int i); y = int_to_float E (int (i + i div 10)) in
      if i mod 5 = 0 then EchoLine (echo_text i) []
      else if i mod 5 = 1 then AddLine (of_nat i) (of_nat i) 0
      else if i mod 5 = 2 then SubLine (of_nat (2 * i)) (of_nat i) 0
      else if i mod 5 = 3 then MulLine x x 0
      else DivLine y x 0)"

text \<open>The request sent in turn \<open>p\<close> and the answer to it.\<close>

definition sent ::
    "'u wire_lib \<Rightarrow> text_float_lib \<Rightarrow> cpp_env \<Rightarrow> (byte list \<Rightarrow> u32) \<Rightarrow> nat \<Rightarrow> 'u RpcMessage" where
  "sent W X E h p = the_request W (example_channel W X h) (of_nat p) (client_method p) (client_request W E p)"

definition answer_to ::
    "'u wire_lib \<Rightarrow> text_float_lib \<Rightarrow> cpp_env \<Rightarrow> (byte list \<Rightarrow> u32) \<Rightarrow> example_service \<times> nat
     \<Rightarrow> 'u RpcMessage \<Rightarrow> 'u RpcMessage" where
  "answer_to W X E h d req =
     (fill_response (reply (example_api W X E h) (fst d) (snd d) (rm_request req)) req (RpcMessage_new W))
       \<lparr>rm_cached_size := 0\<rparr>"

definition answered ::
    "'u wire_lib \<Rightarrow> text_float_lib \<Rightarrow> cpp_env \<Rightarrow> (byte list \<Rightarrow> u32) \<Rightarrow> nat \<Rightarrow> 'u RpcMessage" where
  "answered W X E h p = answer_to W X E h (client_method p) (sent W X E h p)"

lemma decimal_length: "n < 10 ^ k \<Longrightarrow> 0 < k \<Longrightarrow> length (decimal n) \<le> k"
proof (induction k arbitrary: n)
  case (Suc k)
  show ?case
  proof (cases "n < 10")
    case False
    with Suc.prems have "n div 10 < 10 ^ k" "0 < k" by (auto simp: less_mult_imp_div_less mult.commute intro!: Nat.gr0I)
    from Suc.IH [OF this] False show ?thesis by (simp add: decimal.simps [of n])
  qed (simp add: decimal.simps [of n])
qed simp

lemma echo_text_length: "i < 1000000 \<Longrightarrow> length (echo_text i) < 2147483648"
  using decimal_length [of i 6] by (simp add: echo_text_def str_def)

lemma mod_5_cases:
  obtains "i mod 5 = 0" | "i mod 5 = 1" | "i mod 5 = 2" | "i mod 5 = 3" | "i mod 5 = (4 :: nat)"
proof -
  have "i mod 5 < 5" by simp
  then have "i mod 5 = 0 \<or> i mod 5 = 1 \<or> i mod 5 = 2 \<or> i mod 5 = 3 \<or> i mod 5 = 4" by linarith
  then show thesis by (elim disjE) (fact that)+
qed

lemma sint_small: "n < 2 ^ 63 \<Longrightarrow> sint (of_nat n :: s64) = int n"
  using sint_of_fitting [of "int n"] by (simp add: fits_s64_def)

lemma small_sums:
  assumes "i < 1000000"
  shows "add_s64 E (of_nat i) (of_nat i) = of_nat (i + i)" "sub_s64 E (of_nat (2 * i)) (of_nat i) = of_nat i"
proof -
  have s: "sint (of_nat i :: s64) = int i" "sint (of_nat (2 * i) :: s64) = int (2 * i)"
    using assms by (intro sint_small, simp)+
  show "add_s64 E (of_nat i) (of_nat i) = of_nat (i + i)"
    using assms by (simp only: add_s64_def s) (simp add: fits_s64_def)
  show "sub_s64 E (of_nat (2 * i)) (of_nat i) = of_nat i"
    using assms by (simp only: sub_s64_def s) (simp add: fits_s64_def)
qed

lemma client_methods: "snd (client_method i) < length (service_methods (fst (client_method i)))"
  by (simp add: client_method_def)

lemma sent_sel:
  "rm_id (sent W X E h p) = of_nat p"
  "rm_serviceid (sent W X E h p) = h (service_full_name (fst (client_method p)))"
  "unat (rm_methodid (sent W X E h p)) = snd (client_method p)"
  "rm_request (sent W X E h p) = message_serialize W X (client_request W E p)"
  by (simp_all add: sent_def the_request_def build_request_def rpc_accessors example_channel_def client_method_def
      del: message_serialize.simps service_full_name.simps)

lemma answer_to_sel:
  "rm_id (answer_to W X E h d req) = rm_id req" "rm_error (answer_to W X E h d req) = NO_ERROR"
  "rm_response (answer_to W X E h d req) = reply (example_api W X E h) (fst d) (snd d) (rm_request req)"
  by (simp_all add: answer_to_def fill_response_def rpc_accessors)

lemma answered_sel: "rm_id (answered W X E h p) = of_nat p"
  "rm_response (answered W X E h p) = reply (example_api W X E h) (fst (client_method p)) (snd (client_method p))
     (message_serialize W X (client_request W E p))"
  by (simp_all add: answered_def answer_to_sel sent_sel del: message_serialize.simps)

lemma server_answer:
  assumes "h (service_full_name MyService) \<noteq> h (service_full_name Service2)"
    and "server_reach W (example_api W X E h) [MyService, Service2] k srv"
    and "RpcMsgService_call W (example_api W X E h) req srv = Inr (res, srv')"
    and "rm_serviceid req = h (service_full_name (fst d))" "unat (rm_methodid req) = snd d"
  shows "res\<lparr>rm_cached_size := 0\<rparr> = answer_to W X E h d req"
proof -
  have "last_registered (example_api W X E h) [MyService, Service2] (rm_serviceid req) = Some (fst d)"
    unfolding assms(4) by (rule main_registered [OF assms(1)])
  with assms(3,5) show ?thesis
    unfolding server_call [OF conjunct1 [OF server_reach_inv [OF assms(2)]]]
    by (simp add: example_api_sel answer_to_def split: if_splits)
qed

lemma main_serves:
  assumes "h (service_full_name MyService) \<noteq> h (service_full_name Service2)"
    and "rm_serviceid req = h (service_full_name (fst d))" "unat (rm_methodid req) = snd d"
    and "snd d < length (service_methods (fst d))"
  shows "\<exists>res srv'. RpcMsgService_call W (example_api W X E h) req
      (fst (server_main (example_api W X E h) MyService Service2 args)) = Inr (res, srv')
    \<and> res\<lparr>rm_cached_size := 0\<rparr> = answer_to W X E h d req"
proof -
  let ?srv = "fst (server_main (example_api W X E h) MyService Service2 args)"
  have "last_registered (example_api W X E h) [MyService, Service2] (rm_serviceid req) = Some (fst d)"
    unfolding assms(2) by (rule main_registered [OF assms(1)])
  then obtain res srv' where "RpcMsgService_call W (example_api W X E h) req ?srv = Inr (res, srv')"
    unfolding server_call [OF conjunct1 [OF server_reach_inv [OF main_reach]]]
    using assms(3,4) by (simp add: example_api_sel)
  with server_answer [OF assms(1) main_reach this assms(2,3)] show ?thesis by blast
qed

lemma server_answers_sent:
  assumes "h (service_full_name MyService) \<noteq> h (service_full_name Service2)"
    and "server_reach W (example_api W X E h) [MyService, Service2] k srv"
    and "RpcMsgService_call W (example_api W X E h) (sent W X E h p) srv = Inr (res, srv')"
  shows "res\<lparr>rm_cached_size := 0\<rparr> = answered W X E h p"
  unfolding answered_def by (rule server_answer [OF assms]) (simp_all add: sent_sel)

context example_wire
begin

lemma client_request_built:
  "i mod 5 = 0 \<Longrightarrow> client_request W E i = EchoReq (text_of W (echo_text i))"
  "i mod 5 = 1 \<Longrightarrow> client_request W E i = OperaReq (operands W (of_nat i) (of_nat i))"
  "i mod 5 = 2 \<Longrightarrow> client_request W E i = OperaReq (operands W (of_nat (2 * i)) (of_nat i))"
  "i mod 5 = 3 \<Longrightarrow> client_request W E i = OperaReqF (operands W (int_to_float E (int i)) (int_to_float E (int i)))"
  "i mod 5 = 4 \<Longrightarrow> client_request W E i
     = OperaReqF (operands W (int_to_float E (int (i + i div 10))) (int_to_float E (int i)))"
  by (simp_all add: client_request_def text_of_def operands_def mult.commute)

lemma printed_good:
  assumes "i < 1000000"
  shows "printed i (client_request W E i) (snd (message_parse W X
      (reply (example_api W X E h) (fst (client_method i)) (snd (client_method i))
        (message_serialize W X (client_request W E i))) (client_response W i))) = good_line E i"
  using echo_text_length [OF assms]
  by (cases i rule: mod_5_cases)
    (simp_all add: client_request_built client_method_def client_response_def replies parse_built printed_def
      good_line_def Let_def small_sums [OF assms] del: message_serialize.simps message_parse.simps of_nat_add of_nat_mult)

lemma printed_blank:
  "printed i (client_request W E i) (snd (message_parse W X [] (client_response W i))) = blank_line E i"
  by (cases i rule: mod_5_cases)
    (simp_all add: client_request_built client_response_def parse_nothing printed_def blank_line_def Let_def
      del: message_parse.simps of_nat_add of_nat_mult,
     simp_all add: EchoMsg_new_def OperaResMsg_new_def)

end

section \<open>The invariant of the calls\<close>

lemma million_bound: "1000000 < (2 :: nat) ^ 64"
  by simp

lemma same_id: "\<lbrakk>(of_nat p :: s64) = of_nat q; p < 1000000; q < 1000000\<rbrakk> \<Longrightarrow> p = q"
  by (metis unat_of_nat_u64 order.strict_trans million_bound)

lemma example_script: "promise_map T \<Longrightarrow> scripted_client T (sent W X E h) (answered W X E h) 1000000"
  by (simp add: scripted_client_def scripted_client_axioms_def sent_sel answered_sel same_id)

interpretation sync_script: scripted_client alist_table varint_lib 9223372036854775807 5000
    "sent varint_lib text_float plain_env name_length" "answered varint_lib text_float plain_env name_length" 1000000
  by (rule example_script [OF alist.promise_map_axioms])

text \<open>The channel numbers its requests by the turns, and the dispatcher is in step with the script.\<close>

abbreviation example_running ::
  "'u wire_lib \<Rightarrow> 'h table_lib \<Rightarrow> text_float_lib \<Rightarrow> cpp_env \<Rightarrow> (byte list \<Rightarrow> u32) \<Rightarrow> nat \<Rightarrow> ('h, 'u) client \<Rightarrow> bool" where
  "example_running W T X E h \<equiv>
     scripted W T 9223372036854775807 5000 (sent W X E h) (answered W X E h)"

definition example_inv ::
  "'u wire_lib \<Rightarrow> 'h table_lib \<Rightarrow> text_float_lib \<Rightarrow> cpp_env \<Rightarrow> (byte list \<Rightarrow> u32)
   \<Rightarrow> nat \<Rightarrow> rpc_channel \<Rightarrow> ('h, 'u) rpc_client \<Rightarrow> bool" where
  "example_inv W T X E h n ch c \<longleftrightarrow> ch_client ch \<and> ch_request_id ch = Some (of_nat n) \<and> n \<le> 1000000
     \<and> example_running W T X E h n (rc_client c)"

lemma example_invD:
  assumes "example_inv W T X E h n ch c"
  shows "ch_client ch" "ch_request_id ch = Some (of_nat n)" "n \<le> 1000000"
    "example_running W T X E h n (rc_client c)"
  using assms unfolding example_inv_def by blast+

text \<open>A call is the connection, when there is none, and the dispatcher's call with the request of the
  turn.\<close>

lemma client_call_form:
  assumes "example_inv W T X E h n ch c" "client_call W T X E h conn n ch c = Inr (ch', c')"
  obtains s where "s = rc_client c \<or> (\<exists>p. s = setPipeline p (rc_client c))"
    "dispatcher_call W T (sent W X E h n) s = Inr (rc_client c')" "ch' = ch\<lparr>ch_request_id := Some (of_nat (Suc n))\<rparr>"
proof -
  obtain c1 where e: "ensure_connected conn c = Inr c1"
    and s: "dispatcher_call W T (sent W X E h n) (rc_client c1) = Inr (rc_client c')"
    "ch' = ch\<lparr>ch_request_id := Some (of_nat n + 1)\<rparr>"
    using assms(2) example_invD(1,2) [OF assms(1)]
    by (auto simp: client_call_def CallMethod_start_def sent_def the_request_def Let_def split: sum.splits)
  from e have "rc_client c1 = rc_client c \<or> (\<exists>p. rc_client c1 = setPipeline p (rc_client c))"
    by (auto simp: ensure_connected_def split: if_splits option.splits)
  with s show thesis by (intro that) (auto simp: add.commute)
qed

lemma client_start_inv: "example_inv W T X E h 0 RpcChannel_new (client_start W T pl cores)"
  by (simp add: example_inv_def client_start_def PbRpcClient_new_def default_dispatcher_def RpcChannel_new_def
      scripted_start)

lemma example_call:
  assumes "promise_map T" "example_inv W T X E h n ch c" "n < 1000000"
    and "client_call W T X E h conn n ch c = Inr (ch', c')"
  shows "example_inv W T X E h (Suc n) ch' c'"
proof (rule client_call_form [OF assms(2,4)])
  fix s assume s: "s = rc_client c \<or> (\<exists>p. s = setPipeline p (rc_client c))"
    and call: "dispatcher_call W T (sent W X E h n) s = Inr (rc_client c')"
    and ch': "ch' = ch\<lparr>ch_request_id := Some (of_nat (Suc n))\<rparr>"
  have "example_running W T X E h n s"
    using s example_invD(4) [OF assms(2)] by (auto simp: scripted_pipeline)
  from scripted_client.scripted_call [OF example_script [OF assms(1)] this call] ch' assms(3)
    example_invD(1) [OF assms(2)]
  show ?thesis by (simp add: example_inv_def)
qed

text \<open>A step of the surroundings keeps a scripted client in step, and results and values as they are.\<close>

lemma scripted_network:
  assumes sc: "scripted_client T scr ans bound" and step: "network_step W T X E h c c'"
    and run: "scripted W T lim t scr ans n (rc_client c)" and n: "n \<le> bound"
    and serve: "\<And>q k srv res srv'. \<lbrakk>q < n; server_reach W (example_api W X E h) [MyService, Service2] k srv;
      RpcMsgService_call W (example_api W X E h) (scr q) srv = Inr (res, srv')\<rbrakk> \<Longrightarrow> res\<lparr>rm_cached_size := 0\<rparr> = ans q"
  shows "scripted W T lim t scr ans n (rc_client c')
    \<and> (\<forall>p r. cl_result (rc_client c) p = Some r \<longrightarrow>
        cl_result (rc_client c') p = Some r \<and> cl_value (rc_client c') p = cl_value (rc_client c) p)"
  using step
proof cases
  case (read req k srv res srv' s)
  from read(2) scriptedD(4) [OF run] obtain q where q: "q < n" "req = scr q" by blast
  have "res\<lparr>rm_cached_size := 0\<rparr> = ans q" by (rule serve [OF q(1) read(3)]) (use read(4) q(2) in simp)
  then have r: "dispatcher_read T (ans q) (rc_client c) = Inr s" using read(5) by simp
  show ?thesis
    using scripted_client.scripted_read [OF sc run q(1) n r] scripted_client.read_keeps [OF sc run r] read(1)
    by simp
next
  case (timeout p)
  have T: "promise_map T" using sc by (simp add: scripted_client_def)
  show ?thesis
    using scripted_client.scripted_timeout [OF sc run timeout(2,3)] timeout(3)
    by (auto simp: timeout(1) promise_map.timeout_sel [OF T])
qed (use scripted_pipeline [OF run] run in
  \<open>simp_all add: connect_pipeline_def connect_flag_def connect_dispatcher_def connect_error_def setPipeline_def\<close>)

lemma example_network:
  assumes "promise_map T" "h (service_full_name MyService) \<noteq> h (service_full_name Service2)"
    and "network_step W T X E h c c'" "example_inv W T X E h n ch c"
  shows "example_inv W T X E h n ch c'
    \<and> (\<forall>p r. cl_result (rc_client c) p = Some r \<longrightarrow>
        cl_result (rc_client c') p = Some r \<and> cl_value (rc_client c') p = cl_value (rc_client c) p)"
  using scripted_network [OF example_script [OF assms(1)] assms(3) example_invD(4,3) [OF assms(4)]
      server_answers_sent [OF assms(2)]] assms(4)
  by (simp add: example_inv_def)

lemma example_calls_inv:
  assumes "promise_map T" "h (service_full_name MyService) \<noteq> h (service_full_name Service2)"
    and "example_calls W T X E h n ch c"
  shows "example_inv W T X E h n ch c"
  using assms(3)
proof (induction rule: example_calls.induct)
  case (start pl cores)
  show ?case by (rule client_start_inv)
next
  case (network n ch c c')
  from example_network [OF assms(1,2) network.hyps(2) network.IH] show ?case by blast
next
  case (call n ch c conn ch' c')
  show ?case by (rule example_call [OF assms(1) call.IH call.hyps(2,3)])
qed

section \<open>The output\<close>

definition shown :: "cpp_env \<Rightarrow> ('h, 'u) rpc_client \<Rightarrow> nat \<Rightarrow> line" where
  "shown E c p = (if cl_value (rc_client c) p \<noteq> None then good_line E p else blank_line E p)"

lemma local_reply_empty: "rm_response (local_reply W e arg) = []"
  by (simp add: local_reply_def rpc_accessors RpcMessage_new_def)

lemma result_line:
  assumes "promise_map T" "example_wire W X" "example_inv W T X E h n ch c"
    and r: "cl_result (rc_client c) p = Some Res"
    and f: "CallMethod_finish (example_channel W X h) a Res (client_response W p) = (res, k)"
  shows "printed p (client_request W E p) res = shown E c p"
proof -
  note i = example_invD [OF assms(3)]
  from scripted_client.result_cases [OF example_script [OF assms(1)] i(4) r] i(3)
  have p: "p < 1000000" and v: "if cl_value (rc_client c) p \<noteq> None then Res = answered W X E h p
    else rm_response Res = []" by (auto simp: local_reply_empty split: if_splits)
  have res: "res = snd (message_parse W X (rm_response Res) (client_response W p))"
    using f by (auto simp: CallMethod_finish_def example_channel_def Let_def split: if_splits)
  show ?thesis
    unfolding res using v
    by (auto simp: shown_def answered_sel example_wire.printed_blank [OF assms(2)] example_wire.printed_good [OF assms(2) p]
        split: if_splits)
qed

text \<open>A call that has its result keeps it, and what it shows.\<close>

lemma call_keeps:
  assumes "example_inv W T X E h n ch c" "client_call W T X E h conn n ch c = Inr (ch', c')"
    and "p < n"
  shows "cl_result (rc_client c') p = cl_result (rc_client c) p" "shown E c' p = shown E c p"
proof -
  have "cl_result (rc_client c') p = cl_result (rc_client c) p \<and> cl_value (rc_client c') = cl_value (rc_client c)"
  proof (rule client_call_form [OF assms(1,2)])
    fix s assume s: "s = rc_client c \<or> (\<exists>p. s = setPipeline p (rc_client c))"
      and call: "dispatcher_call W T (sent W X E h n) s = Inr (rc_client c')"
    have "cl_calls s = n" "cl_result s = cl_result (rc_client c)" "cl_value s = cl_value (rc_client c)"
      using s scriptedD(2) [OF example_invD(4) [OF assms(1)]] by (auto simp: setPipeline_def)
    with call_changes(1,2) [OF call] assms(3) show ?thesis by simp
  qed
  then show "cl_result (rc_client c') p = cl_result (rc_client c) p" "shown E c' p = shown E c p"
    by (simp_all add: shown_def)
qed

lemma network_keeps:
  assumes "promise_map T" "h (service_full_name MyService) \<noteq> h (service_full_name Service2)"
    and "example_inv W T X E h n ch c" "network_step W T X E h c c'"
    and "cl_result (rc_client c) p = Some r"
  shows "cl_result (rc_client c') p = Some r \<and> shown E c' p = shown E c p"
  using example_network [OF assms(1,2,4,3)] assms(5) by (simp add: shown_def)

lemma sync_output:
  assumes "promise_map T" "example_wire W X" "h (service_full_name MyService) \<noteq> h (service_full_name Service2)"
    and "sync_run W T X E h i w ch c out"
  shows "length out = i \<and> (\<forall>p < i. cl_result (rc_client c) p \<noteq> None \<and> out ! p = shown E c p)"
  using assms(4)
proof (induction rule: sync_run.induct)
  case (network i w ch c out c')
  have "example_inv W T X E h (if w then Suc i else i) ch c"
    by (rule example_calls_inv [OF assms(1,3) sync_calls [OF network.hyps(1)]])
  from network.IH network_keeps [OF assms(1,3) this network.hyps(2)] show ?case by fastforce
next
  case (call i ch c out conn ch' c')
  have "example_inv W T X E h i ch c"
    using example_calls_inv [OF assms(1,3) sync_calls [OF call.hyps(1)]] by simp
  from call.IH call_keeps [OF this call.hyps(3)] show ?case by simp
next
  case (return i ch c out Res res)
  have "example_inv W T X E h (Suc i) ch c"
    using example_calls_inv [OF assms(1,3) sync_calls [OF return.hyps(1)]] by simp
  from result_line [OF assms(1,2) this return.hyps(2,3)] return.IH return.hyps(2) show ?case
    by (auto simp: nth_append less_Suc_eq)
qed simp

definition async_inv :: "cpp_env \<Rightarrow> nat \<Rightarrow> nat set \<Rightarrow> ('h, 'u) rpc_client \<Rightarrow> (nat \<times> line) list \<Rightarrow> bool" where
  "async_inv E i live c out \<longleftrightarrow> distinct (map fst out) \<and> fst ` set out \<subseteq> {..<i} \<and> live = {..<i} - fst ` set out
    \<and> (\<forall>p l. (p, l) \<in> set out \<longrightarrow> cl_result (rc_client c) p \<noteq> None \<and> l = shown E c p)"

lemma async_invD:
  assumes "async_inv E i live c out"
  shows "distinct (map fst out)" "fst ` set out \<subseteq> {..<i}" "live = {..<i} - fst ` set out"
    "(p, l) \<in> set out \<Longrightarrow> p < i \<and> cl_result (rc_client c) p \<noteq> None \<and> l = shown E c p"
  using assms by (auto simp: async_inv_def)

lemma async_output:
  assumes "promise_map T" "example_wire W X" "h (service_full_name MyService) \<noteq> h (service_full_name Service2)"
    and "async_run W T X E h i live ch c out"
  shows "async_inv E i live c out"
  using assms(4)
proof (induction rule: async_run.induct)
  case (start pl cores)
  show ?case by (simp add: async_inv_def)
next
  case (network i live ch c out c')
  have inv: "example_inv W T X E h i ch c"
    by (rule example_calls_inv [OF assms(1,3) async_calls [OF network.hyps(1)]])
  note old = async_invD [OF network.IH]
  show ?case
    unfolding async_inv_def
  proof (intro conjI allI impI)
    fix p l assume "(p, l) \<in> set out"
    with old(4) network_keeps [OF assms(1,3) inv network.hyps(2)]
    show "cl_result (rc_client c') p \<noteq> None" "l = shown E c' p" by fastforce+
  qed (fact old)+
next
  case (call i live ch c out conn ch' c')
  have inv: "example_inv W T X E h i ch c"
    by (rule example_calls_inv [OF assms(1,3) async_calls [OF call.hyps(1)]])
  note old = async_invD [OF call.IH]
  show ?case
    unfolding async_inv_def
  proof (intro conjI allI impI)
    fix p l assume pl: "(p, l) \<in> set out"
    with call_keeps [OF inv call.hyps(3), of p] old(4) [OF pl]
    show "cl_result (rc_client c') p \<noteq> None" "l = shown E c' p" by simp_all
  next
    show "fst ` set out \<subseteq> {..<Suc i}" "insert i live = {..<Suc i} - fst ` set out"
      using old(2,3) by auto
  qed (fact old)
next
  case (callback i live ch c out p Res res l live')
  have inv: "example_inv W T X E h i ch c"
    by (rule example_calls_inv [OF assms(1,3) async_calls [OF callback.hyps(1)]])
  note old = async_invD [OF callback.IH]
  from result_line [OF assms(1,2) inv callback.hyps(3,4)] callback.hyps(5)
  have l: "l = shown E c p" "live' = live - {p}" by (auto simp: response_callback_def)
  have p: "p < i" "p \<notin> fst ` set out" using callback.hyps(2) old(3) by auto
  show ?case
    unfolding async_inv_def
  proof (intro conjI allI impI)
    fix q k assume "(q, k) \<in> set (out @ [(p, l)])"
    then show "cl_result (rc_client c) q \<noteq> None" "k = shown E c q"
      using old(4) [of q k] callback.hyps(3) l(1) by auto
  qed (use old(1-3) p l in auto)
qed

section \<open>The clients are never stuck\<close>

text \<open>A connected client has fewer pending calls than the dispatcher's limit, and none with the id of the
  next turn, so its next call is sent.\<close>

definition has_pipeline :: "('h, 'u) rpc_client \<Rightarrow> bool" where
  "has_pipeline c \<longleftrightarrow> rc_connected c \<and> (\<exists>pl. cd_pipeline (cl_disp (rc_client c)) = Ptr pl)"

lemma few_entries:
  assumes "client_inv W T lim t s"
  shows "card (dom (client_entries T s)) \<le> cl_calls s"
proof -
  note i = client_invD [OF assms]
  have "dom (client_entries T s) \<subseteq> (\<lambda>p. rm_id (cl_arg s p)) ` {..<cl_calls s}"
    using i(1) by (fastforce simp: pending_def)
  then have "card (dom (client_entries T s)) \<le> card ((\<lambda>p. rm_id (cl_arg s p)) ` {..<cl_calls s})"
    by (rule card_mono [OF finite_imageI [OF finite_lessThan]])
  also have "\<dots> \<le> card {..<cl_calls s}" by (rule card_image_le) simp
  finally show ?thesis by simp
qed

lemma next_call_sent:
  assumes T: "promise_map T" and inv: "example_inv W T X E h i ch c" and c: "has_pipeline c" and i: "i < 1000000"
  shows "\<exists>ch' c'. client_call W T X E h None i ch c = Inr (ch', c') \<and> has_pipeline c'"
proof -
  note e = example_invD [OF inv] and s = scriptedD [OF example_invD(4) [OF inv]]
  have ci: "client_inv W T 9223372036854775807 5000 (rc_client c)" by (rule promise_map.reach_inv [OF T s(1)])
  have "client_entries T (rc_client c) (rm_id (sent W X E h i)) \<noteq> Some p" for p
  proof
    assume "client_entries T (rc_client c) (rm_id (sent W X E h i)) = Some p"
    then have p: "p < i" "rm_id (cl_arg (rc_client c) p) = of_nat i"
      using client_invD(1) [OF ci] s(2) by (auto simp: pending_def sent_sel)
    then have "(of_nat p :: s64) = of_nat i" using s(3) [OF p(1)] by (simp add: sent_sel)
    with p(1) i show False using same_id [of p i] by simp
  qed
  then have new: "client_entries T (rc_client c) (rm_id (sent W X E h i)) = None" by blast
  have few: "card (dom (client_entries T (rc_client c))) < unat (9223372036854775807 :: u64)"
    using few_entries [OF ci] s(2) i by simp
  obtain pl where pl: "rc_connected c" "cd_pipeline (cl_disp (rc_client c)) = Ptr pl"
    using c unfolding has_pipeline_def by blast
  obtain s' where sent: "dispatcher_call W T (sent W X E h i) (rc_client c) = Inr s'"
    using promise_map.call_sent [OF T ci few new pl(2)] by blast
  have "client_call W T X E h None i ch c = Inr (ch\<lparr>ch_request_id := Some (of_nat i + 1)\<rparr>, c\<lparr>rc_client := s'\<rparr>)"
    using sent pl by (simp add: client_call_def sent_def start_connected [OF e(1,2)])
  with pl call_changes(6) [OF sent] show ?thesis by (simp add: has_pipeline_def)
qed

text \<open>Every call made has its result, or a timer that gives it one.\<close>

lemma result_comes:
  assumes T: "promise_map T" and inv: "example_inv W T X E h i ch c" and c: "has_pipeline c" and p: "p < i"
  shows "\<exists>c' r. network_step W T X E h c c' \<and> has_pipeline c' \<and> cl_result (rc_client c') p = Some r
    \<or> has_pipeline c \<and> c' = c \<and> cl_result (rc_client c) p = Some r"
proof (cases "cl_result (rc_client c) p")
  case (Some r)
  with c show ?thesis by blast
next
  case None
  note s = scriptedD [OF example_invD(4) [OF inv]]
  from None p have "pending (rc_client c) p" using s(2) by (simp add: pending_def)
  then have "cl_timer (rc_client c) p \<noteq> None"
    using client_invD(3) [OF promise_map.reach_inv [OF T s(1)]] by simp
  from network_step.timeout [OF this None] c show ?thesis
    by (intro exI [of _ "c\<lparr>rc_client := dispatcher_timeout W T p (rc_client c)\<rparr>"]
        exI [of _ "local_reply W TIMEOUT (cl_arg (rc_client c) p)"] disjI1)
      (auto simp: has_pipeline_def promise_map.timeout_sel [OF T])
qed

lemma sync_returns:
  assumes T: "promise_map T" and h: "h (service_full_name MyService) \<noteq> h (service_full_name Service2)"
    and run: "sync_run W T X E h i True ch c out" and c: "has_pipeline c"
  shows "\<exists>c' l. sync_run W T X E h (Suc i) False ch c' (out @ [l]) \<and> has_pipeline c'"
proof -
  have "example_inv W T X E h (Suc i) ch c" using example_calls_inv [OF T h sync_calls [OF run]] by simp
  from result_comes [OF T this c lessI] obtain c' r where
    "sync_run W T X E h i True ch c' out" "has_pipeline c'" "cl_result (rc_client c') i = Some r"
    using run sync_run.network [OF run] by blast
  with sync_run.return [OF this(1,3)] show ?thesis by (auto simp: CallMethod_finish_def)
qed

lemma sync_turn:
  assumes "promise_map T" "example_wire W X" "h (service_full_name MyService) \<noteq> h (service_full_name Service2)"
    and "sync_run W T X E h i w ch c out" "has_pipeline c" "i < 1000000"
  shows "\<exists>ch' c' l. sync_run W T X E h (Suc i) False ch' c' (out @ [l]) \<and> has_pipeline c'"
proof (cases w)
  case True
  with assms(4) have "sync_run W T X E h i True ch c out" by simp
  from sync_returns [OF assms(1,3) this assms(5)] show ?thesis by blast
next
  case False
  with assms(4) have run: "sync_run W T X E h i False ch c out" by simp
  have "example_inv W T X E h i ch c" using example_calls_inv [OF assms(1,3) sync_calls [OF run]] by simp
  from next_call_sent [OF assms(1) this assms(5,6)] obtain ch' c' where
    next_call: "client_call W T X E h None i ch c = Inr (ch', c')" and c': "has_pipeline c'" by blast
  from sync_returns [OF assms(1,3) sync_run.call [OF run assms(6) next_call] c'] show ?thesis by blast
qed

lemma async_returns:
  assumes T: "promise_map T" and h: "h (service_full_name MyService) \<noteq> h (service_full_name Service2)"
    and run: "async_run W T X E h i live ch c out" and c: "has_pipeline c" and p: "p \<in> live" "p < i"
  shows "\<exists>c' l. async_run W T X E h i (live - {p}) ch c' (out @ [(p, l)]) \<and> has_pipeline c'"
proof -
  have inv: "example_inv W T X E h i ch c" by (rule example_calls_inv [OF T h async_calls [OF run]])
  from result_comes [OF T inv c p(2)] obtain c' r where c': "async_run W T X E h i live ch c' out" "has_pipeline c'"
    "cl_result (rc_client c') p = Some r"
    using run async_run.network [OF run] by blast
  obtain res where "CallMethod_finish (example_channel W X h) True r (client_response W p) = (res, 1)"
    by (simp add: CallMethod_finish_def Let_def)
  from async_run.callback [OF c'(1) p(1) c'(3) this] c'(2) show ?thesis by (auto simp: response_callback_def)
qed

lemma async_drain:
  assumes T: "promise_map T" and w: "example_wire W X" and h: "h (service_full_name MyService) \<noteq> h (service_full_name Service2)"
  shows "\<lbrakk>async_run W T X E h i live ch c out; has_pipeline c; finite live\<rbrakk> \<Longrightarrow>
    \<exists>c' rest. async_run W T X E h i {} ch c' (out @ rest)"
proof (induction "card live" arbitrary: live c out)
  case 0
  then show ?case by (metis append_Nil2 card_0_eq)
next
  case (Suc n)
  then obtain p where p: "p \<in> live" by (metis card.empty ex_in_conv nat.distinct(1))
  have "p < i" using async_invD(3) [OF async_output [OF T w h Suc.prems(1)]] p by blast
  from async_returns [OF T h Suc.prems(1,2) p this] obtain c' l where
    c': "async_run W T X E h i (live - {p}) ch c' (out @ [(p, l)])" "has_pipeline c'" by blast
  have "n = card (live - {p})" "finite (live - {p})" using Suc.hyps(2) p Suc.prems(3) by simp_all
  from Suc.hyps(1) [OF this(1) c' this(2)] show ?case by auto
qed

lemma async_calls_sent:
  assumes T: "promise_map T" and h: "h (service_full_name MyService) \<noteq> h (service_full_name Service2)"
  shows "\<lbrakk>async_run W T X E h i live ch c out; has_pipeline c; i \<le> 1000000\<rbrakk> \<Longrightarrow>
    \<exists>live' ch' c'. async_run W T X E h 1000000 live' ch' c' out \<and> has_pipeline c'"
proof (induction "1000000 - i" arbitrary: i live ch c)
  case 0
  then have "i = 1000000" by simp
  with 0 show ?case by blast
next
  case (Suc k)
  then have i: "i < 1000000" by simp
  have "example_inv W T X E h i ch c" by (rule example_calls_inv [OF T h async_calls [OF Suc.prems(1)]])
  from next_call_sent [OF T this Suc.prems(2) i] obtain ch' c' where
    n: "client_call W T X E h None i ch c = Inr (ch', c')" "has_pipeline c'" by blast
  have "k = 1000000 - Suc i" "Suc i \<le> 1000000" using Suc.hyps(2) i by simp_all
  from Suc.hyps(1) [OF this(1) async_run.call [OF Suc.prems(1) i n(1)] n(2) this(2)] show ?case .
qed

section \<open>A first turn\<close>

text \<open>The client connects, makes its first call and gets the answer.\<close>

definition connected_client :: "'u wire_lib \<Rightarrow> 'h table_lib \<Rightarrow> ('h, 'u) rpc_client" where
  "connected_client W T = connect_dispatcher 0 (connect_flag (connect_pipeline 0 (client_start W T Null 4)))"

lemma example_connected_sel:
  "rc_connected (connected_client W T)" "cd_pipeline (cl_disp (rc_client (connected_client W T))) = Ptr 0"
  "client_entries T (rc_client (connected_client W T)) = tb_entries T (tb_empty T)"
  "cl_written (rc_client (connected_client W T)) = []"
  by (simp_all add: connected_client_def connect_dispatcher_def connect_flag_def connect_pipeline_def
      client_start_def PbRpcClient_new_def client_new_def setPipeline_def client_entries_def
      default_dispatcher_def MultiplexClientDispatcher_new_def)

lemma connecting:
  "network_step W T X E h (client_start W T Null 4) (connect_pipeline 0 (client_start W T Null 4))"
  "network_step W T X E h (connect_pipeline 0 (client_start W T Null 4))
     (connect_flag (connect_pipeline 0 (client_start W T Null 4)))"
  "network_step W T X E h (connect_flag (connect_pipeline 0 (client_start W T Null 4))) (connected_client W T)"
  unfolding connected_client_def by (rule network_step.intros)+

lemma connected_calls: "example_calls W T X E h 0 RpcChannel_new (connected_client W T)"
  by (rule example_calls.network [OF example_calls.network [OF example_calls.network [OF example_calls.start
    connecting(1)] connecting(2)] connecting(3)])

lemma first_sent:
  assumes T: "promise_map T" and h: "h (service_full_name MyService) \<noteq> h (service_full_name Service2)"
  shows "\<exists>ch c. client_call W T X E h None 0 RpcChannel_new (connected_client W T) = Inr (ch, c)
    \<and> client_inv W T 9223372036854775807 5000 (rc_client c) \<and> cl_written (rc_client c) = [sent W X E h 0]
    \<and> client_entries T (rc_client c) 0 = Some 0"
proof -
  have inv: "example_inv W T X E h 0 RpcChannel_new (connected_client W T)"
    by (rule example_calls_inv [OF T h connected_calls])
  have ci: "client_inv W T 9223372036854775807 5000 (rc_client (connected_client W T))"
    by (rule promise_map.reach_inv [OF T scriptedD(1) [OF example_invD(4) [OF inv]]])
  have "card (dom (client_entries T (rc_client (connected_client W T)))) < unat (9223372036854775807 :: u64)"
    "client_entries T (rc_client (connected_client W T)) (rm_id (sent W X E h 0)) = None"
    by (simp_all add: example_connected_sel promise_map.entries_empty [OF T])
  from promise_map.call_sent [OF T ci this example_connected_sel(2)] obtain s0 where
    s0: "dispatcher_call W T (sent W X E h 0) (rc_client (connected_client W T)) = Inr s0"
      "cl_written s0 = [sent W X E h 0]" "client_entries T s0 0 = Some 0"
    using scriptedD(2) [OF example_invD(4) [OF inv]] by (auto simp: example_connected_sel sent_sel)
  let ?ch = "RpcChannel_new\<lparr>ch_request_id := Some 1\<rparr>" let ?c = "(connected_client W T)\<lparr>rc_client := s0\<rparr>"
  have call: "client_call W T X E h None 0 RpcChannel_new (connected_client W T) = Inr (?ch, ?c)"
    using s0(1) by (simp add: client_call_def start_connected [OF RpcChannel_new_sel example_connected_sel(1)] sent_def)
  have "client_inv W T 9223372036854775807 5000 (rc_client ?c)"
    using example_call [OF T inv _ call] by (intro promise_map.reach_inv [OF T]) (auto dest!: example_invD(4) scriptedD(1))
  with call s0 show ?thesis by (intro exI [of _ ?ch] exI [of _ ?c]) simp
qed

lemma first_answer:
  assumes T: "promise_map T" and h: "h (service_full_name MyService) \<noteq> h (service_full_name Service2)"
  shows "\<exists>ch c c' m. client_call W T X E h None 0 RpcChannel_new (connected_client W T) = Inr (ch, c)
    \<and> network_step W T X E h c c' \<and> cl_result (rc_client c') 0 = Some m \<and> cl_value (rc_client c') 0 = Some m"
proof -
  obtain ch c where call: "client_call W T X E h None 0 RpcChannel_new (connected_client W T) = Inr (ch, c)"
    and ci: "client_inv W T 9223372036854775807 5000 (rc_client c)" and w: "cl_written (rc_client c) = [sent W X E h 0]"
    and e: "client_entries T (rc_client c) 0 = Some 0"
    using first_sent [where W = W and X = X and E = E, OF T h] by (elim exE conjE) (rule that)
  let ?srv = "fst (server_main (example_api W X E h) MyService Service2 [])"
  obtain res srv' where served: "RpcMsgService_call W (example_api W X E h) (sent W X E h 0) ?srv = Inr (res, srv')"
    and res: "res\<lparr>rm_cached_size := 0\<rparr> = answered W X E h 0"
    unfolding answered_def using main_serves [where W = W and req = "sent W X E h 0" and d = "client_method 0", OF h sent_sel(2,3) client_methods]
    by blast
  then have "client_entries T (rc_client c) (rm_id (res\<lparr>rm_cached_size := 0\<rparr>)) = Some 0"
    using e by (simp add: answered_sel)
  from promise_map.read_known [OF T ci this] obtain s where
    r: "dispatcher_read T (res\<lparr>rm_cached_size := 0\<rparr>) (rc_client c) = Inr s" "cl_result s 0 \<noteq> None"
      "cl_value s 0 = cl_result s 0" by auto
  have "network_step W T X E h c (c\<lparr>rc_client := s\<rparr>)"
    by (rule network_step.read [OF _ main_reach served r(1)]) (simp add: w)
  moreover obtain m where "cl_result s 0 = Some m" "cl_value s 0 = Some m" using r(2,3) by auto
  ultimately show ?thesis using call by (intro exI [of _ ch] exI [of _ c] exI [of _ "c\<lparr>rc_client := s\<rparr>"] exI [of _ m]) simp
qed

lemma first_line: "good_line E 0 = EchoLine (str '' --- 0 --- '') (str '' --- 0 --- '')"
proof -
  have "decimal 0 = ''0''" by code_simp
  then show ?thesis by (simp add: good_line_def echo_text_def)
qed

section \<open>Properties\<close>

text \<open>The synchronous client prints, for every turn of its loop so far, the line its call is meant
  to give: the same text echoed, the sum, the difference, the product, the quotient; whatever the
  order of connection events, responses and timers. The one exception is a call that got no response
  in time: \<open>CallMethod\<close> hides the error, and the line shows an empty or zero result.\<close>

theorem sync_client_prints:
  assumes "promise_map T" "example_wire W X" "h (service_full_name MyService) \<noteq> h (service_full_name Service2)"
    and "sync_run W T X E h i waiting ch c out"
  shows "length out = i
    \<and> (\<forall>p < i. out ! p = (if cl_value (rc_client c) p \<noteq> None then good_line E p else blank_line E p))"
  using sync_output [OF assms] by (simp add: shown_def)

theorem sync_client_prints_witness:
  "\<exists>ch c. sync_run varint_lib alist_table text_float plain_env name_length 1 False ch c
     [EchoLine (str '' --- 0 --- '') (str '' --- 0 --- '')]"
proof -
  let ?run = "sync_run varint_lib alist_table text_float plain_env name_length"
  obtain ch c c' m where a: "client_call varint_lib alist_table text_float plain_env name_length None 0 RpcChannel_new
      (connected_client varint_lib alist_table) = Inr (ch, c)"
    and b: "network_step varint_lib alist_table text_float plain_env name_length c c'"
    and m: "cl_result (rc_client c') 0 = Some m" "cl_value (rc_client c') 0 = Some m"
    using first_answer [OF alist.promise_map_axioms names_differ] by blast
  have "?run 0 False RpcChannel_new (connected_client varint_lib alist_table) []"
    by (rule sync_run.network [OF sync_run.network [OF sync_run.network [OF sync_run.start
      connecting(1)] connecting(2)] connecting(3)])
  then have "?run 0 True ch c []" by (rule sync_run.call [OF _ _ a]) simp
  then have "?run 0 True ch c' []" by (rule sync_run.network [OF _ b])
  from sync_run.return [OF this m(1)] obtain l where l: "?run 1 False ch c' [l]"
    by (auto simp: CallMethod_finish_def)
  from sync_client_prints [OF alist.promise_map_axioms example_varint.example_wire_axioms names_differ l] m
  have "l = good_line plain_env 0" by simp
  with l show ?thesis by (auto simp: first_line)
qed

text \<open>C30: The synchronous client can always finish: from every state of its run that has a connection,
  waiting or not, the loop can be completed; all the million turns return, the ones to come included,
  and what was printed stays.\<close>

theorem sync_client_finishes:
  assumes "promise_map T" "example_wire W X" "h (service_full_name MyService) \<noteq> h (service_full_name Service2)"
    and "sync_run W T X E h i waiting ch c out" "has_pipeline c" "i < 1000000"
  shows "\<exists>ch' c' rest. sync_run W T X E h 1000000 False ch' c' (out @ rest) \<and> i + length rest = 1000000"
proof -
  have "\<exists>ch' c' rest. sync_run W T X E h 1000000 False ch' c' (out @ rest)"
    if "sync_run W T X E h j False ch c out" "has_pipeline c" "j \<le> 1000000" for j ch c out
    using that
  proof (induction "1000000 - j" arbitrary: j ch c out)
    case 0
    then have "j = 1000000" by simp
    with 0 show ?case by (metis append_Nil2)
  next
    case (Suc k)
    then have j: "j < 1000000" by simp
    from sync_turn [OF assms(1-3) Suc.prems(1,2) j] obtain ch' c' l where
      "sync_run W T X E h (Suc j) False ch' c' (out @ [l])" "has_pipeline c'" by blast
    from Suc.hyps(1) [OF _ this] Suc.hyps(2) j show ?case by fastforce
  qed
  with sync_turn [OF assms] assms(6) obtain ch' c' rest where
    run: "sync_run W T X E h 1000000 False ch' c' (out @ rest)" by (metis Suc_leI append.assoc)
  have "length out = i" "length (out @ rest) = 1000000"
    using sync_output [OF assms(1-3) assms(4)] sync_output [OF assms(1-3) run] by simp_all
  with run show ?thesis by fastforce
qed

theorem sync_client_finishes_witness:
  "\<exists>ch c out. sync_run varint_lib alist_table text_float plain_env name_length 1000000 False ch c out
     \<and> length out = 1000000"
proof -
  have run: "sync_run varint_lib alist_table text_float plain_env name_length 0 False RpcChannel_new
      (connected_client varint_lib alist_table) []"
    by (rule sync_run.network [OF sync_run.network [OF sync_run.network [OF sync_run.start
      connecting(1)] connecting(2)] connecting(3)])
  have "has_pipeline (connected_client varint_lib alist_table :: ((s64 \<times> nat) list, byte list) rpc_client)"
    by (simp add: has_pipeline_def example_connected_sel)
  from sync_client_finishes [OF alist.promise_map_axioms example_varint.example_wire_axioms names_differ run this]
  show ?thesis by auto
qed

text \<open>The asynchronous client frees what it allocates: the callback of each call runs at most once,
  prints the line of its call (or, when no response came in time, an empty or zero result), and the
  request and response objects still allocated are exactly those of the calls whose callback has not
  run yet.\<close>

theorem async_client_callbacks:
  assumes "promise_map T" "example_wire W X" "h (service_full_name MyService) \<noteq> h (service_full_name Service2)"
    and "async_run W T X E h i live ch c out"
  shows "distinct (map fst out) \<and> live = {..<i} - fst ` set out \<and> fst ` set out \<subseteq> {..<i}
    \<and> (\<forall>p l. (p, l) \<in> set out \<longrightarrow>
         l = (if cl_value (rc_client c) p \<noteq> None then good_line E p else blank_line E p))"
  using async_output [OF assms] by (simp add: async_inv_def shown_def)

theorem async_client_callbacks_witness:
  "\<exists>live ch c. async_run varint_lib alist_table text_float plain_env name_length 1 live ch c
     [(0, EchoLine (str '' --- 0 --- '') (str '' --- 0 --- ''))] \<and> live = {}"
proof -
  let ?run = "async_run varint_lib alist_table text_float plain_env name_length"
  obtain ch c c' m where a: "client_call varint_lib alist_table text_float plain_env name_length None 0 RpcChannel_new
      (connected_client varint_lib alist_table) = Inr (ch, c)"
    and b: "network_step varint_lib alist_table text_float plain_env name_length c c'"
    and m: "cl_result (rc_client c') 0 = Some m" "cl_value (rc_client c') 0 = Some m"
    using first_answer [OF alist.promise_map_axioms names_differ] by blast
  have "?run 0 {} RpcChannel_new (connected_client varint_lib alist_table) []"
    by (rule async_run.network [OF async_run.network [OF async_run.network [OF async_run.start
      connecting(1)] connecting(2)] connecting(3)])
  then have "?run (Suc 0) {0} ch c []" by (rule async_run.call [OF _ _ a]) simp
  then have "?run (Suc 0) {0} ch c' []" by (rule async_run.network [OF _ b])
  from async_run.callback [OF this _ m(1)] obtain l live where l: "?run 1 live ch c' ([] @ [(0, l)])"
    by (auto simp: CallMethod_finish_def response_callback_def Let_def)
  from async_client_callbacks [OF alist.promise_map_axioms example_varint.example_wire_axioms names_differ l] m
  have "l = good_line plain_env 0" "live = {}" by auto
  with l show ?thesis by (auto simp: first_line)
qed

text \<open>C31: The asynchronous client can always finish: from every state of its run that has a connection,
  the loop can be completed and every callback run, each call's exactly once, so that in the end
  nothing it allocated is left.\<close>

theorem async_client_finishes:
  assumes "promise_map T" "example_wire W X" "h (service_full_name MyService) \<noteq> h (service_full_name Service2)"
    and "async_run W T X E h i live ch c out" "has_pipeline c" "i \<le> 1000000"
  shows "\<exists>ch' c' rest. async_run W T X E h 1000000 {} ch' c' (out @ rest)
    \<and> distinct (map fst (out @ rest)) \<and> set (map fst (out @ rest)) = {..<1000000}"
proof -
  obtain live' ch' c' where r: "async_run W T X E h 1000000 live' ch' c' out" "has_pipeline c'"
    using async_calls_sent [OF assms(1,3-6)] by blast
  have "finite live'" using async_invD(3) [OF async_output [OF assms(1-3) r(1)]] by simp
  from async_drain [OF assms(1-3) r this] obtain c'' rest where
    run: "async_run W T X E h 1000000 {} ch' c'' (out @ rest)" by blast
  note a = async_invD [OF async_output [OF assms(1-3) run]]
  have "set (map fst (out @ rest)) = {..<1000000}" using a(2,3) by auto
  with run a(1) show ?thesis by blast
qed

theorem async_client_finishes_witness:
  "\<exists>ch c out. async_run varint_lib alist_table text_float plain_env name_length 1000000 {} ch c out
     \<and> set (map fst out) = {..<1000000}"
proof -
  have run: "async_run varint_lib alist_table text_float plain_env name_length 0 {} RpcChannel_new
      (connected_client varint_lib alist_table) []"
    by (rule async_run.network [OF async_run.network [OF async_run.network [OF async_run.start
      connecting(1)] connecting(2)] connecting(3)])
  have "has_pipeline (connected_client varint_lib alist_table :: ((s64 \<times> nat) list, byte list) rpc_client)"
    by (simp add: has_pipeline_def example_connected_sel)
  from async_client_finishes [OF alist.promise_map_axioms example_varint.example_wire_axioms names_differ run this]
  show ?thesis by auto
qed

end
