(* ===== verification/ExamplePrograms.thy ===== *)
theory ExamplePrograms
  imports ChannelConnection ExampleClients
begin

text \<open>
  The example clients with the bytes between them and the example server: \<open>main\<close> of
  \<open>example/SyncRpcClientTest.cpp\<close> and \<open>example/AsyncRpcClientTest.cpp\<close> on a connection whose other end is
  the server of \<open>example/RpcServerTest.cpp\<close>. Their runs refine those of \<open>ExampleClients\<close>, where a response
  is one step: what moves bytes, frames and requests about changes nothing the client can see, and what
  the client reads is the server's answer to a request it has written.
\<close>

section \<open>Steps of the connection are steps of the surroundings\<close>

lemma link_step_network:
  assumes R: "rpc_connection L W M T" and reach: "conn_reach L W M T (example_api W X E h) [MyService, Service2] lim t c"
    and ok: "conn_ok L W c" and client: "cn_client c = rc_client rc"
    and step: "link_step L W M T (example_api W X E h) rc c rc' c'"
  shows "rc' = rc \<or> network_step W T X E h rc rc'"
  using step
proof cases
  case (pipeline pl)
  then show ?thesis by (simp add: network_step.pipeline)
next
  case flag
  then show ?thesis by (simp add: network_step.flag)
next
  case error
  then show ?thesis by (simp add: network_step.error)
next
  case net
  note inv = rpc_connection.reach_conn_inv [OF R reach ok]
  have same: "rc\<lparr>rc_client := cn_client c\<rparr> = rc" by (simp add: client)
  from net(2) show ?thesis
  proof cases
    case (connect pl)
    with net(1) network_step.dispatcher [of W T X E h rc pl] show ?thesis
      by (simp add: connect_dispatcher_def client)
  next
    case (call arg s)
    have "promise_map T" using R by (simp add: rpc_connection_def)
    from promise_map.call_sel(1) [OF this call(2)] net(3) call(1) show ?thesis by simp
  next
    case (receive b m s)
    let ?k = "ln_read (cn_down c)"
    note m = rpc_connection.received_done [OF R inv ok receive(2,3)]
    obtain req res where d: "cn_done c ! ?k = (req, res)" by (metis prod.exhaust)
    with m(1) have "(req, res) \<in> set (cn_done c)" by (metis nth_mem)
    from rpc_connection.done_ids [OF R inv this] obtain w where
      w: "w \<in> set (cl_written (rc_client rc))" "served W (example_api W X E h) [MyService, Service2] w res"
      by (auto simp: client)
    obtain n where n: "server_reach W (example_api W X E h) [MyService, Service2] n (cn_server c)"
      using conn_invD(2) [OF inv] by blast
    from w(2) server_call [OF conjunct1 [OF server_reach_inv [OF n]], of W w] obtain srv' where
      "RpcMsgService_call W (example_api W X E h) w (cn_server c) = Inr (res, srv')"
      by (auto simp: served_def response_to_def)
    from network_step.read [OF w(1) n this] receive m(2) d client net(1) show ?thesis
      by (simp add: received_def)
  next
    case (timeout p)
    with network_step.timeout [of rc p W T X E h] net(1) client show ?thesis by simp
  qed (use net(1) same in simp_all)
qed

section \<open>The programs\<close>

text \<open>\<open>main\<close> of the two clients, with the connection \<open>c\<close>. The server may have served other clients before.\<close>

inductive sync_bytes ::
  "('q, 'b, 'c) iobuf_lib \<Rightarrow> 'u wire_lib \<Rightarrow> 'u message_lib \<Rightarrow> 'h table_lib \<Rightarrow> text_float_lib \<Rightarrow> cpp_env
   \<Rightarrow> (byte list \<Rightarrow> u32) \<Rightarrow> nat \<Rightarrow> bool \<Rightarrow> rpc_channel \<Rightarrow> ('h, 'u) rpc_client \<Rightarrow> line list
   \<Rightarrow> ('h, 'u, 'q, 'b, example_service, example_service \<times> nat, 'u example_message) connection \<Rightarrow> bool"
  for L W M T X E h where
  start: "link_start L W (example_api W X E h) [MyService, Service2] (client_start W T pl cores) c \<Longrightarrow>
    sync_bytes L W M T X E h 0 False RpcChannel_new (client_start W T pl cores) [] c"
| link: "\<lbrakk>sync_bytes L W M T X E h i w ch rc out c; link_step L W M T (example_api W X E h) rc c rc' c'\<rbrakk> \<Longrightarrow>
    sync_bytes L W M T X E h i w ch rc' out c'"
| call: "\<lbrakk>sync_bytes L W M T X E h i False ch rc out c; i < 1000000;
      client_call W T X E h conn i ch rc = Inr (ch', rc')\<rbrakk> \<Longrightarrow>
    sync_bytes L W M T X E h i True ch' rc' out (link_sent L M rc' c)"
| return: "\<lbrakk>sync_bytes L W M T X E h i True ch rc out c; cl_result (rc_client rc) i = Some Res;
      CallMethod_finish (example_channel W X h) False Res (client_response W i) = (res, 0)\<rbrakk> \<Longrightarrow>
    sync_bytes L W M T X E h (Suc i) False ch rc (out @ [printed i (client_request W E i) res]) c"

inductive async_bytes ::
  "('q, 'b, 'c) iobuf_lib \<Rightarrow> 'u wire_lib \<Rightarrow> 'u message_lib \<Rightarrow> 'h table_lib \<Rightarrow> text_float_lib \<Rightarrow> cpp_env
   \<Rightarrow> (byte list \<Rightarrow> u32) \<Rightarrow> nat \<Rightarrow> nat set \<Rightarrow> rpc_channel \<Rightarrow> ('h, 'u) rpc_client \<Rightarrow> (nat \<times> line) list
   \<Rightarrow> ('h, 'u, 'q, 'b, example_service, example_service \<times> nat, 'u example_message) connection \<Rightarrow> bool"
  for L W M T X E h where
  start: "link_start L W (example_api W X E h) [MyService, Service2] (client_start W T pl cores) c \<Longrightarrow>
    async_bytes L W M T X E h 0 {} RpcChannel_new (client_start W T pl cores) [] c"
| link: "\<lbrakk>async_bytes L W M T X E h i live ch rc out c; link_step L W M T (example_api W X E h) rc c rc' c'\<rbrakk> \<Longrightarrow>
    async_bytes L W M T X E h i live ch rc' out c'"
| call: "\<lbrakk>async_bytes L W M T X E h i live ch rc out c; i < 1000000;
      client_call W T X E h conn i ch rc = Inr (ch', rc')\<rbrakk> \<Longrightarrow>
    async_bytes L W M T X E h (Suc i) (insert i live) ch' rc' out (link_sent L M rc' c)"
| callback: "\<lbrakk>async_bytes L W M T X E h i live ch rc out c; p \<in> live; cl_result (rc_client rc) p = Some Res;
      CallMethod_finish (example_channel W X h) True Res (client_response W p) = (res, 1);
      response_callback p (client_request W E p) res live = (l, live')\<rbrakk> \<Longrightarrow>
    async_bytes L W M T X E h i live' ch rc (out @ [(p, l)]) c"

text \<open>Both are runs of a channel on a connection, with the calls of the turns so far.\<close>

definition turns :: "'u wire_lib \<Rightarrow> cpp_env \<Rightarrow> nat \<Rightarrow> ((example_service \<times> nat) \<times> 'u example_message) list" where
  "turns W E n = map (\<lambda>p. (client_method p, client_request W E p)) [0..<n]"

lemma turns_sel: "turns W E 0 = []" "length (turns W E n) = n"
  "turns W E (Suc n) = turns W E n @ [(client_method n, client_request W E n)]"
  by (simp_all add: turns_def)

abbreviation example_link ::
  "('q, 'b, 'c) iobuf_lib \<Rightarrow> 'u wire_lib \<Rightarrow> 'u message_lib \<Rightarrow> 'h table_lib \<Rightarrow> text_float_lib \<Rightarrow> cpp_env
   \<Rightarrow> (byte list \<Rightarrow> u32) \<Rightarrow> nat \<Rightarrow> rpc_channel \<Rightarrow> ('h, 'u) rpc_client
   \<Rightarrow> ('h, 'u, 'q, 'b, example_service, example_service \<times> nat, 'u example_message) connection \<Rightarrow> bool" where
  "example_link L W M T X E h n \<equiv> link_reach L W M T (example_api W X E h) [MyService, Service2]
     (example_channel W X h) 9223372036854775807 5000 (turns W E n)"

lemma example_link_start:
  assumes "link_start L W (example_api W X E h) [MyService, Service2] (client_start W T pl cores) c"
  shows "example_link L W M T X E h 0 RpcChannel_new (client_start W T pl cores) c"
proof -
  have "client_start W T pl cores = PbRpcClient_new_limits W T pl (str ''127.0.0.1'') 8888 (pool_size 0 cores)
      9223372036854775807 5000"
    by (simp add: client_start_def PbRpcClient_new_def PbRpcClient_new_limits_def default_dispatcher_def)
  with assms show ?thesis by (simp add: link_reach.start turns_sel(1))
qed

lemma example_link_call:
  "\<lbrakk>example_link L W M T X E h n ch rc c; client_call W T X E h conn n ch rc = Inr (ch', rc')\<rbrakk> \<Longrightarrow>
   example_link L W M T X E h (Suc n) ch' rc' (link_sent L M rc' c)"
  by (simp add: client_call_def link_reach.call turns_sel(3))

lemma sync_link: "sync_bytes L W M T X E h i w ch rc out c \<Longrightarrow>
    i \<le> 1000000 \<and> (w \<longrightarrow> i < 1000000) \<and> example_link L W M T X E h (if w then Suc i else i) ch rc c"
  by (induction rule: sync_bytes.induct)
    (auto intro: example_link_start example_link_call link_reach.other)

lemma async_link: "async_bytes L W M T X E h i live ch rc out c \<Longrightarrow>
    i \<le> 1000000 \<and> example_link L W M T X E h i ch rc c"
  by (induction rule: async_bytes.induct)
    (auto intro: example_link_start example_link_call link_reach.other)

section \<open>Refinement\<close>

lemma example_link_network:
  assumes "transport L W M" "promise_map T" "example_link L W M T X E h n ch rc c" "n \<le> 1000000" "link_ok L W c"
    and "link_step L W M T (example_api W X E h) rc c rc' c'"
  shows "rc' = rc \<or> network_step W T X E h rc rc'"
proof -
  have "length (turns W E n) \<le> 2 ^ 64" using assms(4) by (simp add: turns_sel)
  from promise_map.link_conn_ok [OF assms(2,3,5) this] link_invD(1,2) [OF promise_map.link_reach_inv [OF assms(2,3)]]
  show ?thesis using assms(1,2,6) by (intro link_step_network) (simp_all add: rpc_connection_def)
qed

lemma example_link_ok_sent:
  assumes "promise_map T" "example_link L W M T X E h n ch rc c" "client_call W T X E h conn n ch rc = Inr (ch', rc')"
    and "link_ok L W (link_sent L M rc' c)"
  shows "link_ok L W c"
proof -
  have "link_inv L W M T (example_api W X E h) [MyService, Service2] (example_channel W X h) 9223372036854775807 5000
      (turns W E n) ch rc c"
    by (rule promise_map.link_reach_inv [OF assms(1,2)])
  then have "ch_request_id ch = Some (of_nat (length (turns W E n)))" "cn_client c = rc_client rc"
    by (simp_all add: link_inv_def)
  from promise_map.link_ok_sent [OF assms(1) assms(3) [unfolded client_call_def] this assms(4)] show ?thesis .
qed

lemma sync_refines:
  assumes "transport L W M" "promise_map T" "sync_bytes L W M T X E h i w ch rc out c" "link_ok L W c"
  shows "sync_run W T X E h i w ch rc out"
  using assms(3,4)
proof (induction rule: sync_bytes.induct)
  case (start pl cores c)
  show ?case by (rule sync_run.start)
next
  case (link i w ch rc out c rc' c')
  have ok: "link_ok L W c" by (rule promise_map.link_ok_before [OF assms(2) link.hyps(2) link.prems])
  from sync_link [OF link.hyps(1)] have "example_link L W M T X E h (if w then Suc i else i) ch rc c"
    "(if w then Suc i else i) \<le> 1000000" by auto
  from example_link_network [OF assms(1,2) this ok link.hyps(2)] link.IH [OF ok] show ?case
    by (auto intro: sync_run.network)
next
  case (call i ch rc out c conn ch' rc')
  from sync_link [OF call.hyps(1)] have "example_link L W M T X E h i ch rc c" by simp
  from call.IH [OF example_link_ok_sent [OF assms(2) this call.hyps(3) call.prems]] call.hyps(2,3) show ?case
    by (rule sync_run.call)
next
  case (return i ch rc out c Res res)
  from return.IH [OF return.prems] return.hyps(2,3) show ?case by (rule sync_run.return)
qed

lemma async_refines:
  assumes "transport L W M" "promise_map T" "async_bytes L W M T X E h i live ch rc out c" "link_ok L W c"
  shows "async_run W T X E h i live ch rc out"
  using assms(3,4)
proof (induction rule: async_bytes.induct)
  case (start pl cores c)
  show ?case by (rule async_run.start)
next
  case (link i live ch rc out c rc' c')
  have ok: "link_ok L W c" by (rule promise_map.link_ok_before [OF assms(2) link.hyps(2) link.prems])
  from async_link [OF link.hyps(1)] have "example_link L W M T X E h i ch rc c" "i \<le> 1000000" by simp_all
  from example_link_network [OF assms(1,2) this ok link.hyps(2)] link.IH [OF ok] show ?case
    by (auto intro: async_run.network)
next
  case (call i live ch rc out c conn ch' rc')
  from async_link [OF call.hyps(1)] have "example_link L W M T X E h i ch rc c" by simp
  from call.IH [OF example_link_ok_sent [OF assms(2) this call.hyps(3) call.prems]] call.hyps(2,3) show ?case
    by (rule async_run.call)
next
  case (callback i live ch rc out c p Res res l live')
  from callback.IH [OF callback.prems] callback.hyps(2-5) show ?case by (rule async_run.callback)
qed

section \<open>A first call over bytes\<close>

lemma first_request_length:
  "length (SerializeWithCachedSizes varint_lib (sent varint_lib text_float plain_env name_length 0)) = 23"
  "length (rm_request (sent varint_lib text_float plain_env name_length 0)) = 13"
  by code_simp+

lemma first_response:
  "response_to varint_lib (example_api varint_lib text_float plain_env name_length) MyService
     (sent varint_lib text_float plain_env name_length 0)
   = fill_response (message_serialize varint_lib text_float (EchoRes (text_of varint_lib (echo_text 0))))
       (sent varint_lib text_float plain_env name_length 0) (RpcMessage_new varint_lib)"
proof -
  have "client_request varint_lib plain_env 0 = EchoReq (text_of varint_lib (echo_text 0))"
    by (rule example_varint.client_request_built) simp
  moreover have "snd (client_method 0) = 0" by (simp add: client_method_def)
  ultimately show ?thesis
    using example_varint.replies(1) [OF echo_text_length [of 0]]
    by (simp add: response_to_def sent_sel del: message_serialize.simps)
qed

lemma first_response_length:
  "length (message_serialize varint_lib text_float (EchoRes (text_of varint_lib (echo_text 0)))) = 13"
  "length (SerializeWithCachedSizes varint_lib
     (fill_response (message_serialize varint_lib text_float (EchoRes (text_of varint_lib (echo_text 0))))
       (sent varint_lib text_float plain_env name_length 0) (RpcMessage_new varint_lib))) = 25"
  by code_simp+

lemma first_sendable:
  "sendable varint_lib (sent varint_lib text_float plain_env name_length 0)"
  "sendable varint_lib (response_to varint_lib (example_api varint_lib text_float plain_env name_length) MyService
     (sent varint_lib text_float plain_env name_length 0))"
proof -
  have "rpc_wf (sent varint_lib text_float plain_env name_length 0)"
    "rm_internal_metadata (sent varint_lib text_float plain_env name_length 0) = no_unknown_fields varint_lib"
    "rm_response (sent varint_lib text_float plain_env name_length 0) = []"
    unfolding sent_def the_request_def build_request_def
    by (intro setters_wf wf_new) (simp_all add: rpc_accessors, simp_all add: RpcMessage_new_def)
  then show "sendable varint_lib (sent varint_lib text_float plain_env name_length 0)"
    by (simp add: sendable_def first_request_length)
  show "sendable varint_lib (response_to varint_lib (example_api varint_lib text_float plain_env name_length) MyService
     (sent varint_lib text_float plain_env name_length 0))"
    unfolding first_response
    by (simp add: sendable_def first_response_length fill_response_wf del: message_serialize.simps)
      (simp add: RpcMessage_new_def)
qed

lemma first_frames:
  "decode chain_lib rpc_decoder [wire_bytes varint_lib [sent varint_lib text_float plain_env name_length 0]]
    = Inr ([], ReturnTrue [SerializeWithCachedSizes varint_lib (sent varint_lib text_float plain_env name_length 0)])"
  "decode chain_lib rpc_decoder [wire_bytes varint_lib [response_to varint_lib
      (example_api varint_lib text_float plain_env name_length) MyService (sent varint_lib text_float plain_env name_length 0)]]
    = Inr ([], ReturnTrue [SerializeWithCachedSizes varint_lib (response_to varint_lib
      (example_api varint_lib text_float plain_env name_length) MyService (sent varint_lib text_float plain_env name_length 0))])"
  unfolding first_response by code_simp+

text \<open>The client connects, calls, and its call is answered, in any run with these steps.\<close>

lemma first_call_bytes:
  fixes P Q :: "rpc_channel \<Rightarrow> ((s64 \<times> nat) list, byte list) rpc_client \<Rightarrow> ((s64 \<times> nat) list, byte list, chain, chain,
      example_service, example_service \<times> nat, byte list example_message) connection \<Rightarrow> bool"
  defines "api \<equiv> example_api varint_lib text_float plain_env name_length"
  assumes start: "\<And>c. link_start chain_lib varint_lib api [MyService, Service2] (client_start varint_lib alist_table Null 4) c
      \<Longrightarrow> P RpcChannel_new (client_start varint_lib alist_table Null 4) c"
    and before: "\<And>ch rc c rc' c'. \<lbrakk>P ch rc c;
      link_step chain_lib varint_lib (generated_message_lib varint_lib) alist_table api rc c rc' c'\<rbrakk> \<Longrightarrow> P ch rc' c'"
    and call: "\<And>ch rc c ch' rc'. \<lbrakk>P ch rc c;
      client_call varint_lib alist_table text_float plain_env name_length None 0 ch rc = Inr (ch', rc')\<rbrakk> \<Longrightarrow>
      Q ch' rc' (link_sent chain_lib (generated_message_lib varint_lib) rc' c)"
    and after: "\<And>ch rc c rc' c'. \<lbrakk>Q ch rc c;
      link_step chain_lib varint_lib (generated_message_lib varint_lib) alist_table api rc c rc' c'\<rbrakk> \<Longrightarrow> Q ch rc' c'"
  obtains ch rc c m where "Q ch rc c" "link_ok chain_lib varint_lib c"
    "cl_result (rc_client rc) 0 = Some m" "cl_value (rc_client rc) 0 = Some m"
proof -
  let ?new = "client_start varint_lib alist_table Null 4 :: ((s64 \<times> nat) list, byte list) rpc_client"
  let ?srv = "fst (server_main api MyService Service2 [])"
  let ?req = "sent varint_lib text_float plain_env name_length 0" let ?res = "response_to varint_lib api MyService ?req"
  let ?conn = "\<lambda>s. \<lparr>cn_client = s, cn_up = lane_new [], cn_work = [], cn_server = ?srv, cn_done = [],
    cn_down = lane_new []\<rparr> :: ((s64 \<times> nat) list, byte list, chain, chain, example_service, example_service \<times> nat,
      byte list example_message) connection"
  let ?connected = "connected_client varint_lib alist_table :: ((s64 \<times> nat) list, byte list) rpc_client"
  have "P RpcChannel_new ?new (?conn (rc_client ?new))"
    by (rule start, unfold link_start_def api_def, intro exI conjI, rule main_reach) simp_all
  then have "P RpcChannel_new (connect_flag (connect_pipeline 0 ?new)) (?conn (rc_client ?new))"
    by (intro before [OF before [OF _ link_step.pipeline] link_step.flag])
  moreover have "link_step chain_lib varint_lib (generated_message_lib varint_lib) alist_table api
      (connect_flag (connect_pipeline 0 ?new)) (?conn (rc_client ?new)) ?connected (?conn (rc_client ?connected))"
  proof -
    have "conn_step chain_lib varint_lib (generated_message_lib varint_lib) alist_table api (?conn (rc_client ?new))
        (?conn (setPipeline 0 (rc_client ?new)))"
      using conn_step.connect [where c = "?conn (rc_client ?new)" and pl = 0] by (simp only: connection.simps)
    from link_step.net [OF this, of "connect_flag (connect_pipeline 0 ?new)"] show ?thesis
      by (simp add: connected_client_def connect_dispatcher_def connect_flag_def connect_pipeline_def)
        (simp add: setPipeline_def)
  qed
  ultimately have p: "P RpcChannel_new ?connected (?conn (rc_client ?connected))" by (rule before)
  obtain ch rc where c: "client_call varint_lib alist_table text_float plain_env name_length None 0 RpcChannel_new ?connected
      = Inr (ch, rc)" and ci: "client_inv varint_lib alist_table 9223372036854775807 5000 (rc_client rc)"
    and w: "cl_written (rc_client rc) = [?req]" and e: "client_entries alist_table (rc_client rc) 0 = Some 0"
    using first_sent [where W = varint_lib and X = text_float and E = plain_env, OF alist.promise_map_axioms names_differ]
    by (elim exE conjE) (rule that)
  have fits: "transmittable varint_lib ?req" "transmittable varint_lib ?res"
    unfolding api_def transmittable_def frameable_def first_response
    using first_sendable first_request_length first_response_length by (simp_all add: first_response)
  have bytes: "written_bytes chain_lib (generated_message_lib varint_lib) (rc_client ?connected) (rc_client rc)
      = wire_bytes varint_lib [?req]"
    using chain_transport.write_frame [OF fits(1)] by (simp add: written_bytes_def w example_connected_sel)
  have q: "Q ch rc ((?conn (rc_client rc))\<lparr>cn_up := lane_send (wire_bytes varint_lib [?req]) (lane_new [])\<rparr>)"
    using call [OF p c] by (simp add: link_sent_def bytes)
  have svc: "last_registered api [MyService, Service2] (rm_serviceid ?req) = Some MyService"
    "unat (rm_methodid ?req) < method_count api MyService"
    using main_registered [OF names_differ, of varint_lib text_float plain_env MyService]
    by (simp_all add: api_def sent_sel client_method_def example_api_sel del: service_full_name.simps)
  have reach: "server_reach varint_lib api [MyService, Service2] 0 ?srv" unfolding api_def by (rule main_reach)
  from server_call [OF conjunct1 [OF server_reach_inv [OF reach]], of varint_lib "received ?req"] obtain srv' where
    srv: "RpcMsgService_call varint_lib api (received ?req) ?srv = Inr (?res, srv')"
    using svc response_received [of varint_lib api MyService ?req] by (simp add: response_to_def del: response_received)
  have "client_entries alist_table (rc_client rc) (rm_id (received ?res)) = Some 0"
    using e by (simp add: response_to_def sent_sel)
  from alist.read_known [OF ci this] obtain s where
    s: "dispatcher_read alist_table (received ?res) (rc_client rc) = Inr s" "cl_calls s = cl_calls (rc_client rc)"
      "cl_result s 0 \<noteq> None" "cl_value s 0 = cl_result s 0" by auto
  let ?reach = "\<lambda>c. \<exists>rc. Q ch rc c \<and> rc_client rc = cn_client c"
  have "?reach c'" if "?reach c" "conn_step chain_lib varint_lib (generated_message_lib varint_lib) alist_table api c c'"
    "cl_calls (cn_client c') = cl_calls (cn_client c)" for c c'
  proof -
    from that(1) obtain rc where "Q ch rc c" by blast
    from after [OF this link_step.net [OF that(2,3)]] show ?thesis by (intro exI conjI) (assumption, simp)
  qed
  moreover have "?reach \<lparr>cn_client = rc_client rc, cn_up = lane_send (wire_bytes varint_lib [?req]) (lane_new []),
      cn_work = [], cn_server = ?srv, cn_done = [], cn_down = lane_new []\<rparr>"
    using q by (intro exI [of _ rc]) simp
  moreover have "cl_written (rc_client rc) = [?req]" by (rule w)
  ultimately obtain c where c: "?reach c" "link_ok chain_lib varint_lib c" "cn_client c = s"
    using call_steps [where reach = ?reach and api = api and req = ?req and res = ?res and s = "rc_client rc" and s' = s
      and srv = ?srv and srv' = srv'] fits first_frames [folded api_def] srv s(1,2) by blast
  obtain m where "cl_result s 0 = Some m" "cl_value s 0 = Some m" using s(3,4) by auto
  with c that show ?thesis by metis
qed

section \<open>Properties\<close>





end
