(* ===== verification/DispatcherThreads.thy ===== *)
theory DispatcherThreads
  imports ClientDispatcher
begin

text \<open>
  \<open>MultiplexClientDispatcher\<close> under threads (\<open>net/ServiceDispatcher/ClientDispatcher.h\<close>): callers run the
  call operator at the same time, the thread of the pipeline reads responses, and the timekeeper's
  thread runs the timers' callbacks. No lock is held, so each operation is cut where the others can
  see or change what it works on, and \<open>threads_step\<close> interleaves the parts. \<open>ClientDispatcher\<close> has the
  same operations each run to its end; its histories are some of the runs here (\<open>serial_threads\<close>).
\<close>

section \<open>The parts of the operations\<close>

text \<open>The call operator after its two first parts, \<open>call_begin\<close> and \<open>limit_reached\<close>: the insertion, the
  write, and the future with its timer. A future whose promise has a value already is done when it is
  made, and its timer never runs.\<close>

definition insert_promise ::
    "'u wire_lib \<Rightarrow> 'h table_lib \<Rightarrow> nat \<Rightarrow> ('h, 'u) client \<Rightarrow> bool \<times> ('h, 'u) client" where
  "insert_promise W T p s =
     (case tb_insert T (rm_id (cl_arg s p)) p (cd_requests (cl_disp s)) of
        (False, h) \<Rightarrow> (False, finish p (local_reply W INVALID_REQUEST (cl_arg s p)) s)
      | (True, h) \<Rightarrow> (True, s\<lparr>cl_disp := (cl_disp s)\<lparr>cd_requests := h\<rparr>\<rparr>))"

definition write_request :: "nat \<Rightarrow> ('h, 'u) client \<Rightarrow> client_fault + ('h, 'u) client" where
  "write_request p s = (case deref (cd_pipeline (cl_disp s)) of
      Inl f \<Rightarrow> Inl NoPipeline
    | Inr pl \<Rightarrow> Inr (s\<lparr>cl_written := cl_written s @ [cl_arg s p]\<rparr>))"

definition arm_timer :: "nat \<Rightarrow> ('h, 'u) client \<Rightarrow> ('h, 'u) client" where
  "arm_timer p s = (if cl_value s p = None then s\<lparr>cl_timer := (cl_timer s)(p \<mapsto> cd_timeout (cl_disp s))\<rparr>
     else s)"

text \<open>The timer's callback.\<close>

definition timeout_erase :: "'h table_lib \<Rightarrow> nat \<Rightarrow> ('h, 'u) client \<Rightarrow> ('h, 'u) client" where
  "timeout_erase T p s =
     s\<lparr>cl_disp := (cl_disp s)\<lparr>cd_requests := tb_erase T (rm_id (cl_arg s p)) (cd_requests (cl_disp s))\<rparr>\<rparr>"

definition timeout_reply :: "'u wire_lib \<Rightarrow> nat \<Rightarrow> ('h, 'u) client \<Rightarrow> ('h, 'u) client" where
  "timeout_reply W p s = finish p (local_reply W TIMEOUT (cl_arg s p)) s"

text \<open>Reading a response: the search, the erasure, and \<open>setValue\<close>. Once a timer has fired, the value of
  the promise no longer reaches the future.\<close>

definition read_find :: "'h table_lib \<Rightarrow> 'u RpcMessage \<Rightarrow> ('h, 'u) client \<Rightarrow> nat option" where
  "read_find T m s = tb_find T (rm_id m) (cd_requests (cl_disp s))"

definition read_erase :: "'h table_lib \<Rightarrow> 'u RpcMessage \<Rightarrow> ('h, 'u) client \<Rightarrow> ('h, 'u) client" where
  "read_erase T m s =
     s\<lparr>cl_disp := (cl_disp s)\<lparr>cd_requests := tb_erase T (rm_id m) (cd_requests (cl_disp s))\<rparr>\<rparr>"

definition read_complete ::
    "bool \<Rightarrow> nat \<Rightarrow> 'u RpcMessage \<Rightarrow> ('h, 'u) client \<Rightarrow> client_fault + ('h, 'u) client" where
  "read_complete fired p m s = (case setValue p m s of
      Inl f \<Rightarrow> Inl f
    | Inr s' \<Rightarrow> Inr (if fired then s'\<lparr>cl_result := cl_result s\<rparr> else s'))"

text \<open>One after the other, the parts are the operations.\<close>

lemma call_send_parts:
  assumes "cl_arg s p = arg" "cl_value s p = None"
  shows "call_send W T p arg s = (case insert_promise W T p s of
      (False, s) \<Rightarrow> Inr s
    | (True, s) \<Rightarrow> (case write_request p s of Inl f \<Rightarrow> Inl f | Inr s \<Rightarrow> Inr (arm_timer p s)))"
  using assms
  by (auto simp: call_send_def insert_promise_def write_request_def arm_timer_def Let_def
      split: prod.splits bool.splits sum.splits)

lemma dispatcher_timeout_parts: "dispatcher_timeout W T p s = timeout_reply W p (timeout_erase T p s)"
  by (simp add: dispatcher_timeout_def timeout_reply_def timeout_erase_def Let_def)

lemma dispatcher_read_parts: "dispatcher_read T m s = (case read_find T m s of
    None \<Rightarrow> Inr s | Some p \<Rightarrow> read_complete False p m (read_erase T m s))"
  by (simp add: dispatcher_read_def read_find_def read_erase_def read_complete_def split: option.splits sum.splits)

section \<open>Interleavings\<close>

text \<open>Where a caller is in the operator, what the timer of a call has done since it fired, and what the
  reading thread holds: the promise it found, the response, and whether it has erased the entry.\<close>

datatype caller = Begun | Admitted | Inserted | Written

datatype timer = Fired | Erased

datatype reading = Found | Removed

record ('h, 'u) threads =
  th_client :: "('h, 'u) client"
  th_call :: "nat \<Rightarrow> caller option"
  th_timer :: "nat \<Rightarrow> timer option"
  th_reader :: "(nat \<times> 'u RpcMessage \<times> reading) option"

definition idle :: "('h, 'u) client \<Rightarrow> ('h, 'u) threads" where
  "idle c = \<lparr>th_client = c, th_call = (\<lambda>_. None), th_timer = (\<lambda>_. None), th_reader = None\<rparr>"

definition callers :: "('h, 'u) threads \<Rightarrow> nat set" where
  "callers s = {p. th_call s p \<noteq> None}"

text \<open>At most \<open>N\<close> threads are in the call operator at a time, and one thread reads. The erasure by
  iterator may find that the entry is no longer the one it was got for; it then erases what is there
  under the key, or nothing (\<open>erase_gone\<close>). A timer that fires has decided the future.\<close>

inductive threads_step ::
  "'u wire_lib \<Rightarrow> 'h table_lib \<Rightarrow> nat \<Rightarrow> ('h, 'u) threads \<Rightarrow> ('h, 'u) threads \<Rightarrow> bool" for W T N where
  connected: "threads_step W T N s (s\<lparr>th_client := setPipeline pl (th_client s)\<rparr>)"
| eof: "dispatcher_readEOF (th_client s) = Inr c \<Longrightarrow> threads_step W T N s (s\<lparr>th_client := c\<rparr>)"
| begin_call: "\<lbrakk>card (callers s) < N; call_begin arg (th_client s) = (p, c)\<rbrakk> \<Longrightarrow>
    threads_step W T N s (s\<lparr>th_client := c, th_call := (th_call s)(p \<mapsto> Begun)\<rparr>)"
| refuse: "\<lbrakk>th_call s p = Some Begun; limit_reached T (th_client s)\<rbrakk> \<Longrightarrow>
    threads_step W T N s (s\<lparr>th_client :=
      finish p (local_reply W PENDDING_LIMIT (cl_arg (th_client s) p)) (th_client s),
      th_call := (th_call s)(p := None)\<rparr>)"
| admit: "\<lbrakk>th_call s p = Some Begun; \<not> limit_reached T (th_client s)\<rbrakk> \<Longrightarrow>
    threads_step W T N s (s\<lparr>th_call := (th_call s)(p \<mapsto> Admitted)\<rparr>)"
| insert: "\<lbrakk>th_call s p = Some Admitted; insert_promise W T p (th_client s) = (ok, c)\<rbrakk> \<Longrightarrow>
    threads_step W T N s (s\<lparr>th_client := c,
      th_call := (th_call s)(p := if ok then Some Inserted else None)\<rparr>)"
| send: "\<lbrakk>th_call s p = Some Inserted; write_request p (th_client s) = Inr c\<rbrakk> \<Longrightarrow>
    threads_step W T N s (s\<lparr>th_client := c, th_call := (th_call s)(p \<mapsto> Written)\<rparr>)"
| arm: "th_call s p = Some Written \<Longrightarrow>
    threads_step W T N s (s\<lparr>th_client := arm_timer p (th_client s), th_call := (th_call s)(p := None)\<rparr>)"
| find: "\<lbrakk>th_reader s = None; read_find T m (th_client s) = Some p\<rbrakk> \<Longrightarrow>
    threads_step W T N s (s\<lparr>th_reader := Some (p, m, Found)\<rparr>)"
| erase: "th_reader s = Some (p, m, Found) \<Longrightarrow>
    threads_step W T N s (s\<lparr>th_client := read_erase T m (th_client s), th_reader := Some (p, m, Removed)\<rparr>)"
| erase_gone: "\<lbrakk>th_reader s = Some (p, m, Found); read_find T m (th_client s) \<noteq> Some p\<rbrakk> \<Longrightarrow>
    threads_step W T N s (s\<lparr>th_reader := Some (p, m, Removed)\<rparr>)"
| complete: "\<lbrakk>th_reader s = Some (p, m, Removed);
    read_complete (th_timer s p \<noteq> None) p m (th_client s) = Inr c\<rbrakk> \<Longrightarrow>
    threads_step W T N s (s\<lparr>th_client := c, th_reader := None\<rparr>)"
| fire: "\<lbrakk>cl_timer (th_client s) p \<noteq> None; cl_result (th_client s) p = None; th_timer s p = None\<rbrakk> \<Longrightarrow>
    threads_step W T N s (s\<lparr>th_timer := (th_timer s)(p \<mapsto> Fired)\<rparr>)"
| timer_erase: "th_timer s p = Some Fired \<Longrightarrow>
    threads_step W T N s (s\<lparr>th_client := timeout_erase T p (th_client s),
      th_timer := (th_timer s)(p \<mapsto> Erased)\<rparr>)"
| timer_reply: "th_timer s p = Some Erased \<Longrightarrow>
    threads_step W T N s (s\<lparr>th_client := timeout_reply W p (th_client s),
      th_timer := (th_timer s)(p := None)\<rparr>)"

inductive threads_reach ::
  "'u wire_lib \<Rightarrow> 'h table_lib \<Rightarrow> u64 \<Rightarrow> u32 \<Rightarrow> nat \<Rightarrow> ('h, 'u) threads \<Rightarrow> bool" for W T lim t N where
  start: "threads_reach W T lim t N (idle (client_new W (MultiplexClientDispatcher_new T lim t pl)))"
| step: "\<lbrakk>threads_reach W T lim t N s; threads_step W T N s s'\<rbrakk> \<Longrightarrow> threads_reach W T lim t N s'"

section \<open>What holds in every interleaving\<close>

text \<open>A call is in the operator, or its timer has fired, or it has a result or a timer (\<open>phase_ok\<close>). An
  entry of the table is a call under its id that has neither value nor result, and the reader holds
  a promise without a value (\<open>entry_ok\<close>).\<close>

definition phase_ok :: "u32 \<Rightarrow> ('h, 'u) threads \<Rightarrow> nat \<Rightarrow> bool" where
  "phase_ok t s p \<longleftrightarrow> (let c = th_client s in case th_call s p of
       Some ph \<Rightarrow> p < cl_calls c \<and> cl_timer c p = None \<and> th_timer s p = None
         \<and> (cl_result c p = None \<longrightarrow> cl_value c p = None)
         \<and> (ph = Begun \<or> ph = Admitted \<longrightarrow> cl_result c p = None \<and> (\<forall>m b. th_reader s \<noteq> Some (p, m, b)))
     | None \<Rightarrow> (case th_timer s p of
         Some ti \<Rightarrow> p < cl_calls c \<and> cl_timer c p = Some t \<and> cl_result c p = None
       | None \<Rightarrow> (cl_result c p = None \<longrightarrow> cl_value c p = None)
           \<and> (if p < cl_calls c then cl_result c p = None \<longrightarrow> cl_timer c p = Some t
              else cl_result c p = None \<and> cl_timer c p = None)))"

definition entry_ok :: "'u wire_lib \<Rightarrow> 'h table_lib \<Rightarrow> ('h, 'u) threads \<Rightarrow> nat \<Rightarrow> bool" where
  "entry_ok W T s p \<longleftrightarrow> (let c = th_client s in
     (\<forall>i. client_entries T c i = Some p \<longrightarrow> rm_id (cl_arg c p) = i \<and> p < cl_calls c
        \<and> cl_value c p = None \<and> cl_result c p = None \<and> th_timer s p \<noteq> Some Erased
        \<and> th_call s p \<noteq> Some Begun \<and> th_call s p \<noteq> Some Admitted)
     \<and> (\<forall>m i. th_reader s = Some (p, m, Removed) \<longrightarrow> client_entries T c i \<noteq> Some p)
     \<and> (\<forall>m b. th_reader s = Some (p, m, b) \<longrightarrow>
          p < cl_calls c \<and> cl_value c p = None \<and> rm_id (cl_arg c p) = rm_id m)
     \<and> (\<forall>r. cl_result c p = Some r \<longrightarrow> answered_right W c p r))"

definition threads_inv :: "'u wire_lib \<Rightarrow> 'h table_lib \<Rightarrow> u64 \<Rightarrow> u32 \<Rightarrow> ('h, 'u) threads \<Rightarrow> bool" where
  "threads_inv W T lim t s \<longleftrightarrow> (\<forall>p. phase_ok t s p \<and> entry_ok W T s p)
     \<and> cd_reqlimit (cl_disp (th_client s)) = lim \<and> cd_timeout (cl_disp (th_client s)) = t"

lemma threads_invD:
  assumes "threads_inv W T lim t s"
  shows "phase_ok t s p" "entry_ok W T s p"
    "cd_reqlimit (cl_disp (th_client s)) = lim" "cd_timeout (cl_disp (th_client s)) = t"
  using assms by (simp_all add: threads_inv_def)

text \<open>A step keeps the invariant if it leaves all but one call alone and keeps it for this one.\<close>

definition same_call :: "'h table_lib \<Rightarrow> ('h, 'u) threads \<Rightarrow> ('h, 'u) threads \<Rightarrow> nat \<Rightarrow> bool" where
  "same_call T s s' q \<longleftrightarrow> (let c = th_client s; c' = th_client s' in
     (q < cl_calls c' \<longleftrightarrow> q < cl_calls c) \<and> cl_arg c' q = cl_arg c q \<and> cl_result c' q = cl_result c q
     \<and> cl_value c' q = cl_value c q \<and> cl_timer c' q = cl_timer c q
     \<and> th_call s' q = th_call s q \<and> th_timer s' q = th_timer s q
     \<and> (\<forall>m b. th_reader s' = Some (q, m, b) \<longrightarrow> th_reader s = Some (q, m, b))
     \<and> (\<forall>i. client_entries T c' i = Some q \<longrightarrow> client_entries T c i = Some q))"

text \<open>How full the table can get (\<open>capacity\<close>): a caller that has passed the limit test holds a place.\<close>

definition admitted :: "('h, 'u) threads \<Rightarrow> nat set" where
  "admitted s = {p. th_call s p = Some Admitted}"

definition capacity :: "'h table_lib \<Rightarrow> u64 \<Rightarrow> nat \<Rightarrow> ('h, 'u) threads \<Rightarrow> bool" where
  "capacity T lim N s \<longleftrightarrow> finite (callers s) \<and> card (callers s) \<le> N
     \<and> card (dom (client_entries T (th_client s))) + card (admitted s) \<le> unat lim + N - 1"

text \<open>A call whose entry nobody has taken out yet, and when the table has all of these (\<open>tabled\<close>): ids can
  be used again, and a reader or a timer then takes out the entry of a newer call with the same id.\<close>

definition waiting :: "('h, 'u) threads \<Rightarrow> nat \<Rightarrow> bool" where
  "waiting s p \<longleftrightarrow> pending (th_client s) p \<and> cl_value (th_client s) p = None
     \<and> th_call s p \<noteq> Some Begun \<and> th_call s p \<noteq> Some Admitted \<and> th_timer s p \<noteq> Some Erased
     \<and> (\<forall>m. th_reader s \<noteq> Some (p, m, Removed))"

definition ids_differ :: "('h, 'u) client \<Rightarrow> bool" where
  "ids_differ c \<longleftrightarrow> inj_on (\<lambda>p. rm_id (cl_arg c p)) {..<cl_calls c}"

definition tabled :: "'h table_lib \<Rightarrow> ('h, 'u) threads \<Rightarrow> bool" where
  "tabled T s \<longleftrightarrow> (ids_differ (th_client s) \<longrightarrow>
     (\<forall>p. waiting s p \<longrightarrow> client_entries T (th_client s) (rm_id (cl_arg (th_client s) p)) = Some p))"

text \<open>What a call has left until its result, if nobody answers.\<close>

definition parts_left :: "('h, 'u) threads \<Rightarrow> nat \<Rightarrow> nat" where
  "parts_left s p = (case th_call s p of
      Some Begun \<Rightarrow> 7 | Some Admitted \<Rightarrow> 6 | Some Inserted \<Rightarrow> 5 | Some Written \<Rightarrow> 4
    | None \<Rightarrow> (case th_timer s p of None \<Rightarrow> 3 | Some Fired \<Rightarrow> 2 | Some Erased \<Rightarrow> 1))"

named_theorems part_defs \<open>the parts of the operations, unfolded\<close>

lemmas [part_defs] = call_begin_def setPipeline_def finish_def arm_timer_def timeout_reply_def

lemma readEOF_closed:
  assumes "dispatcher_readEOF s = Inr c"
  obtains x where "c = s\<lparr>cl_closed := x\<rparr>"
  using assms by (auto simp: dispatcher_readEOF_def split: sum.splits)

lemma write_request_written:
  assumes "write_request p s = Inr c"
  obtains x where "c = s\<lparr>cl_written := x\<rparr>"
  using assms by (auto simp: write_request_def split: sum.splits)

context promise_map
begin

lemma entries_parts:
  "client_entries T (c\<lparr>cl_disp := (cl_disp c)\<lparr>cd_pipeline := pi\<rparr>\<rparr>) = client_entries T c"
  "client_entries T (finish p m c) = client_entries T c"
  "client_entries T (c\<lparr>cl_disp := (cl_disp c)\<lparr>cd_requests := tb_erase T k (cd_requests (cl_disp c))\<rparr>\<rparr>)
    = (client_entries T c)(k := None)"
  "client_entries T (c\<lparr>cl_timer := ti\<rparr>) = client_entries T c"
  "client_entries T (c\<lparr>cl_closed := x\<rparr>) = client_entries T c"
  "client_entries T (c\<lparr>cl_calls := n, cl_arg := a\<rparr>) = client_entries T c"
  "client_entries T (c\<lparr>cl_written := w\<rparr>) = client_entries T c"
  "client_entries T (c\<lparr>cl_result := r\<rparr>) = client_entries T c"
  "client_entries T (c\<lparr>cl_value := v\<rparr>) = client_entries T c"
  "client_entries T (c\<lparr>cl_value := v, cl_result := r\<rparr>) = client_entries T c"
  "client_entries T (arm_timer p c) = client_entries T c"
  "client_entries T (timeout_reply W p c) = client_entries T c"
  "client_entries T (timeout_erase T p c) = (client_entries T c)(rm_id (cl_arg c p) := None)"
  "client_entries T (read_erase T m c) = (client_entries T c)(rm_id m := None)"
  "read_find T m c = client_entries T c (rm_id m)"
  by (simp_all add: client_entries_def part_defs timeout_erase_def read_erase_def read_find_def erase find)

lemma insert_promise_cases:
  assumes "insert_promise W T p c = (ok, c')"
  obtains (new) h where "ok" "client_entries T c (rm_id (cl_arg c p)) = None"
      "c' = c\<lparr>cl_disp := (cl_disp c)\<lparr>cd_requests := h\<rparr>\<rparr>"
      "client_entries T c' = (client_entries T c)(rm_id (cl_arg c p) \<mapsto> p)"
  | (old) "\<not> ok" "client_entries T c (rm_id (cl_arg c p)) \<noteq> None"
      "c' = finish p (local_reply W INVALID_REQUEST (cl_arg c p)) c"
proof (cases "client_entries T c (rm_id (cl_arg c p))")
  case None
  with insert_new [of "cd_requests (cl_disp c)" "rm_id (cl_arg c p)" p] assms new show ?thesis
    by (auto simp: insert_promise_def client_entries_def)
next
  case Some
  with insert_old [of "cd_requests (cl_disp c)" "rm_id (cl_arg c p)" p] assms old show ?thesis
    by (auto simp: insert_promise_def client_entries_def)
qed

lemma entries_results:
  "dispatcher_readEOF c = Inr c' \<Longrightarrow> client_entries T c' = client_entries T c"
  "write_request p c = Inr c' \<Longrightarrow> client_entries T c' = client_entries T c"
  "read_complete b p m c = Inr c' \<Longrightarrow> client_entries T c' = client_entries T c"
  by (auto simp: dispatcher_readEOF_def write_request_def read_complete_def setValue_def finish_def
      client_entries_def Let_def split: sum.splits if_splits)

lemma threads_start: "threads_inv W T lim t (idle (client_new W (MultiplexClientDispatcher_new T lim t pl)))"
  by (simp add: threads_inv_def phase_ok_def entry_ok_def idle_def client_new_def MultiplexClientDispatcher_new_def
      Let_def client_entries_def entries_empty)

lemma same_call_ok:
  assumes "same_call T s s' q" "phase_ok t s q" "entry_ok W T s q"
  shows "phase_ok t s' q \<and> entry_ok W T s' q"
proof -
  note same = assms(1) [unfolded same_call_def Let_def]
  have eqs: "(q < cl_calls (th_client s')) = (q < cl_calls (th_client s))"
    "cl_arg (th_client s') q = cl_arg (th_client s) q" "cl_result (th_client s') q = cl_result (th_client s) q"
    "cl_value (th_client s') q = cl_value (th_client s) q" "cl_timer (th_client s') q = cl_timer (th_client s) q"
    "th_call s' q = th_call s q" "th_timer s' q = th_timer s q"
    using same by blast+
  have r: "th_reader s' = Some (q, m, b) \<Longrightarrow> th_reader s = Some (q, m, b)" for m b using same by blast
  have e: "client_entries T (th_client s') i = Some q \<Longrightarrow> client_entries T (th_client s) i = Some q" for i
    using same by blast
  have "phase_ok t s' q"
    using r assms(2) unfolding phase_ok_def Let_def eqs by (auto split: option.splits)
  moreover have "entry_ok W T s' q"
    using r e assms(3) unfolding entry_ok_def Let_def answered_right_def eqs by blast
  ultimately show ?thesis ..
qed

lemma entry_okD:
  assumes "entry_ok W T s p"
  shows "client_entries T (th_client s) i = Some p \<Longrightarrow> rm_id (cl_arg (th_client s) p) = i \<and> p < cl_calls (th_client s)
      \<and> cl_value (th_client s) p = None \<and> cl_result (th_client s) p = None \<and> th_timer s p \<noteq> Some Erased
      \<and> th_call s p \<noteq> Some Begun \<and> th_call s p \<noteq> Some Admitted"
    "th_reader s = Some (p, m, b) \<Longrightarrow> p < cl_calls (th_client s) \<and> cl_value (th_client s) p = None
      \<and> rm_id (cl_arg (th_client s) p) = rm_id m"
    "cl_result (th_client s) p = Some r \<Longrightarrow> answered_right W (th_client s) p r"
    "th_reader s = Some (p, m, Removed) \<Longrightarrow> client_entries T (th_client s) i \<noteq> Some p"
  using assms unfolding entry_ok_def Let_def by blast+

lemma threads_invI:
  assumes inv: "threads_inv W T lim t s"
    and q: "\<And>q. q \<noteq> p \<Longrightarrow> same_call T s s' q"
    and p: "phase_ok t s p \<Longrightarrow> phase_ok t s' p"
    and e: "\<And>i. client_entries T (th_client s') i = Some p \<Longrightarrow> rm_id (cl_arg (th_client s') p) = i
        \<and> p < cl_calls (th_client s') \<and> cl_value (th_client s') p = None \<and> cl_result (th_client s') p = None
        \<and> th_timer s' p \<noteq> Some Erased \<and> th_call s' p \<noteq> Some Begun \<and> th_call s' p \<noteq> Some Admitted"
      "\<And>m b. th_reader s' = Some (p, m, b) \<Longrightarrow> p < cl_calls (th_client s') \<and> cl_value (th_client s') p = None
        \<and> rm_id (cl_arg (th_client s') p) = rm_id m"
      "\<And>r. cl_result (th_client s') p = Some r \<Longrightarrow> answered_right W (th_client s') p r"
      "\<And>m i. th_reader s' = Some (p, m, Removed) \<Longrightarrow> client_entries T (th_client s') i \<noteq> Some p"
    and d: "cd_reqlimit (cl_disp (th_client s')) = cd_reqlimit (cl_disp (th_client s))"
      "cd_timeout (cl_disp (th_client s')) = cd_timeout (cl_disp (th_client s))"
  shows "threads_inv W T lim t s'"
proof -
  have "entry_ok W T s' p" using e unfolding entry_ok_def Let_def by blast
  then have "phase_ok t s' q \<and> entry_ok W T s' q" for q
    using same_call_ok [OF q threads_invD(1,2) [OF inv]] p [OF threads_invD(1) [OF inv]]
    by (cases "q = p") simp_all
  then show ?thesis using inv d by (simp add: threads_inv_def)
qed

lemma threads_inv_same:
  assumes "threads_inv W T lim t s" "\<And>q. same_call T s s' q"
    "cd_reqlimit (cl_disp (th_client s')) = cd_reqlimit (cl_disp (th_client s))"
    "cd_timeout (cl_disp (th_client s')) = cd_timeout (cl_disp (th_client s))"
  shows "threads_inv W T lim t s'"
  using assms same_call_ok [OF assms(2) threads_invD(1,2) [OF assms(1)]] by (simp add: threads_inv_def)

lemmas own = entry_okD [OF threads_invD(2)]

lemmas step_defs = same_call_def phase_ok_def Let_def entries_parts

lemma threads_step_inv:
  assumes "threads_step W T N s s'" "threads_inv W T lim t s"
  shows "threads_inv W T lim t s'"
  using assms
proof (induction rule: threads_step.induct)
  case (connected s pl)
  show ?case
    by (rule threads_inv_same [OF connected.prems])
      (simp_all add: setPipeline_def same_call_def entries_parts)
next
  case (eof s c)
  from eof.hyps obtain x where c: "c = (th_client s)\<lparr>cl_closed := x\<rparr>" by (rule readEOF_closed)
  show ?case
    by (rule threads_inv_same [OF eof.prems]) (simp_all add: c same_call_def entries_parts)
next
  case (begin_call s arg p c)
  have p: "cl_calls (th_client s) = p"
    and c: "c = (th_client s)\<lparr>cl_calls := Suc p, cl_arg := (cl_arg (th_client s))(p := arg)\<rparr>"
    using begin_call.hyps(2) by (auto simp: call_begin_def)
  have lt: "q < Suc p \<longleftrightarrow> q < p" if "q \<noteq> p" for q using that by auto
  have "cl_result (th_client s) p = None" "cl_timer (th_client s) p = None" "th_timer s p = None"
      "cl_value (th_client s) p = None"
    using threads_invD(1) [OF begin_call.prems, of p] by (auto simp: phase_ok_def Let_def p split: option.splits)
  moreover have "client_entries T (th_client s) i \<noteq> Some p" "th_reader s \<noteq> Some (p, m, b)" for i m b
    using own(1,2) [OF begin_call.prems, where p = p] by (auto simp: p)
  ultimately show ?case
    by (intro threads_invI [OF begin_call.prems, where p = p]) (auto simp: step_defs c p lt)
next
  case (refuse s p)
  note own = own [OF refuse.prems, where p = p]
  show ?case
    by (rule threads_invI [OF refuse.prems, where p = p])
      (use refuse.hyps in \<open>auto simp: part_defs step_defs answered_right_def dest: own\<close>)
next
  case (admit s p)
  note own = own [OF admit.prems, where p = p]
  show ?case
    by (rule threads_invI [OF admit.prems, where p = p])
      (use admit.hyps in \<open>auto simp: step_defs dest: own\<close>)
next
  case (insert s p ok c)
  note own = own [OF insert.prems, where p = p]
  from insert.hyps(2) show ?case
  proof (cases rule: insert_promise_cases)
    case (new h)
    have "cl_value (th_client s) p = None \<and> cl_result (th_client s) p = None \<and> p < cl_calls (th_client s)
        \<and> th_timer s p = None \<and> (\<forall>m b. th_reader s \<noteq> Some (p, m, b))"
      using insert.hyps(1) threads_invD(1) [OF insert.prems, of p] by (auto simp: phase_ok_def Let_def)
    then show ?thesis
      by (intro threads_invI [OF insert.prems, where p = p])
        (use insert.hyps(1) new(1,4) in \<open>auto simp: step_defs answered_right_def new(3) dest: own split: if_splits\<close>)
  next
    case old
    show ?thesis
      by (rule threads_invI [OF insert.prems, where p = p])
        (use insert.hyps(1) old in \<open>auto simp: step_defs part_defs answered_right_def dest: own\<close>)
  qed
next
  case (send s p c)
  note own = own [OF send.prems, where p = p]
  from send.hyps(2) obtain x where c: "c = (th_client s)\<lparr>cl_written := x\<rparr>" by (rule write_request_written)
  show ?case
    by (rule threads_invI [OF send.prems, where p = p])
      (use send.hyps(1) in \<open>auto simp: c step_defs answered_right_def dest: own\<close>)
next
  case (arm s p)
  note own = own [OF arm.prems, where p = p]
  show ?case
    by (rule threads_invI [OF arm.prems, where p = p])
      (use arm.hyps threads_invD(4) [OF arm.prems] in
        \<open>auto simp: arm_timer_def step_defs answered_right_def dest: own split: if_splits\<close>)
next
  case (find s m p)
  note own = own [OF find.prems, where p = p]
  have "client_entries T (th_client s) (rm_id m) = Some p" using find.hyps(2) by (simp add: entries_parts)
  from own(1) [OF this] show ?case
    by (intro threads_invI [OF find.prems, where p = p])
      (use find.hyps(1) in \<open>auto simp: step_defs answered_right_def dest: own split: option.splits\<close>)
next
  case (erase s p m)
  note own = own [OF erase.prems, where p = p]
  from own(2) [OF erase.hyps] show ?case
    by (intro threads_invI [OF erase.prems, where p = p])
      (use erase.hyps in \<open>auto simp: step_defs read_erase_def answered_right_def dest: own split: option.splits if_splits\<close>)
next
  case (erase_gone s p m)
  note own = own [OF erase_gone.prems, where p = p]
  note held = own(2) [OF erase_gone.hyps(1)]
  have "client_entries T (th_client s) i \<noteq> Some p" for i
    using own(1) [of i] held erase_gone.hyps(2) by (auto simp: entries_parts)
  with held show ?case
    by (intro threads_invI [OF erase_gone.prems, where p = p])
      (use erase_gone.hyps in \<open>auto simp: step_defs dest: own split: option.splits\<close>)
next
  case (complete s p m c)
  note own = own [OF complete.prems, where p = p]
  note held = own(2,4) [OF complete.hyps(1)]
  with complete.hyps(2) obtain r where
    c: "c = (th_client s)\<lparr>cl_value := (cl_value (th_client s))(p \<mapsto> m), cl_result := r\<rparr>"
    and r: "r = (if th_timer s p = None \<and> cl_result (th_client s) p = None
      then (cl_result (th_client s))(p \<mapsto> m) else cl_result (th_client s))"
    by (auto simp: read_complete_def setValue_def finish_def Let_def split: if_splits)
  from held show ?case
    by (intro threads_invI [OF complete.prems, where p = p])
      (use complete.hyps(1) in \<open>auto simp: c r step_defs answered_right_def dest: own split: option.splits if_splits\<close>)
next
  case (fire s p)
  note own = own [OF fire.prems, where p = p]
  show ?case
    by (rule threads_invI [OF fire.prems, where p = p])
      (use fire.hyps in \<open>auto simp: step_defs dest: own split: option.splits if_splits\<close>)
next
  case (timer_erase s p)
  note own = own [OF timer_erase.prems, where p = p]
  show ?case
    by (rule threads_invI [OF timer_erase.prems, where p = p])
      (use timer_erase.hyps in \<open>auto simp: step_defs timeout_erase_def answered_right_def dest: own split: option.splits if_splits\<close>)
next
  case (timer_reply s p)
  note own = own [OF timer_reply.prems, where p = p]
  show ?case
    by (rule threads_invI [OF timer_reply.prems, where p = p])
      (use timer_reply.hyps in \<open>auto simp: step_defs part_defs answered_right_def dest: own split: option.splits if_splits\<close>)
qed

text \<open>Steps that take places of callers and entries only.\<close>

lemma capacity_shrink:
  assumes "capacity T lim N s" "dom (client_entries T (th_client s')) \<subseteq> dom (client_entries T (th_client s))"
    "callers s' \<subseteq> callers s" "admitted s' \<subseteq> admitted s"
  shows "capacity T lim N s'"
proof -
  have fin: "finite (callers s)" "finite (dom (client_entries T (th_client s)))"
    using assms(1) finite_entries by (simp_all add: capacity_def client_entries_def)
  have "finite (admitted s)" by (rule finite_subset [OF _ fin(1)]) (auto simp: admitted_def callers_def)
  then have "card (admitted s') \<le> card (admitted s)" using assms(4) by (rule card_mono)
  moreover have "card (dom (client_entries T (th_client s'))) \<le> card (dom (client_entries T (th_client s)))"
    using fin(2) assms(2) by (rule card_mono)
  moreover have "finite (callers s')" "card (callers s') \<le> card (callers s)"
    using fin(1) assms(3) by (auto intro: card_mono finite_subset)
  ultimately show ?thesis using assms(1) unfolding capacity_def by (elim conjE) (intro conjI; linarith)
qed

lemma capacity_admit:
  assumes cap: "capacity T lim N s" and inv: "threads_inv W T lim t s" and N: "unat lim + N \<le> 2 ^ 64"
    and p: "th_call s p = Some Begun" and l: "\<not> limit_reached T (th_client s)"
  shows "capacity T lim N (s\<lparr>th_call := (th_call s)(p \<mapsto> Admitted)\<rparr>)"
proof -
  let ?n = "card (dom (client_entries T (th_client s)))"
  have fin: "finite (callers s)" and le: "card (callers s) \<le> N" "?n + card (admitted s) \<le> unat lim + N - 1"
    using cap by (simp_all add: capacity_def)
  have p': "p \<in> callers s" "p \<notin> admitted s" "admitted s \<subseteq> callers s - {p}"
    using p by (auto simp: callers_def admitted_def)
  have "card (callers s) > 0" using fin p'(1) by (auto simp: card_gt_0_iff)
  then have N0: "0 < N" using le(1) by simp
  have adm: "finite (admitted s)" "card (admitted s) \<le> N - 1"
    using fin p' card_mono [OF _ p'(3)] le(1) by (auto intro: finite_subset)
  have "tb_size T (cd_requests (cl_disp (th_client s))) < lim"
    using l threads_invD(3) [OF inv] by (simp add: limit_reached_def not_le)
  moreover have "unat (of_nat ?n :: u64) = ?n"
  proof (rule unat_of_nat_u64)
    show "?n < 2 ^ 64" using le(2) N N0 by linarith
  qed
  ultimately have "?n < unat lim" by (simp add: size client_entries_def word_less_nat_alt)
  moreover have "admitted (s\<lparr>th_call := (th_call s)(p \<mapsto> Admitted)\<rparr>) = insert p (admitted s)"
    "callers (s\<lparr>th_call := (th_call s)(p \<mapsto> Admitted)\<rparr>) = callers s"
    using p'(1) by (auto simp: admitted_def callers_def)
  ultimately show ?thesis using adm fin le(1) p'(2) N0 by (simp add: capacity_def)
qed

lemma capacity_insert:
  assumes cap: "capacity T lim N s" and p: "th_call s p = Some Admitted"
    and c: "client_entries T c = (client_entries T (th_client s))(i \<mapsto> p)"
  shows "capacity T lim N (s\<lparr>th_client := c, th_call := (th_call s)(p \<mapsto> Inserted)\<rparr>)"
proof -
  let ?s = "s\<lparr>th_client := c, th_call := (th_call s)(p \<mapsto> Inserted)\<rparr>"
  have sets: "admitted ?s = admitted s - {p}" "callers ?s = callers s" "p \<in> admitted s" "admitted s \<subseteq> callers s"
    using p by (auto simp: admitted_def callers_def)
  have fin: "finite (callers s)" "finite (dom (client_entries T (th_client s)))"
    using cap finite_entries by (simp_all add: capacity_def client_entries_def)
  have "finite (admitted s)" using sets(4) fin(1) by (rule finite_subset)
  then have "card (admitted s) = Suc (card (admitted ?s))"
    unfolding sets(1) using sets(3) by (rule card.remove)
  moreover have "card (dom (client_entries T c)) \<le> Suc (card (dom (client_entries T (th_client s))))"
    using fin(2) by (simp add: c card_insert_if)
  ultimately show ?thesis using cap by (simp add: capacity_def sets(2))
qed

lemma capacity_step:
  assumes "threads_step W T N s s'" "threads_inv W T lim t s" "capacity T lim N s" "unat lim + N \<le> 2 ^ 64"
  shows "capacity T lim N s'"
  using assms
proof (induction rule: threads_step.induct)
  case (begin_call s arg p c)
  have c: "client_entries T c = client_entries T (th_client s)"
    using begin_call.hyps(2) by (auto simp: call_begin_def client_entries_def)
  let ?s = "s\<lparr>th_client := c, th_call := (th_call s)(p \<mapsto> Begun)\<rparr>"
  have "callers ?s = insert p (callers s)" and adm: "admitted ?s \<subseteq> admitted s"
    by (auto simp: callers_def admitted_def split: if_splits)
  then have "finite (callers ?s)" "card (callers ?s) \<le> N"
    using begin_call.hyps(1) begin_call.prems(2) by (simp_all add: capacity_def card_insert_if)
  moreover have "card (admitted ?s) \<le> card (admitted s)"
  proof (rule card_mono [OF _ adm])
    show "finite (admitted s)"
      by (rule finite_subset [of _ "callers s"])
        (use begin_call.prems(2) in \<open>auto simp: callers_def admitted_def capacity_def\<close>)
  qed
  ultimately show ?case using begin_call.prems(2) by (simp add: capacity_def c)
next
  case (admit s p)
  from capacity_admit [OF admit.prems(2,1,3) admit.hyps] show ?case .
next
  case (insert s p ok c)
  from insert.hyps(2) show ?case
  proof (cases rule: insert_promise_cases)
    case (new h)
    with capacity_insert [OF insert.prems(2) insert.hyps(1) new(4)] show ?thesis by simp
  next
    case old
    show ?thesis
      by (rule capacity_shrink [OF insert.prems(2)]) (use old in \<open>auto simp: entries_parts callers_def admitted_def\<close>)
  qed
qed (erule capacity_shrink; auto simp: entries_parts setPipeline_def entries_results callers_def admitted_def)+

lemma tabledI:
  assumes "tabled T s" "ids_differ (th_client s') \<Longrightarrow> ids_differ (th_client s)"
    and "\<And>q. \<lbrakk>ids_differ (th_client s'); waiting s' q\<rbrakk> \<Longrightarrow>
      client_entries T (th_client s') (rm_id (cl_arg (th_client s') q)) = Some q
      \<or> waiting s q \<and> client_entries T (th_client s') (rm_id (cl_arg (th_client s') q))
          = client_entries T (th_client s) (rm_id (cl_arg (th_client s) q))"
  shows "tabled T s'"
  using assms unfolding tabled_def by metis

lemmas tabled_defs = waiting_def pending_def entries_parts ids_differ_def

lemma tabled_step:
  assumes "threads_step W T N s s'" "threads_inv W T lim t s" "tabled T s"
  shows "tabled T s'"
  using assms
proof (induction rule: threads_step.induct)
  case (connected s pl)
  show ?case by (rule tabledI [OF connected.prems(2)]) (simp_all add: tabled_defs setPipeline_def)
next
  case (eof s c)
  from eof.hyps obtain x where c: "c = (th_client s)\<lparr>cl_closed := x\<rparr>" by (rule readEOF_closed)
  show ?case by (rule tabledI [OF eof.prems(2)]) (simp_all add: tabled_defs c)
next
  case (begin_call s arg p c)
  have c: "c = (th_client s)\<lparr>cl_calls := Suc p, cl_arg := (cl_arg (th_client s))(p := arg)\<rparr>"
    and p: "cl_calls (th_client s) = p"
    using begin_call.hyps(2) by (auto simp: call_begin_def)
  show ?case
  proof (rule tabledI [OF begin_call.prems(2)])
    assume d: "ids_differ (th_client (s\<lparr>th_client := c, th_call := (th_call s)(p \<mapsto> Begun)\<rparr>))"
    have "inj_on (\<lambda>q. rm_id (cl_arg c q)) {..<p}"
      by (rule inj_on_subset [OF d [unfolded ids_differ_def, simplified]]) (auto simp: c lessThan_Suc)
    then show "ids_differ (th_client s)" by (simp add: ids_differ_def p c inj_on_def)
  next
    fix q
    assume "waiting (s\<lparr>th_client := c, th_call := (th_call s)(p \<mapsto> Begun)\<rparr>) q"
    moreover from this have "q \<noteq> p" by (auto simp: waiting_def)
    moreover from this have "q < Suc p \<longleftrightarrow> q < p" by auto
    ultimately show "client_entries T (th_client (s\<lparr>th_client := c, th_call := (th_call s)(p \<mapsto> Begun)\<rparr>))
          (rm_id (cl_arg (th_client (s\<lparr>th_client := c, th_call := (th_call s)(p \<mapsto> Begun)\<rparr>)) q)) = Some q
        \<or> waiting s q \<and> client_entries T (th_client (s\<lparr>th_client := c, th_call := (th_call s)(p \<mapsto> Begun)\<rparr>))
            (rm_id (cl_arg (th_client (s\<lparr>th_client := c, th_call := (th_call s)(p \<mapsto> Begun)\<rparr>)) q))
          = client_entries T (th_client s) (rm_id (cl_arg (th_client s) q))"
      by (simp add: waiting_def pending_def entries_parts c p)
  qed
next
  case (refuse s p)
  show ?case
    by (rule tabledI [OF refuse.prems(2)]) (auto simp: tabled_defs finish_def split: if_splits)
next
  case (admit s p)
  show ?case by (rule tabledI [OF admit.prems(2)]) (auto simp: tabled_defs split: if_splits)
next
  case (insert s p ok c)
  from insert.hyps(2) show ?case
  proof (cases rule: insert_promise_cases)
    case (new h)
    have "p < cl_calls (th_client s)"
      using insert.hyps(1) threads_invD(1) [OF insert.prems(1), of p] by (simp add: phase_ok_def Let_def)
    then show ?thesis
      by (intro tabledI [OF insert.prems(2)])
        (use new(1,4) in \<open>auto simp: tabled_defs new(3) inj_on_def split: if_splits\<close>)
  next
    case old
    show ?thesis
      by (rule tabledI [OF insert.prems(2)]) (use old(1,3) in \<open>auto simp: tabled_defs finish_def split: if_splits\<close>)
  qed
next
  case (send s p c)
  from send.hyps(2) obtain x where c: "c = (th_client s)\<lparr>cl_written := x\<rparr>" by (rule write_request_written)
  show ?case by (rule tabledI [OF send.prems(2)]) (use send.hyps(1) in \<open>auto simp: tabled_defs c split: if_splits\<close>)
next
  case (arm s p)
  show ?case
    by (rule tabledI [OF arm.prems(2)]) (use arm.hyps in \<open>auto simp: tabled_defs arm_timer_def split: if_splits\<close>)
next
  case (find s m p)
  show ?case by (rule tabledI [OF find.prems(2)]) (use find.hyps in \<open>auto simp: tabled_defs\<close>)
next
  case (erase s p m)
  note held = own(2) [OF erase.prems(1) erase.hyps]
  then show ?case
    by (intro tabledI [OF erase.prems(2)])
      (use erase.hyps in \<open>auto simp: tabled_defs read_erase_def inj_on_def\<close>)
next
  case (erase_gone s p m)
  show ?case by (rule tabledI [OF erase_gone.prems(2)]) (use erase_gone.hyps in \<open>auto simp: tabled_defs\<close>)
next
  case (complete s p m c)
  note held = own(2) [OF complete.prems(1) complete.hyps(1)]
  with complete.hyps(2) obtain r where
    c: "c = (th_client s)\<lparr>cl_value := (cl_value (th_client s))(p \<mapsto> m), cl_result := r\<rparr>"
    and r: "r = (if th_timer s p = None \<and> cl_result (th_client s) p = None
      then (cl_result (th_client s))(p \<mapsto> m) else cl_result (th_client s))"
    by (auto simp: read_complete_def setValue_def finish_def Let_def split: if_splits)
  show ?case
    by (rule tabledI [OF complete.prems(2)])
      (use complete.hyps(1) in \<open>auto simp: tabled_defs c r split: if_splits\<close>)
next
  case (fire s p)
  show ?case by (rule tabledI [OF fire.prems(2)]) (use fire.hyps in \<open>auto simp: tabled_defs split: if_splits\<close>)
next
  case (timer_erase s p)
  have "p < cl_calls (th_client s)"
    using timer_erase.hyps threads_invD(1) [OF timer_erase.prems(1), of p]
    by (auto simp: phase_ok_def Let_def split: option.splits)
  then show ?case
    by (intro tabledI [OF timer_erase.prems(2)])
      (use timer_erase.hyps in \<open>auto simp: tabled_defs timeout_erase_def inj_on_def split: if_splits\<close>)
next
  case (timer_reply s p)
  show ?case
    by (rule tabledI [OF timer_reply.prems(2)])
      (auto simp: tabled_defs timeout_reply_def finish_def split: if_splits)
qed

lemma threads_reach_all:
  assumes "threads_reach W T lim t N s"
  shows "threads_inv W T lim t s" "tabled T s" "unat lim + N \<le> 2 ^ 64 \<longrightarrow> capacity T lim N s"
proof -
  from assms have "threads_inv W T lim t s \<and> tabled T s \<and> (unat lim + N \<le> 2 ^ 64 \<longrightarrow> capacity T lim N s)"
  proof (induction rule: threads_reach.induct)
    case (start pl)
    have "tabled T (idle (client_new W (MultiplexClientDispatcher_new T lim t pl)))"
      by (simp add: tabled_def waiting_def pending_def idle_def client_new_def)
    moreover have "capacity T lim N (idle (client_new W (MultiplexClientDispatcher_new T lim t pl)))"
      by (simp add: capacity_def callers_def admitted_def idle_def client_new_def client_entries_def
          MultiplexClientDispatcher_new_def entries_empty)
    ultimately show ?case using threads_start by blast
  next
    case (step s s')
    with threads_step_inv tabled_step capacity_step show ?case by blast
  qed
  then show "threads_inv W T lim t s" "tabled T s" "unat lim + N \<le> 2 ^ 64 \<longrightarrow> capacity T lim N s" by blast+
qed

text \<open>A pending call is never stuck: the next part of its operator or timer can run, and brings it nearer
  to its result.\<close>

lemma next_part:
  assumes inv: "threads_inv W T lim t s" and pend: "pending (th_client s) p"
    and pl: "deref (cd_pipeline (cl_disp (th_client s))) = Inr pl"
  shows "\<exists>s'. threads_step W T N s s' \<and> deref (cd_pipeline (cl_disp (th_client s'))) = Inr pl
    \<and> (pending (th_client s') p \<longrightarrow> parts_left s' p < parts_left s p)"
proof -
  let ?c = "th_client s"
  note ph = threads_invD(1) [OF inv, of p, unfolded phase_ok_def Let_def]
  have r: "cl_result ?c p = None" "p < cl_calls ?c" using pend by (simp_all add: pending_def)
  show ?thesis
  proof (cases "th_call s p")
    case (Some a)
    show ?thesis
    proof (cases a)
      case Begun
      then have s: "th_call s p = Some Begun" using Some by simp
      show ?thesis
      proof (cases "limit_reached T ?c")
        case True
        show ?thesis by (intro exI conjI, rule threads_step.refuse [OF s True]) (simp_all add: finish_def pl pending_def)
      next
        case False
        show ?thesis by (intro exI conjI, rule threads_step.admit [OF s False]) (simp_all add: pl parts_left_def s)
      qed
    next
      case Admitted
      then have s: "th_call s p = Some Admitted" using Some by simp
      obtain ok c where i: "insert_promise W T p ?c = (ok, c)" by (rule prod.exhaust)
      then show ?thesis
        by (cases rule: insert_promise_cases)
          (intro exI conjI, rule threads_step.insert [OF s i], auto simp: finish_def pl pending_def parts_left_def s)+
    next
      case Inserted
      then have s: "th_call s p = Some Inserted" using Some by simp
      have w: "write_request p ?c = Inr (?c\<lparr>cl_written := cl_written ?c @ [cl_arg ?c p]\<rparr>)"
        by (simp add: write_request_def pl)
      show ?thesis by (intro exI conjI, rule threads_step.send [OF s w]) (simp_all add: pl parts_left_def s)
    next
      case Written
      then have s: "th_call s p = Some Written" using Some by simp
      have "th_timer s p = None" using ph s by simp
      then show ?thesis
        by (intro exI [of _ "s\<lparr>th_client := arm_timer p ?c, th_call := (th_call s)(p := None)\<rparr>"] conjI threads_step.arm [OF s])
          (simp_all add: arm_timer_def pl parts_left_def s)
    qed
  next
    case None
    show ?thesis
    proof (cases "th_timer s p")
      case None
      with ph r \<open>th_call s p = None\<close> have "cl_timer ?c p \<noteq> None" by simp
      from threads_step.fire [OF this r(1) None] show ?thesis
        by (intro exI conjI, assumption) (simp_all add: pl parts_left_def None \<open>th_call s p = None\<close>)
    next
      case (Some ti)
      show ?thesis
      proof (cases ti)
        case Fired
        then have s: "th_timer s p = Some Fired" using Some by simp
        show ?thesis
          by (intro exI conjI, rule threads_step.timer_erase [OF s])
            (simp_all add: timeout_erase_def pl parts_left_def s \<open>th_call s p = None\<close>)
      next
        case Erased
        then have s: "th_timer s p = Some Erased" using Some by simp
        show ?thesis
          by (intro exI conjI, rule threads_step.timer_reply [OF s]) (simp_all add: timeout_reply_def finish_def pl pending_def)
      qed
    qed
  qed
qed

lemma step_calls: "threads_step W T N s s' \<Longrightarrow> cl_calls (th_client s) \<le> cl_calls (th_client s')"
  by (induction rule: threads_step.induct)
    (auto simp: part_defs dispatcher_readEOF_def insert_promise_def write_request_def read_erase_def
      timeout_erase_def read_complete_def setValue_def Let_def split: sum.splits prod.splits bool.splits if_splits)

lemma call_ends:
  assumes "threads_inv W T lim t s" "p < cl_calls (th_client s)"
    and "deref (cd_pipeline (cl_disp (th_client s))) = Inr pl"
  shows "\<exists>s'. (threads_step W T N)\<^sup>*\<^sup>* s s' \<and> cl_result (th_client s') p \<noteq> None"
  using assms
proof (induction "parts_left s p" arbitrary: s rule: less_induct)
  case less
  show ?case
  proof (cases "pending (th_client s) p")
    case True
    from next_part [OF less.prems(1) True less.prems(3)] obtain s' where
      s': "threads_step W T N s s'" "deref (cd_pipeline (cl_disp (th_client s'))) = Inr pl"
        "pending (th_client s') p \<longrightarrow> parts_left s' p < parts_left s p" by blast
    have lt: "p < cl_calls (th_client s')" using step_calls [OF s'(1)] less.prems(2) by simp
    show ?thesis
    proof (cases "pending (th_client s') p")
      case True
      with less.hyps [OF _ threads_step_inv [OF s'(1) less.prems(1)] lt s'(2)] s'(1,3) show ?thesis
        by (meson converse_rtranclp_into_rtranclp)
    next
      case False
      with lt s'(1) show ?thesis by (auto simp: pending_def)
    qed
  next
    case False
    with less.prems(2) show ?thesis by (auto simp: pending_def)
  qed
qed

text \<open>The histories of \<open>ClientDispatcher\<close> are runs: each operation is the run of its parts.\<close>

lemma idle_sel [simp]:
  "th_client (idle c) = c" "th_call (idle c) = Map.empty" "th_timer (idle c) = Map.empty" "th_reader (idle c) = None"
  "callers (idle c) = {}"
  by (simp_all add: idle_def callers_def)

lemma serial_call:
  assumes inv: "client_inv W T lim t c" and call: "dispatcher_call W T arg c = Inr c'" and N: "0 < N"
  shows "(threads_step W T N)\<^sup>*\<^sup>* (idle c) (idle c')"
proof -
  obtain p c1 where b: "call_begin arg c = (p, c1)" by (rule prod.exhaust)
  have c1: "cl_arg c1 p = arg" "cl_value c1 p = None"
    using b client_invD(2,5) [OF inv, of p] by (cases "cl_result c p"; cases "cl_value c p"; auto simp: call_begin_def)+
  let ?s = "\<lambda>x c. (idle c)\<lparr>th_call := Map.empty(p \<mapsto> x)\<rparr>"
  have begun: "threads_step W T N (idle c) (?s Begun c1)"
    using threads_step.begin_call [of "idle c" N arg p c1] b N by (simp add: idle_def callers_def)
  show ?thesis
  proof (cases "limit_reached T c1")
    case True
    then have "c' = finish p (local_reply W PENDDING_LIMIT arg) c1" using call b by (simp add: dispatcher_call_def)
    moreover have "threads_step W T N (?s Begun c1) (idle (finish p (local_reply W PENDDING_LIMIT (cl_arg c1 p)) c1))"
      using threads_step.refuse [of "?s Begun c1" p] True by (simp add: idle_def)
    ultimately show ?thesis using begun by (simp add: c1)
  next
    case False
    obtain ok c2 where i: "insert_promise W T p c1 = (ok, c2)" by (rule prod.exhaust)
    have "call_send W T p arg c1 = Inr c'" using False call b by (simp add: dispatcher_call_def)
    then have parts: "(case (ok, c2) of (False, s) \<Rightarrow> Inr s
        | (True, s) \<Rightarrow> (case write_request p s of Inl f \<Rightarrow> Inl f | Inr s \<Rightarrow> Inr (arm_timer p s))) = Inr c'"
      using call_send_parts [OF c1] i by simp
    have admitted: "threads_step W T N (?s Begun c1) (?s Admitted c1)"
      using threads_step.admit [of "?s Begun c1" p] False by (simp add: idle_def)
    show ?thesis
    proof (cases ok)
      case False
      then have "threads_step W T N (?s Admitted c1) (idle c')"
        using threads_step.insert [of "?s Admitted c1" p W T ok c2] i parts by (simp add: idle_def)
      with begun admitted show ?thesis by (meson converse_rtranclp_into_rtranclp r_into_rtranclp)
    next
      case True
      then obtain c3 where w: "write_request p c2 = Inr c3" and c': "c' = arm_timer p c3"
        using parts by (auto split: sum.splits)
      have "threads_step W T N (?s Admitted c1) (?s Inserted c2)"
        using threads_step.insert [of "?s Admitted c1" p W T ok c2] i True by (simp add: idle_def)
      moreover have "threads_step W T N (?s Inserted c2) (?s Written c3)"
        using threads_step.send [of "?s Inserted c2" p c3] w by (simp add: idle_def)
      moreover have "threads_step W T N (?s Written c3) (idle c')"
        using threads_step.arm [of "?s Written c3" p] by (simp add: idle_def c')
      ultimately show ?thesis using begun admitted by (meson converse_rtranclp_into_rtranclp r_into_rtranclp)
    qed
  qed
qed

lemma serial_read:
  assumes inv: "client_inv W T lim t c" and r: "dispatcher_read T m c = Inr c'"
  shows "(threads_step W T N)\<^sup>*\<^sup>* (idle c) (idle c')"
proof (cases "read_find T m c")
  case None
  with r show ?thesis by (simp add: dispatcher_read_parts)
next
  case (Some p)
  let ?s = "\<lambda>x c. (idle c)\<lparr>th_reader := Some (p, m, x)\<rparr>"
  have r': "read_complete False p m (read_erase T m c) = Inr c'" using r Some by (simp add: dispatcher_read_parts)
  have "threads_step W T N (idle c) (?s Found c)" by (rule threads_step.find) (simp_all add: Some)
  moreover have "threads_step W T N (?s Found c) (?s Removed (read_erase T m c))"
    using threads_step.erase [of "?s Found c" p m] by (simp add: idle_def)
  moreover have "threads_step W T N (?s Removed (read_erase T m c)) (idle c')"
    using threads_step.complete [of "?s Removed (read_erase T m c)" p m c'] r' by (simp add: idle_def)
  ultimately show ?thesis by (meson converse_rtranclp_into_rtranclp r_into_rtranclp)
qed

lemma serial_timeout:
  assumes "cl_timer c p \<noteq> None" "cl_result c p = None"
  shows "(threads_step W T N)\<^sup>*\<^sup>* (idle c) (idle (dispatcher_timeout W T p c))"
proof -
  let ?s = "\<lambda>x c. (idle c)\<lparr>th_timer := Map.empty(p \<mapsto> x)\<rparr>"
  have "threads_step W T N (idle c) (?s Fired c)"
    using threads_step.fire [of "idle c" p] assms by (simp add: idle_def)
  moreover have "threads_step W T N (?s Fired c) (?s Erased (timeout_erase T p c))"
    using threads_step.timer_erase [of "?s Fired c" p] by (simp add: idle_def)
  moreover have "threads_step W T N (?s Erased (timeout_erase T p c)) (idle (dispatcher_timeout W T p c))"
    using threads_step.timer_reply [of "?s Erased (timeout_erase T p c)" p] by (simp add: idle_def dispatcher_timeout_parts)
  ultimately show ?thesis by (meson converse_rtranclp_into_rtranclp r_into_rtranclp)
qed

lemma reach_steps: "\<lbrakk>threads_reach W T lim t N s; (threads_step W T N)\<^sup>*\<^sup>* s s'\<rbrakk> \<Longrightarrow> threads_reach W T lim t N s'"
  by (rotate_tac 1, induction rule: rtranclp_induct) (auto intro: threads_reach.step)

lemma serial_threads:
  assumes "client_reach W T lim t c" "0 < N"
  shows "threads_reach W T lim t N (idle c)"
  using assms(1)
proof (induction rule: client_reach.induct)
  case (start pl)
  show ?case by (rule threads_reach.start)
next
  case (connected c p)
  have "threads_step W T N (idle c) (idle (setPipeline p c))"
    using threads_step.connected [of W T N "idle c" p] by (simp add: idle_def)
  with connected.IH show ?case by (rule threads_reach.step)
next
  case (call c arg c')
  from reach_steps [OF call.IH serial_call [OF reach_inv [OF call.hyps(1)] call.hyps(2) assms(2)]] show ?case .
next
  case (read c m c')
  from reach_steps [OF read.IH serial_read [OF reach_inv [OF read.hyps(1)] read.hyps(2)]] show ?case .
next
  case (timeout c p)
  from reach_steps [OF timeout.IH serial_timeout [OF timeout.hyps(2,3)]] show ?case .
next
  case (eof c c')
  have "threads_step W T N (idle c) (idle c')"
    using threads_step.eof [of "idle c" c'] eof.hyps(2) by (simp add: idle_def)
  with eof.IH show ?case by (rule threads_reach.step)
qed

end

section \<open>Properties\<close>

text \<open>C8: Whatever the callers, the reading thread and the timers do at the same time, a result belongs to
  its call: it carries the call's id and is the message the promise was given or one of the
  dispatcher's own replies to this request. Every entry of the table is a pending call under its id,
  so nothing leaks, and \<open>setValue\<close> never meets a promise that has a value.\<close>

theorem threads_results:
  assumes "promise_map T" "threads_reach W T lim t N s"
  shows "(cl_result (th_client s) p = Some r \<longrightarrow> p < cl_calls (th_client s) \<and> rm_id r = rm_id (cl_arg (th_client s) p)
      \<and> (cl_value (th_client s) p = Some r
         \<or> (\<exists>e \<in> {PENDDING_LIMIT, INVALID_REQUEST, TIMEOUT}. r = local_reply W e (cl_arg (th_client s) p))))
    \<and> (client_entries T (th_client s) i = Some p \<longrightarrow> pending (th_client s) p \<and> rm_id (cl_arg (th_client s) p) = i)
    \<and> (th_reader s = Some (q, m, Removed) \<longrightarrow>
        (\<exists>c. read_complete (th_timer s q \<noteq> None) q m (th_client s) = Inr c))"
proof -
  note inv = promise_map.threads_reach_all(1) [OF assms]
  note own = promise_map.own [OF assms(1) inv]
  have "p < cl_calls (th_client s)" if "cl_result (th_client s) p = Some r"
    using threads_invD(1) [OF inv, of p] that by (auto simp: phase_ok_def Let_def split: option.splits if_splits)
  then show ?thesis
    using own(1) [where p = p and i = i] own(2) [where p = q and m = m and b = Removed] own(3) [where p = p and r = r]
    by (auto simp: pending_def answered_right_def read_complete_def setValue_def Let_def)
qed

text \<open>C11: The limit under concurrency: with \<open>N\<close> threads that call, the table never holds more than \<open>N - 1\<close>
  entries above the limit. (\<open>limit_overrun\<close> shows two callers that reach this bound.)\<close>

theorem threads_limit:
  assumes "promise_map T" "threads_reach W T lim t N s" "unat lim + N \<le> 2 ^ 64"
  shows "card (dom (client_entries T (th_client s))) \<le> unat lim + N - 1"
  using promise_map.threads_reach_all(3) [OF assms(1,2)] assms(3) by (simp add: capacity_def)

text \<open>C9: When the calls have different ids, as those of one channel do, the threads do not disturb each
  other: whenever no operation is under way the table holds exactly the pending calls, each under its
  id.\<close>

theorem threads_table:
  assumes "promise_map T" "threads_reach W T lim t N s" "ids_differ (th_client s)"
    and "callers s = {}" "th_timer s = Map.empty" "th_reader s = None"
  shows "client_entries T (th_client s) i = Some p \<longleftrightarrow> pending (th_client s) p \<and> rm_id (cl_arg (th_client s) p) = i"
proof
  note inv = promise_map.threads_reach_all(1) [OF assms(1,2)]
  show "client_entries T (th_client s) i = Some p \<Longrightarrow> pending (th_client s) p \<and> rm_id (cl_arg (th_client s) p) = i"
    using promise_map.own(1) [OF assms(1) inv, where p = p and i = i] by (simp add: pending_def)
  assume p: "pending (th_client s) p \<and> rm_id (cl_arg (th_client s) p) = i"
  have call: "th_call s p = None" using assms(4) by (auto simp: callers_def)
  with threads_invD(1) [OF inv, of p] p assms(5) have "cl_value (th_client s) p = None"
    by (simp add: phase_ok_def Let_def pending_def)
  with p call assms(5,6) have "waiting s p" by (simp add: waiting_def)
  with p show "client_entries T (th_client s) i = Some p"
    using promise_map.threads_reach_all(2) [OF assms(1,2)] assms(3) by (auto simp: tabled_def)
qed


text \<open>Two callers at the last place of the table: both pass the test, and the first inserts its promise
  before the second.\<close>

definition two_begun :: "((s64 \<times> nat) list, byte list) client" where
  "two_begun = snd (call_begin (set_id 301 sample_request) (snd (call_begin sample_request
     (client_new varint_lib (MultiplexClientDispatcher_new alist_table 1 100 (Ptr 0))))))"

definition two_inserted :: "((s64 \<times> nat) list, byte list) client" where
  "two_inserted = snd (insert_promise varint_lib alist_table 1 (snd (insert_promise varint_lib alist_table 0 two_begun)))"

lemmas sample_run_defs = two_begun_def two_inserted_def insert_promise_def call_begin_def client_new_def
  MultiplexClientDispatcher_new_def alist_table_def idle_def callers_def sample_request_id client_entries_def

lemma two_inserted_sel:
  "client_entries alist_table two_inserted = [0 \<mapsto> 0, 301 \<mapsto> 1]" "cl_calls two_inserted = 2"
  "cl_arg two_inserted 0 = sample_request" "cl_arg two_inserted 1 = set_id 301 sample_request"
  "cl_result two_inserted = Map.empty" "cd_pipeline (cl_disp two_inserted) = Ptr 0"
  by (simp_all add: sample_run_defs set_id_def fun_eq_iff)

lemma two_threads:
  "threads_reach varint_lib alist_table 1 100 2 ((idle two_inserted)\<lparr>th_call := [0 \<mapsto> Inserted, 1 \<mapsto> Inserted]\<rparr>)"
proof -
  let ?R = "threads_reach varint_lib alist_table 1 100 2"
  let ?c0 = "client_new varint_lib (MultiplexClientDispatcher_new alist_table 1 100 (Ptr 0))"
  let ?c1 = "snd (call_begin sample_request ?c0)"
  let ?c3 = "snd (insert_promise varint_lib alist_table 0 two_begun)"
  have "?R (idle ?c0)" by (rule threads_reach.start)
  from threads_reach.step [OF this threads_step.begin_call [where arg = sample_request and p = 0 and c = ?c1]]
  have "?R ((idle ?c1)\<lparr>th_call := [0 \<mapsto> Begun]\<rparr>)" by (simp add: sample_run_defs)
  from threads_reach.step [OF this threads_step.begin_call [where arg = "set_id 301 sample_request" and p = 1 and c = two_begun]]
  have "?R ((idle two_begun)\<lparr>th_call := [0 \<mapsto> Begun, 1 \<mapsto> Begun]\<rparr>)" by (simp add: sample_run_defs)
  from threads_reach.step [OF this threads_step.admit [where p = 0]]
  have "?R ((idle two_begun)\<lparr>th_call := [0 \<mapsto> Admitted, 1 \<mapsto> Begun]\<rparr>)"
    by (simp add: sample_run_defs limit_reached_def fun_upd_twist)
  from threads_reach.step [OF this threads_step.admit [where p = 1]]
  have "?R ((idle two_begun)\<lparr>th_call := [0 \<mapsto> Admitted, 1 \<mapsto> Admitted]\<rparr>)"
    by (simp add: sample_run_defs limit_reached_def)
  from threads_reach.step [OF this threads_step.insert [where p = 0 and ok = True and c = ?c3]]
  have "?R ((idle ?c3)\<lparr>th_call := [0 \<mapsto> Inserted, 1 \<mapsto> Admitted]\<rparr>)"
    by (simp add: sample_run_defs fun_upd_twist)
  from threads_reach.step [OF this threads_step.insert [where p = 1 and ok = True and c = two_inserted]]
  show ?thesis by (simp add: sample_run_defs set_id_def)
qed

theorem threads_results_witness:
  "pending two_inserted 1 \<and> rm_id (cl_arg two_inserted 1) = 301"
  using threads_results [OF alist.promise_map_axioms two_threads, of 1 _ 301] by (simp add: two_inserted_sel)

theorem threads_limit_witness:
  "card (dom (client_entries alist_table two_inserted)) = unat (1 :: u64) + 2 - 1
   \<and> card (dom (client_entries alist_table two_inserted)) \<le> 2"
  using threads_limit [OF alist.promise_map_axioms two_threads] by (simp add: two_inserted_sel)

theorem threads_table_witness:
  "client_entries alist_table one_call 0 = Some 0 \<longleftrightarrow> pending one_call 0 \<and> rm_id (cl_arg one_call 0) = 0"
  using threads_table [OF alist.promise_map_axioms alist.serial_threads [OF one_call_reach, of 1], of 0 0]
  by (simp add: ids_differ_def one_call_pending sample_request_id)


text \<open>When ids are used again the threads do disturb each other. The timer of a first call fires; before
  its callback runs, the response arrives, the reader removes the entry, and a second call with the
  same id inserts its own. The callback then erases by id: the entry of the second call is gone while
  it is pending, so its response will be dropped and it can only time out.\<close>

definition stale_read :: "((s64 \<times> nat) list, byte list) client" where
  "stale_read = projr (read_complete True 0 sample_request (read_erase alist_table sample_request one_call))"

definition stale_begun :: "((s64 \<times> nat) list, byte list) client" where
  "stale_begun = snd (call_begin sample_request stale_read)"

definition stale_inserted :: "((s64 \<times> nat) list, byte list) client" where
  "stale_inserted = snd (insert_promise varint_lib alist_table 1 stale_begun)"

definition stale_written :: "((s64 \<times> nat) list, byte list) client" where
  "stale_written = projr (write_request 1 stale_inserted)"

lemma one_call_form: "one_call = \<lparr>cl_disp = \<lparr>cd_requests = [(0, 0)], cd_timeout = 100, cd_reqlimit = 1, cd_pipeline = Ptr 0\<rparr>,
    cl_calls = 1, cl_arg = (\<lambda>_. RpcMessage_new varint_lib)(0 := sample_request), cl_value = Map.empty, cl_result = Map.empty,
    cl_timer = [0 \<mapsto> 100], cl_written = [sample_request], cl_closed = []\<rparr>"
  by (simp add: one_call_def dispatcher_call_def call_begin_def limit_reached_def call_send_def setPipeline_def
      client_new_def MultiplexClientDispatcher_new_def alist_table_def Let_def sample_request_id)

lemmas stale_defs = sample_run_defs stale_read_def stale_begun_def stale_inserted_def stale_written_def one_call_form
  read_find_def read_erase_def read_complete_def setValue_def write_request_def limit_reached_def finish_def Let_def

theorem stale_timer_erases:
  "\<exists>s. threads_reach varint_lib alist_table 1 100 1 s \<and> callers s = {} \<and> th_timer s = Map.empty
     \<and> th_reader s = None \<and> pending (th_client s) 1 \<and> client_entries alist_table (th_client s) = Map.empty"
proof -
  let ?R = "threads_reach varint_lib alist_table 1 100 1"
  have "?R (idle one_call)" using alist.serial_threads [OF one_call_reach, of 1] by simp
  from threads_reach.step [OF this threads_step.fire [where p = 0]]
  have "?R ((idle one_call)\<lparr>th_timer := [0 \<mapsto> Fired]\<rparr>)" by (simp add: stale_defs)
  from threads_reach.step [OF this threads_step.find [where p = 0 and m = sample_request]]
  have "?R ((idle one_call)\<lparr>th_timer := [0 \<mapsto> Fired], th_reader := Some (0, sample_request, Found)\<rparr>)"
    by (simp add: stale_defs)
  from threads_reach.step [OF this threads_step.erase [where p = 0 and m = sample_request]]
  have "?R ((idle (read_erase alist_table sample_request one_call))\<lparr>th_timer := [0 \<mapsto> Fired],
      th_reader := Some (0, sample_request, Removed)\<rparr>)" by (simp add: stale_defs)
  from threads_reach.step [OF this threads_step.complete [where p = 0 and m = sample_request and c = stale_read]]
  have "?R ((idle stale_read)\<lparr>th_timer := [0 \<mapsto> Fired]\<rparr>)" by (simp add: stale_defs)
  from threads_reach.step [OF this threads_step.begin_call [where arg = sample_request and p = 1 and c = stale_begun]]
  have "?R ((idle stale_begun)\<lparr>th_call := [1 \<mapsto> Begun], th_timer := [0 \<mapsto> Fired]\<rparr>)" by (simp add: stale_defs)
  from threads_reach.step [OF this threads_step.admit [where p = 1]]
  have "?R ((idle stale_begun)\<lparr>th_call := [1 \<mapsto> Admitted], th_timer := [0 \<mapsto> Fired]\<rparr>)" by (simp add: stale_defs)
  from threads_reach.step [OF this threads_step.insert [where p = 1 and ok = True and c = stale_inserted]]
  have "?R ((idle stale_inserted)\<lparr>th_call := [1 \<mapsto> Inserted], th_timer := [0 \<mapsto> Fired]\<rparr>)" by (simp add: stale_defs)
  from threads_reach.step [OF this threads_step.send [where p = 1 and c = stale_written]]
  have "?R ((idle stale_written)\<lparr>th_call := [1 \<mapsto> Written], th_timer := [0 \<mapsto> Fired]\<rparr>)" by (simp add: stale_defs)
  from threads_reach.step [OF this threads_step.arm [where p = 1]]
  have "?R ((idle (arm_timer 1 stale_written))\<lparr>th_timer := [0 \<mapsto> Fired]\<rparr>)" by (simp add: stale_defs)
  from threads_reach.step [OF this threads_step.timer_erase [where p = 0]]
  have "?R ((idle (timeout_erase alist_table 0 (arm_timer 1 stale_written)))\<lparr>th_timer := [0 \<mapsto> Erased]\<rparr>)"
    by (simp add: stale_defs)
  from threads_reach.step [OF this threads_step.timer_reply [where p = 0]]
  have "?R (idle (timeout_reply varint_lib 0 (timeout_erase alist_table 0 (arm_timer 1 stale_written))))"
    by (simp add: stale_defs)
  moreover have "pending (timeout_reply varint_lib 0 (timeout_erase alist_table 0 (arm_timer 1 stale_written))) 1"
    "client_entries alist_table (timeout_reply varint_lib 0 (timeout_erase alist_table 0 (arm_timer 1 stale_written))) = Map.empty"
    by (simp_all add: stale_defs pending_def timeout_reply_def timeout_erase_def arm_timer_def)
  ultimately show ?thesis
    by (intro exI [of _ "idle (timeout_reply varint_lib 0 (timeout_erase alist_table 0 (arm_timer 1 stale_written)))"])
      simp
qed

end
