(* ===== verification/FutureRpcCallProxy.thy ===== *)
theory FutureRpcCallProxy
  imports PbRpcClient
begin

text \<open>
  The future-based proxy over several hosts (\<open>net/futureRpcCallProxy.h\<close>,
  \<open>net/futureRpcCallProxy.cc\<close>): its list of clients, the three selection strategies, and
  \<open>CallMethod\<close>, which maps each way a call can end to a value or an exception of the future it
  returns. The clients live outside the proxy, in a store from positions of \<open>vRpcClient\<close>.
\<close>

section \<open>State\<close>

datatype LBStrategy = RANDOM | HASH | RoundRobin

record ('h, 'u) proxy =
  px_clients :: "('h, 'u) rpc_client list" \<comment> \<open>\<open>vRpcClient\<close>\<close>
  px_ioThreads :: u32
  px_request_id :: s64
  px_lbs :: LBStrategy
  px_local_ip :: "byte list" \<comment> \<open>\<open>LocalIPstr\<close>\<close>
  px_getLocalIP_flag :: bool

definition proxy_new :: "s32 \<Rightarrow> u32 \<Rightarrow> ('h, 'u) proxy" where
  "proxy_new ioThreadNum hardware_concurrency =
     \<lparr>px_clients = [],
      px_ioThreads = (if ioThreadNum = 0 then let cpuNum = hardware_concurrency in cpuNum else ioThreadNum),
      px_request_id = 0, px_lbs = RoundRobin, px_local_ip = [], px_getLocalIP_flag = False\<rparr>"

definition setLBStrategy :: "LBStrategy \<Rightarrow> ('h, 'u) proxy \<Rightarrow> ('h, 'u) proxy" where
  "setLBStrategy l px = px\<lparr>px_lbs := l\<rparr>"

definition addRemoteHost ::
    "'u wire_lib \<Rightarrow> 'h table_lib \<Rightarrow> nat ptr \<Rightarrow> byte list \<Rightarrow> s32 \<Rightarrow> u32 \<Rightarrow> u64 \<Rightarrow> ('h, 'u) proxy
     \<Rightarrow> ('h, 'u) proxy" where
  "addRemoteHost W T pl host port t reqLimit px =
     (let clientPtr = PbRpcClient_new_limits W T pl host port (px_ioThreads px) reqLimit t
      in px\<lparr>px_clients := px_clients px @ [clientPtr]\<rparr>)"

section \<open>Selection\<close>

text \<open>A selection is a position of \<open>vRpcClient\<close>. The remainder is taken on unsigned 64-bit numbers.
  \<open>Random_Select\<close> has no return statement: its result is undefined.\<close>

definition RoundRobin_Select :: "s64 \<Rightarrow> nat \<Rightarrow> nat" where
  "RoundRobin_Select curReqId size_v = unat (curReqId mod (of_nat size_v :: u64))"

definition Hash_Select :: "(byte list \<Rightarrow> u32) \<Rightarrow> byte list \<Rightarrow> byte list \<Rightarrow> byte list \<Rightarrow> nat \<Rightarrow> nat" where
  "Hash_Select hash32 host service_n method_n size_v =
     (let ostr = host @ service_n @ method_n; hashCode = hash32 ostr
      in unat ((ucast hashCode :: u64) mod of_nat size_v))"

definition Random_Select :: "s64 \<Rightarrow> nat option" where
  "Random_Select curReqId = None"

section \<open>CallMethod\<close>

record ('d, 'm) proxy_api = 
  px_FindMethodByName :: "byte list \<Rightarrow> 'd option"
  px_full_name :: "byte list"
  px_index :: "'d \<Rightarrow> u32"
  px_SerializeToString :: "'m \<Rightarrow> byte list"
  px_ParseFromString :: "byte list \<Rightarrow> 'm \<Rightarrow> bool \<times> 'm"
  px_empty :: 'm \<comment> \<open>\<open>T response;\<close>\<close>
  px_Hash32 :: "byte list \<Rightarrow> u32"

datatype future_error = NO_METHOD_error | NO_AVAILABLE_RPCHOSTS_error | PENDDING_LIMIT_error
  | RESPONSE_TIMEOUT_error | INVALID_REQUEST_error | CALL_error

text \<open>The outcome of \<open>CallMethod\<close> up to its return: a future that already failed, a thrown exception or
  undefined behaviour, or a call in flight on the client at a position.\<close>

datatype ('h, 'u) proxy_call = Failed future_error | Thrown | Undefined | Fault client_fault
  | InFlight nat "('h, 'u) proxy"

definition proxy_connect :: "nat option \<Rightarrow> ('h, 'u) rpc_client \<Rightarrow> ('h, 'u) rpc_client option" where
  "proxy_connect conn c =
     (if \<not> rc_connected c then
        (case conn of None \<Rightarrow> None
         | Some p \<Rightarrow> Some (c\<lparr>rc_pipeline := Ptr p, rc_connected := True,
                            rc_client := setPipeline p (rc_client c)\<rparr>))
      else Some c)"

definition select_client ::
    "('d, 'm) proxy_api \<Rightarrow> byte list \<Rightarrow> s64 \<Rightarrow> ('h, 'u) proxy \<Rightarrow> nat option" where
  "select_client api method_n curReqId px =
     (if px_lbs px = RoundRobin then Some (RoundRobin_Select curReqId (length (px_clients px)))
      else if px_lbs px = RANDOM then Random_Select curReqId
      else Some (Hash_Select (px_Hash32 api) (px_local_ip px) (px_full_name api) method_n
                   (length (px_clients px))))"

definition proxy_CallMethod ::
    "'u wire_lib \<Rightarrow> 'h table_lib \<Rightarrow> ('d, 'm) proxy_api \<Rightarrow> nat option \<Rightarrow> byte list \<Rightarrow> 'm \<Rightarrow> ('h, 'u) proxy
     \<Rightarrow> ('h, 'u) proxy_call" where
  "proxy_CallMethod W T api conn method_n request px =
     (case px_FindMethodByName api method_n of
        None \<Rightarrow> Failed NO_METHOD_error
      | Some pMetDes \<Rightarrow>
        if length (px_clients px) \<le> 0 then Failed NO_AVAILABLE_RPCHOSTS_error
        else
          (let serviceName = px_full_name api;
               serviceId = px_Hash32 api serviceName;
               methodId = px_index api pMetDes;
               curReqId = px_request_id px;
               px = px\<lparr>px_request_id := px_request_id px + 1\<rparr>;
               Req = build_request W curReqId serviceId methodId (px_SerializeToString api request)
           in case select_client api method_n curReqId px of
                None \<Rightarrow> Undefined
              | Some k \<Rightarrow>
                (case proxy_connect conn (px_clients px ! k) of
                   None \<Rightarrow> Thrown
                 | Some c \<Rightarrow>
                   (case dispatcher_call W T Req (rc_client c) of
                      Inl f \<Rightarrow> Fault f
                    | Inr s \<Rightarrow> InFlight k (px\<lparr>px_clients := (px_clients px)[k := c\<lparr>rc_client := s\<rparr>]\<rparr>)))))"

text \<open>The callback run with the response: the value or the exception the promise is given.\<close>

definition proxy_response ::
    "('d, 'm) proxy_api \<Rightarrow> 'u RpcMessage \<Rightarrow> future_error + 'm" where
  "proxy_response api Res =
     (if rm_error Res = NO_ERROR then
        (let response = px_empty api in Inr (snd (px_ParseFromString api (rm_response Res) response)))
      else if rm_error Res = PENDDING_LIMIT then Inl PENDDING_LIMIT_error
      else if rm_error Res = TIMEOUT then Inl RESPONSE_TIMEOUT_error
      else if rm_error Res = INVALID_REQUEST then Inl INVALID_REQUEST_error
      else Inl CALL_error)"

text \<open>The outcome of the caller's future for every outcome of the dispatcher's. \<open>thenError\<close> gives the
  promise a copy of the exception as a plain \<open>std::exception\<close> (\<open>setException(e)\<close> copies what it is
  given by its static type): its class and its text are lost. An exception that is not derived from
  \<open>std::exception\<close> does not match, and the promise dies with the callbacks that hold it.\<close>

datatype proxy_error = RpcError future_error | PlainException | BrokenFuture

definition proxy_end ::
    "('d, 'm) proxy_api \<Rightarrow> thrown + 'u RpcMessage \<Rightarrow> proxy_error + 'm" where
  "proxy_end api outcome = (case outcome of
      Inr Res \<Rightarrow> map_sum RpcError id (proxy_response api Res)
    | Inl (StdException what) \<Rightarrow> Inl PlainException
    | Inl ForeignException \<Rightarrow> Inl BrokenFuture)"

section \<open>Round robin\<close>

lemma round_robin_nat:
  assumes "0 < n" "n < 2 ^ 64" "i < 2 ^ 64"
  shows "RoundRobin_Select (of_nat i) n = i mod n"
proof -
  have "unat (of_nat n :: u64) = n" "unat (of_nat i :: u64) = i"
    using assms by (auto intro: unat_of_nat_u64)
  then show ?thesis by (simp add: RoundRobin_Select_def unat_mod_distrib)
qed

text \<open>In a window of \<open>n\<close> consecutive numbers every remainder occurs once.\<close>

lemma upt_shift: "0 < n \<Longrightarrow> [r..<r + n] @ [r + n] = r # [Suc r..<Suc r + n]"
  by (metis add_Suc upt_conv_Cons less_add_same_cancel1 less_SucI le_add1 upt_Suc)

lemma mod_window_mset: "0 < n \<Longrightarrow> mset (map (\<lambda>i. i mod n) [r..<r + n]) = mset [0..<n]"
proof (induction r)
  case 0
  have "map (\<lambda>i. i mod n) [0..<n] = [0..<n]" by (rule map_idI) simp
  then show ?case by (simp only: add_0)
next
  case (Suc r)
  let ?f = "\<lambda>i. i mod n"
  have "mset (map ?f [r..<r + n]) + {#?f (r + n)#} = {#?f r#} + mset (map ?f [Suc r..<Suc r + n])"
    using arg_cong [OF upt_shift [OF Suc.prems, of r], of "\<lambda>xs. mset (map ?f xs)"] by (simp del: upt_Suc)
  moreover have "?f (r + n) = ?f r" by simp
  ultimately have "mset (map ?f [r..<r + n]) = mset (map ?f [Suc r..<Suc r + n])"
    by (simp del: upt_Suc map_eq_conv)
  with Suc show ?case by (simp only:)
qed

lemma select_round_robin:
  assumes "px_lbs px = RoundRobin" "0 < length (px_clients px)" "length (px_clients px) < 2 ^ 64"
    "i < 2 ^ 64"
  shows "select_client api method_n (of_nat i) px = Some (i mod length (px_clients px))"
  using assms by (simp add: select_client_def round_robin_nat)

lemma select_in_range:
  assumes "select_client api method_n i px = Some k" "0 < length (px_clients px)"
    "length (px_clients px) < 2 ^ 64"
  shows "k < length (px_clients px)"
proof -
  let ?n = "of_nat (length (px_clients px)) :: u64"
  have n: "unat ?n = length (px_clients px)" by (rule unat_of_nat_u64 [OF assms(3)])
  have "unat (x mod ?n) < length (px_clients px)" for x :: u64
    unfolding unat_mod_distrib n by (rule mod_less_divisor [OF assms(2)])
  then show ?thesis
    using assms(1)
    by (auto simp: select_client_def RoundRobin_Select_def Hash_Select_def Random_Select_def Let_def
        split: if_splits)
qed

section \<open>Histories of a proxy\<close>

inductive proxy_reach ::
  "'u wire_lib \<Rightarrow> 'h table_lib \<Rightarrow> ('d, 'm) proxy_api \<Rightarrow> ('h, 'u) proxy \<Rightarrow> bool" for W T api where
  start: "proxy_reach W T api (proxy_new k cores)"
| strategy: "proxy_reach W T api px \<Longrightarrow> proxy_reach W T api (setLBStrategy l px)"
| host: "proxy_reach W T api px \<Longrightarrow> proxy_reach W T api (addRemoteHost W T pl host port t lim px)"
| call: "\<lbrakk>proxy_reach W T api px; proxy_CallMethod W T api conn method_n request px = InFlight k px'\<rbrakk> \<Longrightarrow>
    proxy_reach W T api px'"
| client: "\<lbrakk>proxy_reach W T api px; k < length (px_clients px)\<rbrakk> \<Longrightarrow>
    proxy_reach W T api (px\<lparr>px_clients := (px_clients px)[k := c]\<rparr>)"

lemma in_flight:
  assumes "proxy_CallMethod W T api conn method_n request px = InFlight k px'"
  obtains d c s where "px_FindMethodByName api method_n = Some d" "px_clients px \<noteq> []"
    "select_client api method_n (px_request_id px) px = Some k"
    "proxy_connect conn (px_clients px ! k) = Some c"
    "dispatcher_call W T (build_request W (px_request_id px) (px_Hash32 api (px_full_name api))
       (px_index api d) (px_SerializeToString api request)) (rc_client c) = Inr s"
    "px' = px\<lparr>px_request_id := px_request_id px + 1, px_clients := (px_clients px)[k := c\<lparr>rc_client := s\<rparr>]\<rparr>"
proof -
  have sel: "select_client api method_n i (px\<lparr>px_request_id := j\<rparr>) = select_client api method_n i px" for i j
    by (simp add: select_client_def)
  show thesis
    using assms
    by (auto simp: proxy_CallMethod_def Let_def sel split: option.splits sum.splits if_splits
        intro!: that)
qed

lemma proxy_local_ip: "proxy_reach W T api px \<Longrightarrow> px_local_ip px = []"
proof (induction rule: proxy_reach.induct)
  case (call px conn method_n request k px')
  from call.hyps(2) call.IH show ?case by (auto elim!: in_flight)
qed (simp_all add: proxy_new_def setLBStrategy_def addRemoteHost_def Let_def)

section \<open>Properties\<close>

text \<open>Round robin is fair: with \<open>n\<close> hosts, any \<open>n\<close> consecutive request ids select every host exactly
  once, and the host of a request is its id modulo \<open>n\<close>.\<close>

theorem round_robin_fair:
  assumes "px_lbs px = RoundRobin" "n = length (px_clients px)" "0 < n" "n < 2 ^ 64" "r + n \<le> 2 ^ 64"
  shows "mset (map (\<lambda>i. select_client api method_n (of_nat i) px) [r..<r + n]) = mset (map Some [0..<n])
    \<and> (\<forall>i \<in> {r..<r + n}. select_client api method_n (of_nat i) px = Some (i mod n))"
proof -
  have sel: "select_client api method_n (of_nat i) px = Some (i mod n)" if "i \<in> {r..<r + n}" for i
  proof -
    have "i < 2 ^ 64" using that assms(5) by (simp only: atLeastLessThan_iff) linarith
    from select_round_robin [OF assms(1) _ _ this] assms(2-4) show ?thesis by simp
  qed
  then have "map (\<lambda>i. select_client api method_n (of_nat i) px) [r..<r + n]
      = map Some (map (\<lambda>i. i mod n) [r..<r + n])"
    unfolding map_map by (intro map_cong) simp_all
  then have "mset (map (\<lambda>i. select_client api method_n (of_nat i) px) [r..<r + n])
      = image_mset Some (mset (map (\<lambda>i. i mod n) [r..<r + n]))"
    by (simp only: mset_map)
  also have "\<dots> = mset (map Some [0..<n])"
    unfolding mod_window_mset [OF assms(3)] by (simp only: mset_map)
  finally show ?thesis using sel by blast
qed

definition two_hosts :: "((s64 \<times> nat) list, byte list) proxy" where
  "two_hosts = addRemoteHost varint_lib alist_table Null [50] 8001 5000 10
     (addRemoteHost varint_lib alist_table Null [49] 8000 5000 10 (proxy_new 0 4))"

lemma two_hosts_sel: "length (px_clients two_hosts) = 2" "px_lbs two_hosts = RoundRobin"
  "px_request_id two_hosts = 0" "px_local_ip two_hosts = []"
  by (simp_all add: two_hosts_def addRemoteHost_def proxy_new_def Let_def)

definition bytes_proxy_api :: "(u32, byte list) proxy_api" where
  "bytes_proxy_api = \<lparr>px_FindMethodByName = (\<lambda>name. if name = [1] then Some 0 else None),
     px_full_name = [77], px_index = (\<lambda>d. d), px_SerializeToString = (\<lambda>m. m),
     px_ParseFromString = (\<lambda>bs m. (True, bs)), px_empty = [],
     px_Hash32 = (\<lambda>bs. of_nat (unat (hd bs)))\<rparr>"

theorem round_robin_fair_witness:
  "select_client bytes_proxy_api [1] 3 two_hosts = Some 1 \<and> select_client bytes_proxy_api [1] 4 two_hosts = Some 0"
proof -
  have "\<forall>i \<in> {3..<3 + 2}. select_client bytes_proxy_api [1] (of_nat i) two_hosts = Some (i mod 2)"
    using round_robin_fair [of two_hosts 2 3 bytes_proxy_api "[1]"] by (simp add: two_hosts_sel)
  from bspec [OF this, of 3] bspec [OF this, of 4] show ?thesis by simp
qed

text \<open>C37: A call in flight went to the host the strategy selects for the next request id: the position
  exists, the id is consumed, and no other host's client changes.\<close>

theorem proxy_call_selected:
  assumes "proxy_CallMethod W T api conn method_n request px = InFlight k px'"
    and "length (px_clients px) < 2 ^ 64"
  shows "k < length (px_clients px) \<and> select_client api method_n (px_request_id px) px = Some k
    \<and> px_request_id px' = px_request_id px + 1
    \<and> (\<forall>j. j \<noteq> k \<longrightarrow> px_clients px' ! j = px_clients px ! j)
    \<and> length (px_clients px') = length (px_clients px)"
proof (rule in_flight [OF assms(1)])
  fix d c s
  assume a: "px_clients px \<noteq> []" "select_client api method_n (px_request_id px) px = Some k"
    and px': "px' = px\<lparr>px_request_id := px_request_id px + 1,
      px_clients := (px_clients px)[k := c\<lparr>rc_client := s\<rparr>]\<rparr>"
  have "k < length (px_clients px)" using select_in_range [OF a(2) _ assms(2)] a(1) by simp
  with a show ?thesis by (simp add: px')
qed

lemma two_hosts_clients:
  "px_clients two_hosts ! 0 = PbRpcClient_new_limits varint_lib alist_table Null [49] 8000 4 10 5000"
  by (simp add: two_hosts_def addRemoteHost_def proxy_new_def Let_def)

lemma two_hosts_call:
  "\<exists>px'. proxy_CallMethod varint_lib alist_table bytes_proxy_api (Some 0) [1] [2] two_hosts = InFlight 0 px'"
proof -
  let ?c = "(PbRpcClient_new_limits varint_lib alist_table Null [49] 8000 4 10 5000)
    \<lparr>rc_pipeline := Ptr 0, rc_connected := True,
     rc_client := setPipeline 0 (rc_client (PbRpcClient_new_limits varint_lib alist_table Null [49] 8000 4 10 5000))\<rparr>"
  have c: "proxy_connect (Some 0) (px_clients two_hosts ! 0) = Some ?c"
    by (simp add: two_hosts_clients proxy_connect_def, simp add: PbRpcClient_new_limits_def)
  have "\<exists>s. dispatcher_call varint_lib alist_table m (rc_client ?c) = Inr s" for m
    by (simp add: dispatcher_call_def call_begin_def limit_reached_def call_send_def setPipeline_def
        PbRpcClient_new_limits_def client_new_def MultiplexClientDispatcher_new_def alist_table_def Let_def)
  then obtain s where "dispatcher_call varint_lib alist_table (build_request varint_lib 0 77 0 [2]) (rc_client ?c) = Inr s"
    by blast
  moreover have "select_client bytes_proxy_api [1] 0 (two_hosts\<lparr>px_request_id := 1\<rparr>) = Some 0"
    by (simp add: select_client_def two_hosts_sel RoundRobin_Select_def)
  moreover have "px_FindMethodByName bytes_proxy_api [1] = Some 0" "px_full_name bytes_proxy_api = [77]"
    "px_Hash32 bytes_proxy_api [77] = 77" "px_index bytes_proxy_api 0 = 0"
    "px_SerializeToString bytes_proxy_api [2] = [2]"
    by (simp_all add: bytes_proxy_api_def)
  ultimately show ?thesis
    using c two_hosts_sel by (simp add: proxy_CallMethod_def Let_def)
qed

theorem proxy_call_selected_witness:
  "\<exists>px'. proxy_CallMethod varint_lib alist_table bytes_proxy_api (Some 0) [1] [2] two_hosts = InFlight 0 px'
     \<and> px_request_id px' = 1"
proof -
  obtain px' where "proxy_CallMethod varint_lib alist_table bytes_proxy_api (Some 0) [1] [2] two_hosts
      = InFlight 0 px'" using two_hosts_call by blast
  with proxy_call_selected [OF this] show ?thesis by (simp add: two_hosts_sel)
qed

text \<open>The proxy reports how a call ended, and nothing else: a response without error gives the
  parsed value, each refusal or timeout of the dispatcher its own exception, any other error the
  general one; an unknown method name or an empty host list fails the future before a request id is
  used.\<close>

theorem proxy_reports_errors:
  "(rm_error Res = NO_ERROR \<longrightarrow>
      proxy_response api Res = Inr (snd (px_ParseFromString api (rm_response Res) (px_empty api))))
   \<and> (rm_error Res \<noteq> NO_ERROR \<longrightarrow> (\<exists>e. proxy_response api Res = Inl e))
   \<and> proxy_response api (local_reply W PENDDING_LIMIT arg) = Inl PENDDING_LIMIT_error
   \<and> proxy_response api (local_reply W TIMEOUT arg) = Inl RESPONSE_TIMEOUT_error
   \<and> proxy_response api (local_reply W INVALID_REQUEST arg) = Inl INVALID_REQUEST_error
   \<and> (px_FindMethodByName api method_n = None \<longrightarrow>
        proxy_CallMethod W T api conn method_n request px = Failed NO_METHOD_error)
   \<and> (px_FindMethodByName api method_n \<noteq> None \<and> px_clients px = [] \<longrightarrow>
        proxy_CallMethod W T api conn method_n request px = Failed NO_AVAILABLE_RPCHOSTS_error)"
  by (auto simp: proxy_response_def proxy_CallMethod_def local_reply_def rpc_accessors)

theorem proxy_reports_errors_witness:
  "proxy_response bytes_proxy_api (set_response [4] (RpcMessage_new varint_lib)) = Inr [4]
   \<and> proxy_CallMethod varint_lib alist_table bytes_proxy_api None [9] [2] two_hosts = Failed NO_METHOD_error"
proof -
  have "rm_error (set_response [4] (RpcMessage_new varint_lib)) = NO_ERROR"
    "rm_response (set_response [4] (RpcMessage_new varint_lib)) = [4]"
    "px_FindMethodByName bytes_proxy_api [9] = None" "px_ParseFromString bytes_proxy_api [4] [] = (True, [4])"
    "px_empty bytes_proxy_api = []"
    by (simp_all add: set_response_def RpcMessage_new_def bytes_proxy_api_def)
  with proxy_reports_errors [of "set_response [4] (RpcMessage_new varint_lib)" bytes_proxy_api varint_lib
      _ "[9]" alist_table None "[2]" two_hosts] show ?thesis by simp
qed

text \<open>The hash strategy is meant to spread clients over the hosts by their local address, but the
  address is never filled in: in every state of a proxy the selection depends on the names of the
  service and of the method alone, so every client machine sends a method's calls to the same
  position. With the random strategy a call with a known method and a host has no defined outcome.\<close>

theorem hash_ignores_client:
  assumes "proxy_reach W T api px"
  shows "(px_lbs px = HASH \<longrightarrow> select_client api method_n i px
      = Some (unat ((ucast (px_Hash32 api (px_full_name api @ method_n)) :: u64)
          mod of_nat (length (px_clients px)))))
    \<and> (px_lbs px = RANDOM \<and> px_FindMethodByName api method_n \<noteq> None \<and> px_clients px \<noteq> [] \<longrightarrow>
        proxy_CallMethod W T api conn method_n request px = Undefined)"
  using proxy_local_ip [OF assms]
  by (auto simp: select_client_def Hash_Select_def Random_Select_def proxy_CallMethod_def Let_def)

theorem hash_ignores_client_witness:
  "select_client bytes_proxy_api [1] 5 (setLBStrategy HASH two_hosts) = Some 1"
proof -
  have r: "proxy_reach varint_lib alist_table bytes_proxy_api (setLBStrategy HASH two_hosts)"
    unfolding two_hosts_def
    by (rule proxy_reach.strategy, rule proxy_reach.host, rule proxy_reach.host, rule proxy_reach.start)
  have "px_Hash32 bytes_proxy_api (px_full_name bytes_proxy_api @ [1]) = 77"
    by (simp add: bytes_proxy_api_def)
  with hash_ignores_client [OF r, of "[1]" 5] show ?thesis
    by (simp add: setLBStrategy_def two_hosts_sel)
qed



end
