(* ===== verification/FutureRpcClientTest.thy ===== *)
theory FutureRpcClientTest
  imports ExampleClients FutureRpcCallProxy
begin

text \<open>
  The example client with futures (\<open>example/FutureRpcClientTest.cc\<close>): two proxies, one per service,
  over the same two hosts, and a loop of a hundred thousand turns with the calls of the other example
  clients. The callback of a call prints its line, or the exception its future carries.
\<close>

section \<open>The program\<close>

definition future_proxy :: "'u wire_lib \<Rightarrow> 'h table_lib \<Rightarrow> nat ptr \<Rightarrow> u32 \<Rightarrow> ('h, 'u) proxy" where
  "future_proxy W T pl cores =
     (let px = proxy_new 0 cores;
          px = addRemoteHost W T pl (str ''127.0.0.1'') 8888 5000 9223372036854775807 px
      in addRemoteHost W T pl (str ''127.0.0.1'') 9999 5000 9223372036854775807 px)"

definition future_method :: "nat \<Rightarrow> example_service \<times> string" where
  "future_method i =
     (if i mod 5 = 0 then (MyService, ''Echo'') else if i mod 5 = 1 then (MyService, ''Add'')
      else if i mod 5 = 2 then (MyService, ''Sub'') else if i mod 5 = 3 then (Service2, ''Mul'')
      else (Service2, ''Div''))"

definition future_request :: "'u wire_lib \<Rightarrow> cpp_env \<Rightarrow> nat \<Rightarrow> 'u example_message" where
  "future_request W E i =
     (if i mod 5 = 0 then EchoReq (set_text (echo_text i) (EchoMsg_new W))
      else if i mod 5 = 1 then OperaReq (set_b (of_nat i) (set_a (of_nat i) (OperaReqMsg_new W)))
      else if i mod 5 = 2 then OperaReq (set_b (of_nat i) (set_a (of_nat (i + i)) (OperaReqMsg_new W)))
      else if i mod 5 = 3 then
        OperaReqF (set_b (int_to_float E (int i)) (set_a (int_to_float E (int i)) (OperaReqMsg_new W)))
      else OperaReqF (set_b (int_to_float E (int i)) (set_a (int_to_float E (int (i + i div 10))) (OperaReqMsg_new W))))"

text \<open>What the proxy of service \<open>s\<close> calls in turn \<open>i\<close>; the last component is the response class the call
  is instantiated with.\<close>

definition future_api ::
    "'u wire_lib \<Rightarrow> text_float_lib \<Rightarrow> (byte list \<Rightarrow> u32) \<Rightarrow> example_service \<Rightarrow> nat
     \<Rightarrow> (example_service \<times> nat, 'u example_message) proxy_api" where
  "future_api W X h s i = \<lparr>
     px_FindMethodByName = (\<lambda>name. map_option (Pair s)
        (find (\<lambda>k. str (service_methods s ! k) = name) [0..<length (service_methods s)])),
     px_full_name = service_full_name s, px_index = (\<lambda>d. of_nat (snd d)),
     px_SerializeToString = message_serialize W X, px_ParseFromString = message_parse W X,
     px_empty = client_response W i, px_Hash32 = h\<rparr>"

definition future_call ::
    "'u wire_lib \<Rightarrow> 'h table_lib \<Rightarrow> text_float_lib \<Rightarrow> cpp_env \<Rightarrow> (byte list \<Rightarrow> u32) \<Rightarrow> nat option \<Rightarrow> nat
     \<Rightarrow> ('h, 'u) proxy \<Rightarrow> ('h, 'u) proxy_call" where
  "future_call W T X E h conn i px =
     proxy_CallMethod W T (future_api W X h (fst (future_method i)) i) conn (str (snd (future_method i)))
       (future_request W E i) px"

text \<open>What the continuations print: a line, or the exception.\<close>

definition future_callback ::
    "'u wire_lib \<Rightarrow> text_float_lib \<Rightarrow> cpp_env \<Rightarrow> (byte list \<Rightarrow> u32) \<Rightarrow> nat \<Rightarrow> 'u RpcMessage \<Rightarrow> future_error + line" where
  "future_callback W X E h i Res =
     (case proxy_response (future_api W X h (fst (future_method i)) i) Res of
        Inl e \<Rightarrow> Inl e | Inr res \<Rightarrow> Inr (printed i (future_request W E i) res))"

text \<open>\<open>main\<close> at turn \<open>i\<close>: the two proxies, for every call made the host it went to and its promise
  there, and what has been printed.\<close>

record ('h, 'u) future_state =
  fs_proxy :: "example_service \<Rightarrow> ('h, 'u) proxy"
  fs_futures :: "nat \<Rightarrow> (nat \<times> nat) option"
  fs_out :: "(nat \<times> (future_error + line)) list"

inductive future_run ::
  "'u wire_lib \<Rightarrow> 'h table_lib \<Rightarrow> text_float_lib \<Rightarrow> cpp_env \<Rightarrow> (byte list \<Rightarrow> u32)
   \<Rightarrow> nat \<Rightarrow> ('h, 'u) future_state \<Rightarrow> bool" for W T X E h where
  start: "future_run W T X E h 0 \<lparr>fs_proxy = (\<lambda>s. future_proxy W T (pl s) cores), fs_futures = (\<lambda>_. None), fs_out = []\<rparr>"
| network: "\<lbrakk>future_run W T X E h i st; j < length (px_clients (fs_proxy st s));
     network_step W T X E h (px_clients (fs_proxy st s) ! j) c\<rbrakk> \<Longrightarrow>
     future_run W T X E h i (st\<lparr>fs_proxy := (fs_proxy st)(s := (fs_proxy st s)
       \<lparr>px_clients := (px_clients (fs_proxy st s))[j := c]\<rparr>)\<rparr>)"
| call: "\<lbrakk>future_run W T X E h i st; i < 100000; s = fst (future_method i);
     future_call W T X E h conn i (fs_proxy st s) = InFlight k px\<rbrakk> \<Longrightarrow>
     future_run W T X E h (Suc i) (st\<lparr>fs_proxy := (fs_proxy st)(s := px),
       fs_futures := (fs_futures st)(i \<mapsto> (k, cl_calls (rc_client (px_clients (fs_proxy st s) ! k))))\<rparr>)"
| callback: "\<lbrakk>future_run W T X E h i st; fs_futures st p = Some (k, q); p \<notin> fst ` set (fs_out st);
     cl_result (rc_client (px_clients (fs_proxy st (fst (future_method p))) ! k)) q = Some Res\<rbrakk> \<Longrightarrow>
     future_run W T X E h i (st\<lparr>fs_out := fs_out st @ [(p, future_callback W X E h p Res)]\<rparr>)"

section \<open>The calls are those of the other clients\<close>

lemma future_request_same: "future_request W E i = client_request W E i"
  by (simp add: future_request_def client_request_def mult_2_right)

lemma future_method_same: "fst (future_method i) = fst (client_method i)"
  "px_FindMethodByName (future_api W X h (fst (future_method i)) i) (str (snd (future_method i)))
    = Some (client_method i)"
  by (cases i rule: mod_5_cases; simp add: future_method_def client_method_def)
    (cases i rule: mod_5_cases; simp add: future_method_def client_method_def future_api_def str_def)

section \<open>The script of a host\<close>

text \<open>The proxy of a service numbers its calls; call \<open>n\<close> belongs to turn \<open>turn_of s n\<close>, and host \<open>j\<close> gets the
  calls with the numbers \<open>j\<close>, \<open>j + 2\<close>, \<open>\<dots>\<close>\<close>

fun turn_of :: "example_service \<Rightarrow> nat \<Rightarrow> nat" where
  "turn_of MyService n = 5 * (n div 3) + n mod 3"
| "turn_of Service2 n = 5 * (n div 2) + 3 + n mod 2"

fun calls_before :: "example_service \<Rightarrow> nat \<Rightarrow> nat" where
  "calls_before MyService i = 3 * (i div 5) + min (i mod 5) 3"
| "calls_before Service2 i = 2 * (i div 5) + (if i mod 5 = 4 then 1 else 0)"

lemma calls_before_Suc:
  "calls_before s (Suc i) = (if fst (future_method i) = s then Suc (calls_before s i) else calls_before s i)"
proof -
  have "Suc i div 5 = (if i mod 5 = 4 then Suc (i div 5) else i div 5)"
    "Suc i mod 5 = (if i mod 5 = 4 then 0 else Suc (i mod 5))" by presburger+
  then show ?thesis
    by (cases s; cases i rule: mod_5_cases) (simp_all add: future_method_def)
qed

lemma small_quotients: "Suc (3 * x) div 3 = x" "Suc (Suc (3 * x)) div 3 = x" "Suc (2 * x) div 2 = x"
  "Suc (3 * x) mod 3 = 1" "Suc (Suc (3 * x)) mod 3 = 2" "Suc (2 * x) mod 2 = (1 :: nat)"
  "Suc (Suc (5 * x)) div 5 = x" "Suc (Suc (5 * x)) mod 5 = 2"
  by presburger+

lemma turn_of_call: "turn_of (fst (future_method i)) (calls_before (fst (future_method i)) i) = i"
proof -
  obtain x r where i: "i = 5 * x + r" "r < 5" by (metis mod_less_divisor mult_div_mod_eq zero_less_numeral)
  then have q: "i div 5 = x" "i mod 5 = r" by simp_all
  from i(2) have "r = 0 \<or> r = 1 \<or> r = 2 \<or> r = 3 \<or> r = 4" by linarith
  then show ?thesis
    by (elim disjE) (simp_all add: future_method_def q i(1) small_quotients)
qed

lemma calls_before_le: "calls_before s i \<le> i"
  by (cases s) (simp_all add: min_def, presburger+)

definition fsent ::
    "'u wire_lib \<Rightarrow> text_float_lib \<Rightarrow> cpp_env \<Rightarrow> (byte list \<Rightarrow> u32) \<Rightarrow> example_service \<Rightarrow> nat \<Rightarrow> 'u RpcMessage" where
  "fsent W X E h s n = build_request W (of_nat n) (h (service_full_name s))
     (of_nat (snd (client_method (turn_of s n)))) (message_serialize W X (client_request W E (turn_of s n)))"

definition host_script ::
    "'u wire_lib \<Rightarrow> text_float_lib \<Rightarrow> cpp_env \<Rightarrow> (byte list \<Rightarrow> u32) \<Rightarrow> example_service \<Rightarrow> nat \<Rightarrow> nat \<Rightarrow> 'u RpcMessage" where
  "host_script W X E h s j p = fsent W X E h s (2 * p + j)"

definition host_answer ::
    "'u wire_lib \<Rightarrow> text_float_lib \<Rightarrow> cpp_env \<Rightarrow> (byte list \<Rightarrow> u32) \<Rightarrow> example_service \<Rightarrow> nat \<Rightarrow> nat \<Rightarrow> 'u RpcMessage" where
  "host_answer W X E h s j p =
     answer_to W X E h (client_method (turn_of s (2 * p + j))) (host_script W X E h s j p)"

lemma service_of_turn: "fst (client_method (turn_of s n)) = s"
proof -
  have "n mod 3 < 3" "n mod 2 < 2" by simp_all
  then have "n mod 3 mod 5 = n mod 3" "(3 + n mod 2) mod 5 = 3 + n mod 2" by simp_all
  then have "turn_of s n mod 5 = (case s of MyService \<Rightarrow> n mod 3 | Service2 \<Rightarrow> 3 + n mod 2)"
    by (cases s) (simp_all add: add.assoc)
  with \<open>n mod 3 < 3\<close> show ?thesis by (cases s) (auto simp: client_method_def)
qed

lemma fsent_sel:
  "rm_id (fsent W X E h s n) = of_nat n" "rm_serviceid (fsent W X E h s n) = h (service_full_name s)"
  "unat (rm_methodid (fsent W X E h s n)) = snd (client_method (turn_of s n))"
  "rm_request (fsent W X E h s n) = message_serialize W X (client_request W E (turn_of s n))"
  by (simp_all add: fsent_def build_request_def rpc_accessors client_method_def
      del: message_serialize.simps service_full_name.simps turn_of.simps)

lemma host_scripted:
  assumes "promise_map T" "j < 2"
  shows "scripted_client T (host_script W X E h s j) (host_answer W X E h s j) 100000"
proof -
  have "p = q" if "p < 100000" "q < 100000" "(of_nat (2 * p + j) :: s64) = of_nat (2 * q + j)" for p q
    using same_id [OF that(3)] that(1,2) assms(2) by simp
  with assms(1) show ?thesis
    by (simp add: scripted_client_def scripted_client_axioms_def host_script_def host_answer_def answer_to_sel fsent_sel
        del: of_nat_add of_nat_mult)
qed

section \<open>The invariant\<close>

definition proxy_inv ::
    "'u wire_lib \<Rightarrow> 'h table_lib \<Rightarrow> text_float_lib \<Rightarrow> cpp_env \<Rightarrow> (byte list \<Rightarrow> u32) \<Rightarrow> example_service \<Rightarrow> nat
     \<Rightarrow> ('h, 'u) proxy \<Rightarrow> bool" where
  "proxy_inv W T X E h s n px \<longleftrightarrow> px_lbs px = RoundRobin \<and> length (px_clients px) = 2 \<and> px_request_id px = of_nat n
     \<and> n \<le> 100000
     \<and> (\<forall>j < 2. scripted W T 9223372036854775807 5000 (host_script W X E h s j) (host_answer W X E h s j)
          ((n + 1 - j) div 2) (rc_client (px_clients px ! j)))"

lemma proxy_start: "proxy_inv W T X E h s 0 (future_proxy W T pl cores)"
  by (auto simp: proxy_inv_def future_proxy_def addRemoteHost_def proxy_new_def Let_def less_2_cases_iff
      PbRpcClient_new_limits_def intro: scripted_start)

lemma proxy_network:
  assumes "promise_map T" "h (service_full_name MyService) \<noteq> h (service_full_name Service2)"
    and inv: "proxy_inv W T X E h s n px" and j: "j < length (px_clients px)"
    and step: "network_step W T X E h (px_clients px ! j) c"
  shows "proxy_inv W T X E h s n (px\<lparr>px_clients := (px_clients px)[j := c]\<rparr>)"
proof -
  have j2: "j < 2" and run: "scripted W T 9223372036854775807 5000 (host_script W X E h s j) (host_answer W X E h s j)
      ((n + 1 - j) div 2) (rc_client (px_clients px ! j))" and n: "n \<le> 100000"
    using inv j by (auto simp: proxy_inv_def)
  have serve: "res\<lparr>rm_cached_size := 0\<rparr> = host_answer W X E h s j q"
    if "server_reach W (example_api W X E h) [MyService, Service2] k srv"
      "RpcMsgService_call W (example_api W X E h) (host_script W X E h s j q) srv = Inr (res, srv')" for q k srv res srv'
    unfolding host_answer_def
    by (rule server_answer [OF assms(2) that]) (simp_all add: host_script_def fsent_sel service_of_turn)
  have le: "(n + 1 - j) div 2 \<le> 100000" using n by simp
  have "scripted W T 9223372036854775807 5000 (host_script W X E h s j) (host_answer W X E h s j)
      ((n + 1 - j) div 2) (rc_client c)"
    by (rule conjunct1 [OF scripted_network [OF host_scripted [OF assms(1) j2] step run le]]) (rule serve)
  with inv j show ?thesis by (auto simp: proxy_inv_def nth_list_update)
qed

lemma proxy_call:
  assumes "promise_map T" and inv: "proxy_inv W T X E h s n px" and n: "n < 100000"
    and call: "future_call W T X E h conn i px = InFlight k px'"
    and i: "s = fst (future_method i)" "n = calls_before s i"
  shows "proxy_inv W T X E h s (Suc n) px' \<and> k = n mod 2 \<and> cl_calls (rc_client (px_clients px ! k)) = n div 2"
proof (rule in_flight [OF call [unfolded future_call_def]])
  fix d c s'
  assume find: "px_FindMethodByName (future_api W X h (fst (future_method i)) i) (str (snd (future_method i))) = Some d"
    and sel: "select_client (future_api W X h (fst (future_method i)) i) (str (snd (future_method i))) (px_request_id px) px = Some k"
    and conn: "proxy_connect conn (px_clients px ! k) = Some c"
    and disp: "dispatcher_call W T (build_request W (px_request_id px) (px_Hash32 (future_api W X h (fst (future_method i)) i)
        (px_full_name (future_api W X h (fst (future_method i)) i))) (px_index (future_api W X h (fst (future_method i)) i) d)
        (px_SerializeToString (future_api W X h (fst (future_method i)) i) (future_request W E i))) (rc_client c) = Inr s'"
    and px': "px' = px\<lparr>px_request_id := px_request_id px + 1, px_clients := (px_clients px)[k := c\<lparr>rc_client := s'\<rparr>]\<rparr>"
  have p: "px_lbs px = RoundRobin" "length (px_clients px) = 2" "px_request_id px = of_nat n"
    "\<And>j. j < 2 \<Longrightarrow> scripted W T 9223372036854775807 5000 (host_script W X E h s j) (host_answer W X E h s j)
          ((n + 1 - j) div 2) (rc_client (px_clients px ! j))"
    using inv by (simp_all add: proxy_inv_def)
  have "n < 2 ^ 64" using n by simp
  then have "select_client (future_api W X h (fst (future_method i)) i) (str (snd (future_method i)))
      (px_request_id px) px = Some (n mod 2)"
    using select_round_robin [OF p(1), of n "future_api W X h (fst (future_method i)) i" "str (snd (future_method i))"]
    unfolding p(2,3) by simp
  with sel have k: "k = n mod 2" by simp
  then have k2: "k < 2" and count: "(n + 1 - k) div 2 = n div 2" "2 * (n div 2) + k = n" by (simp, presburger, simp)
  have d: "d = client_method i" using find future_method_same(2) [of W X h i] by simp
  have t: "turn_of s n = i" unfolding i by (rule turn_of_call)
  have script: "host_script W X E h s k (n div 2) = fsent W X E h s n" by (simp add: host_script_def count(2))
  have run: "scripted W T 9223372036854775807 5000 (host_script W X E h s k) (host_answer W X E h s k) (n div 2) (rc_client c)"
    using p(4) [OF k2] conn unfolding count(1)
    by (auto simp: proxy_connect_def scripted_pipeline split: if_splits option.splits)
  have "dispatcher_call W T (host_script W X E h s k (n div 2)) (rc_client c) = Inr s'"
    using disp by (simp add: script fsent_def future_api_def p(3) d t future_request_same i(1) [symmetric])
  from scripted_client.scripted_call [OF host_scripted [OF assms(1) k2] run this]
  have new: "scripted W T 9223372036854775807 5000 (host_script W X E h s k) (host_answer W X E h s k) (Suc (n div 2)) s'" .
  have ck: "(n + 2 - k) div 2 = Suc (n div 2)" unfolding k by presburger
  have other: "(n + 2 - j) div 2 = (n + 1 - j) div 2" if "j < 2" "j \<noteq> k" for j
    using that unfolding k by presburger
  have "proxy_inv W T X E h s (Suc n) px'"
    unfolding proxy_inv_def
  proof (intro conjI allI impI)
    fix j :: nat assume j: "j < 2"
    show "scripted W T 9223372036854775807 5000 (host_script W X E h s j) (host_answer W X E h s j)
        ((Suc n + 1 - j) div 2) (rc_client (px_clients px' ! j))"
    proof (cases "j = k")
      case True
      with new ck k2 p(2) show ?thesis by (simp add: px')
    next
      case False
      with p(4) [OF j] other [OF j False] show ?thesis by (simp add: px')
    qed
  qed (use p n in \<open>simp_all add: px' add.commute\<close>)
  moreover have "cl_calls (rc_client (px_clients px ! k)) = n div 2"
    using scriptedD(2) [OF p(4) [OF k2]] by (simp only: count(1))
  ultimately show ?thesis using k by simp
qed

definition future_errors :: "(future_error + line) set" where
  "future_errors = {Inl PENDDING_LIMIT_error, Inl INVALID_REQUEST_error, Inl RESPONSE_TIMEOUT_error}"

definition run_inv ::
    "'u wire_lib \<Rightarrow> 'h table_lib \<Rightarrow> text_float_lib \<Rightarrow> cpp_env \<Rightarrow> (byte list \<Rightarrow> u32) \<Rightarrow> nat \<Rightarrow> ('h, 'u) future_state \<Rightarrow> bool" where
  "run_inv W T X E h i st \<longleftrightarrow> i \<le> 100000
     \<and> (\<forall>s. proxy_inv W T X E h s (calls_before s i) (fs_proxy st s))
     \<and> (\<forall>p k q. fs_futures st p = Some (k, q) \<longrightarrow> p < i
          \<and> k = calls_before (fst (future_method p)) p mod 2 \<and> q = calls_before (fst (future_method p)) p div 2)
     \<and> distinct (map fst (fs_out st))
     \<and> (\<forall>p r. (p, r) \<in> set (fs_out st) \<longrightarrow> p < i \<and> (r = Inr (good_line E p) \<or> r \<in> future_errors))"

lemma run_invD:
  assumes "run_inv W T X E h i st"
  shows "i \<le> 100000" "proxy_inv W T X E h s (calls_before s i) (fs_proxy st s)"
    "fs_futures st p = Some (k, q) \<Longrightarrow> p < i
       \<and> k = calls_before (fst (future_method p)) p mod 2 \<and> q = calls_before (fst (future_method p)) p div 2"
    "distinct (map fst (fs_out st))"
    "(p, r) \<in> set (fs_out st) \<Longrightarrow> p < i \<and> (r = Inr (good_line E p) \<or> r \<in> future_errors)"
  using assms unfolding run_inv_def by blast+

lemma callback_cases:
  assumes "promise_map T" "example_wire W X" "proxy_inv W T X E h s n px" "p < 1000000"
    and "s = fst (future_method p)"
    and "cl_result (rc_client (px_clients px ! (calls_before s p mod 2))) (calls_before s p div 2) = Some Res"
  shows "future_callback W X E h p Res = Inr (good_line E p) \<or> future_callback W X E h p Res \<in> future_errors"
proof -
  let ?j = "calls_before s p mod 2" let ?q = "calls_before s p div 2"
  have j: "?j < 2" "2 * ?q + ?j = calls_before s p" by simp_all
  have t: "turn_of s (calls_before s p) = p" unfolding assms(5) by (rule turn_of_call)
  have run: "scripted W T 9223372036854775807 5000 (host_script W X E h s ?j) (host_answer W X E h s ?j)
      ((n + 1 - ?j) div 2) (rc_client (px_clients px ! ?j))"
    using assms(3) j(1) by (auto simp: proxy_inv_def)
  from scripted_client.result_cases [OF host_scripted [OF assms(1) j(1)] run assms(6)]
  consider "Res = host_answer W X E h s ?j ?q"
    | e arg where "e \<in> {PENDDING_LIMIT, INVALID_REQUEST, TIMEOUT}" "Res = local_reply W e arg"
    by (auto split: if_splits)
  then show ?thesis
  proof cases
    case 1
    then have "rm_error Res = NO_ERROR" "rm_response Res = reply (example_api W X E h) (fst (client_method p))
        (snd (client_method p)) (message_serialize W X (client_request W E p))"
      by (simp_all add: host_answer_def answer_to_sel host_script_def fsent_sel j(2) t)
    then have "future_callback W X E h p Res = Inr (good_line E p)"
      using example_wire.printed_good [OF assms(2,4), of E h]
      by (simp add: future_callback_def proxy_response_def future_api_def future_request_same Let_def)
    then show ?thesis ..
  next
    case 2
    then show ?thesis
      by (auto simp: future_callback_def proxy_response_def local_reply_def rpc_accessors future_errors_def)
  qed
qed

lemma future_run_inv:
  assumes "promise_map T" "example_wire W X" "h (service_full_name MyService) \<noteq> h (service_full_name Service2)"
    and "future_run W T X E h i st"
  shows "run_inv W T X E h i st"
  using assms(4)
proof (induction rule: future_run.induct)
  case (start pl cores)
  have "calls_before s 0 = 0" for s by (cases s) simp_all
  then show ?case by (simp add: run_inv_def proxy_start del: calls_before.simps)
next
  case (network i st j s c)
  note inv = run_invD [OF network.IH]
  have "proxy_inv W T X E h s (calls_before s i) ((fs_proxy st s)\<lparr>px_clients := (px_clients (fs_proxy st s))[j := c]\<rparr>)"
    by (rule proxy_network [OF assms(1,3) inv(2) network.hyps(2,3)])
  with network.IH show ?case by (auto simp: run_inv_def)
next
  case (call i st s conn k px)
  note inv = run_invD [OF call.IH]
  have "calls_before s i < 100000" using calls_before_le [of s i] call.hyps(2) by simp
  from proxy_call [OF assms(1) inv(2) this call.hyps(4,3) refl]
  have new: "proxy_inv W T X E h s (calls_before s (Suc i)) px" "k = calls_before s i mod 2"
    "cl_calls (rc_client (px_clients (fs_proxy st s) ! k)) = calls_before s i div 2"
    by (simp_all add: calls_before_Suc call.hyps(3)) blast+
  have "proxy_inv W T X E h s' (calls_before s' (Suc i)) (fs_proxy st s')" if "s' \<noteq> s" for s'
    using inv(2) [of s'] that by (simp add: calls_before_Suc call.hyps(3))
  with new(1) have "\<forall>s'. proxy_inv W T X E h s' (calls_before s' (Suc i)) (((fs_proxy st)(s := px)) s')" by simp
  then show ?case
    unfolding run_inv_def
    using inv(3-5) call.hyps(2,3) new(2,3) by (auto simp: less_Suc_eq simp del: calls_before.simps dest!: inv(3) inv(5))
next
  case (callback i st p k q Res)
  note inv = run_invD [OF callback.IH]
  from inv(3) [OF callback.hyps(2)] inv(1) have p: "p < i" "p < 1000000"
    "k = calls_before (fst (future_method p)) p mod 2" "q = calls_before (fst (future_method p)) p div 2" by simp_all
  have "future_callback W X E h p Res = Inr (good_line E p) \<or> future_callback W X E h p Res \<in> future_errors"
    by (rule callback_cases [OF assms(1,2) inv(2) p(2) refl]) (use callback.hyps(4) p(3,4) in simp)
  with callback.IH callback.hyps(3) p(1) show ?case by (auto simp: run_inv_def)
qed

section \<open>A first turn\<close>

lemma future_call_started:
  assumes "proxy_connect conn (px_clients px ! k) = Some c" "px_clients px \<noteq> []"
    and "select_client (future_api W X h (fst (future_method i)) i) (str (snd (future_method i))) (px_request_id px) px = Some k"
    and "dispatcher_call W T (build_request W (px_request_id px) (h (service_full_name (fst (client_method i))))
      (of_nat (snd (client_method i))) (message_serialize W X (client_request W E i))) (rc_client c) = Inr s"
  shows "future_call W T X E h conn i px = InFlight k
    (px\<lparr>px_request_id := px_request_id px + 1, px_clients := (px_clients px)[k := c\<lparr>rc_client := s\<rparr>]\<rparr>)"
proof -
  have sel: "select_client api m r (px\<lparr>px_request_id := q\<rparr>) = select_client api m r px"
    for api :: "(example_service \<times> nat, 'b example_message) proxy_api" and m r q
    by (simp add: select_client_def)
  have "px_full_name (future_api W X h s i) = service_full_name s" "px_Hash32 (future_api W X h s i) = h"
    "px_index (future_api W X h s i) d = of_nat (snd d)"
    "px_SerializeToString (future_api W X h s i) = message_serialize W X" for s d
    by (simp_all add: future_api_def)
  then show ?thesis
    using assms by (simp add: future_call_def proxy_CallMethod_def Let_def future_method_same(1)
        future_method_same(2) [unfolded future_method_same(1)] future_request_same sel
        del: message_serialize.simps service_full_name.simps)
qed

lemma first_future:
  assumes T: "promise_map T" and h: "h (service_full_name MyService) \<noteq> h (service_full_name Service2)"
  shows "\<exists>px px' c m. px = future_proxy W T Null 4
    \<and> future_call W T X E h (Some 0) 0 px = InFlight 0 px' \<and> cl_calls (rc_client (px_clients px ! 0)) = 0
    \<and> 0 < length (px_clients px') \<and> network_step W T X E h (px_clients px' ! 0) c
    \<and> cl_result (rc_client c) 0 = Some m"
proof -
  let ?px = "future_proxy W T Null 4 :: ('a, 'b) proxy" let ?req = "fsent W X E h MyService 0"
  have px: "px_clients ?px ! 0 = PbRpcClient_new_limits W T Null (str ''127.0.0.1'') 8888 4 9223372036854775807 5000"
    "length (px_clients ?px) = 2" "px_request_id ?px = 0" "px_lbs ?px = RoundRobin"
    by (simp_all add: future_proxy_def addRemoteHost_def proxy_new_def Let_def)
  obtain c where c: "proxy_connect (Some 0) (px_clients ?px ! 0) = Some c"
    "rc_client c = setPipeline 0 (client_new W (MultiplexClientDispatcher_new T 9223372036854775807 5000 Null))"
    by (simp add: proxy_connect_def px(1)) (simp add: PbRpcClient_new_limits_def)
  have r: "client_reach W T 9223372036854775807 5000 (rc_client c)"
    unfolding c(2) by (rule client_reach.connected [OF client_reach.start])
  have e: "client_entries T (rc_client c) = Map.empty" "cd_pipeline (cl_disp (rc_client c)) = Ptr 0"
    "cl_calls (rc_client c) = 0" "cl_written (rc_client c) = []"
    by (simp_all add: c(2) setPipeline_def client_new_def client_entries_def MultiplexClientDispatcher_new_def
        promise_map.entries_empty [OF T])
  obtain s0 where s0: "dispatcher_call W T ?req (rc_client c) = Inr s0" "cl_written s0 = [?req]"
    "client_entries T s0 0 = Some 0"
    using promise_map.call_sent [OF T promise_map.reach_inv [OF T r], of ?req 0] by (auto simp: e fsent_sel)
  have first: "fst (client_method 0) = MyService" "turn_of MyService 0 = 0" by (simp_all add: client_method_def)
  let ?c = "c\<lparr>rc_client := s0\<rparr>" let ?px' = "?px\<lparr>px_request_id := 1, px_clients := (px_clients ?px)[0 := ?c]\<rparr>"
  have "select_client (future_api W X h (fst (future_method 0)) 0) (str (snd (future_method 0))) 0 ?px = Some 0"
    using select_round_robin [OF px(4), of 0] by (simp add: px(2))
  moreover have "px_clients ?px \<noteq> []" using px(2) by auto
  ultimately have call: "future_call W T X E h (Some 0) 0 ?px = InFlight 0 ?px'"
    using future_call_started [OF c(1), of W X h 0 T E s0] s0(1) px(2,3) first
    by (simp add: fsent_def del: message_serialize.simps service_full_name.simps)
  let ?srv = "fst (server_main (example_api W X E h) MyService Service2 [])"
  have sid: "rm_serviceid ?req = h (service_full_name (fst (client_method 0)))"
    "unat (rm_methodid ?req) = snd (client_method 0)"
    by (simp_all add: fsent_sel client_method_def del: service_full_name.simps)
  obtain res srv' where served: "RpcMsgService_call W (example_api W X E h) ?req ?srv = Inr (res, srv')"
    and res: "res\<lparr>rm_cached_size := 0\<rparr> = answer_to W X E h (client_method 0) ?req"
    using main_serves [OF h sid client_methods] by blast
  have "client_entries T s0 (rm_id (res\<lparr>rm_cached_size := 0\<rparr>)) = Some 0"
    by (simp add: res answer_to_sel fsent_sel s0(3))
  from promise_map.read_known [OF T promise_map.reach_inv [OF T client_reach.call [OF r s0(1)]] this] obtain s where
    s: "dispatcher_read T (res\<lparr>rm_cached_size := 0\<rparr>) s0 = Inr s" "cl_result s 0 \<noteq> None" by auto
  have "network_step W T X E h ?c (?c\<lparr>rc_client := s\<rparr>)"
    by (rule network_step.read [OF _ main_reach served]) (simp_all add: s0(2) s(1))
  moreover have "cl_calls (rc_client (px_clients ?px ! 0)) = 0"
    by (simp add: px(1)) (simp add: PbRpcClient_new_limits_def client_new_def)
  moreover obtain m where "cl_result s 0 = Some m" using s(2) by blast
  ultimately show ?thesis using call px(2)
    by (intro exI [of _ ?px] exI [of _ ?px'] exI [of _ "?c\<lparr>rc_client := s\<rparr>"] exI [of _ m]) simp
qed

section \<open>The client is never stuck\<close>

text \<open>A host that is connected has its pipeline; one that is not is connected by the next call.\<close>

definition host_ready :: "('h, 'u) rpc_client \<Rightarrow> bool" where
  "host_ready c \<longleftrightarrow> \<not> rc_connected c \<or> (\<exists>pl. cd_pipeline (cl_disp (rc_client c)) = Ptr pl)"

definition hosts_ready :: "('h, 'u) proxy \<Rightarrow> bool" where
  "hosts_ready px \<longleftrightarrow> list_all host_ready (px_clients px)"

lemma proxy_next_call:
  assumes T: "promise_map T" and inv: "proxy_inv W T X E h s n px" and n: "n < 100000"
    and ready: "hosts_ready px" and i: "s = fst (future_method i)" "n = calls_before s i"
  shows "\<exists>k px'. future_call W T X E h (Some 0) i px = InFlight k px' \<and> hosts_ready px'"
proof -
  let ?k = "n mod 2" let ?api = "future_api W X h (fst (future_method i)) i"
  have p: "px_lbs px = RoundRobin" "length (px_clients px) = 2" "px_request_id px = of_nat n"
    "scripted W T 9223372036854775807 5000 (host_script W X E h s ?k) (host_answer W X E h s ?k)
          ((n + 1 - ?k) div 2) (rc_client (px_clients px ! ?k))"
    using inv by (simp_all add: proxy_inv_def)
  have count: "(n + 1 - ?k) div 2 = n div 2" by presburger
  have t: "turn_of s n = i" unfolding i by (rule turn_of_call)
  have rk: "host_ready (px_clients px ! ?k)" using ready p(2) by (simp add: hosts_ready_def list_all_length)
  obtain c pl where c: "proxy_connect (Some 0) (px_clients px ! ?k) = Some c"
    "cd_pipeline (cl_disp (rc_client c)) = Ptr pl"
    and same: "rc_client c = rc_client (px_clients px ! ?k) \<or> (\<exists>p. rc_client c = setPipeline p (rc_client (px_clients px ! ?k)))"
  proof (cases "rc_connected (px_clients px ! ?k)")
    case True
    with rk that show ?thesis by (auto simp: proxy_connect_def host_ready_def)
  next
    case False
    let ?c = "(px_clients px ! ?k)\<lparr>rc_pipeline := Ptr 0, rc_connected := True,
      rc_client := setPipeline 0 (rc_client (px_clients px ! ?k))\<rparr>"
    have "proxy_connect (Some 0) (px_clients px ! ?k) = Some ?c" using False by (simp add: proxy_connect_def)
    moreover have "cd_pipeline (cl_disp (rc_client ?c)) = Ptr 0" by (simp add: setPipeline_def)
    moreover have "\<exists>p. rc_client ?c = setPipeline p (rc_client (px_clients px ! ?k))" by auto
    ultimately show ?thesis using that by blast
  qed
  have run: "scripted W T 9223372036854775807 5000 (host_script W X E h s ?k) (host_answer W X E h s ?k) (n div 2) (rc_client c)"
    using p(4) same unfolding count by (auto simp: scripted_pipeline)
  note sc = scriptedD [OF run]
  have ci: "client_inv W T 9223372036854775807 5000 (rc_client c)" by (rule promise_map.reach_inv [OF T sc(1)])
  have req: "build_request W (px_request_id px) (h (service_full_name (fst (client_method i))))
      (of_nat (snd (client_method i))) (message_serialize W X (client_request W E i)) = fsent W X E h s n"
    unfolding fsent_def p(3) t by (simp only: i(1) future_method_same(1))
  have "client_entries T (rc_client c) (rm_id (fsent W X E h s n)) \<noteq> Some q" for q
  proof
    assume "client_entries T (rc_client c) (rm_id (fsent W X E h s n)) = Some q"
    then have q: "q < n div 2" "rm_id (cl_arg (rc_client c) q) = of_nat n"
      using client_invD(1) [OF ci] sc(2) by (auto simp: pending_def fsent_sel)
    then have "(of_nat (2 * q + ?k) :: s64) = of_nat n"
      using sc(3) [OF q(1)] by (simp only: host_script_def fsent_sel)
    then have "2 * q + ?k = n" using q(1) n by (intro same_id) auto
    with q(1) show False by presburger
  qed
  then have new: "client_entries T (rc_client c) (rm_id (fsent W X E h s n)) = None" by blast
  have few: "card (dom (client_entries T (rc_client c))) < unat (9223372036854775807 :: u64)"
    using few_entries [OF ci] sc(2) n by simp
  obtain s' where s': "dispatcher_call W T (fsent W X E h s n) (rc_client c) = Inr s'"
    using promise_map.call_sent [OF T ci few new c(2)] by blast
  have ne: "px_clients px \<noteq> []" using p(2) by auto
  have sel: "select_client ?api (str (snd (future_method i))) (px_request_id px) px = Some ?k"
    using select_round_robin [OF p(1), of n ?api "str (snd (future_method i))"] n unfolding p(2,3) by simp
  from future_call_started [OF c(1) ne sel, where T = T and E = E and s = s'] s'
  have call: "future_call W T X E h (Some 0) i px = InFlight ?k
    (px\<lparr>px_request_id := px_request_id px + 1, px_clients := (px_clients px)[?k := c\<lparr>rc_client := s'\<rparr>]\<rparr>)"
    unfolding req by blast
  have "host_ready (c\<lparr>rc_client := s'\<rparr>)" using call_changes(6) [OF s'] c(2) by (simp add: host_ready_def)
  with ready have "hosts_ready (px\<lparr>px_request_id := px_request_id px + 1, px_clients := (px_clients px)[?k := c\<lparr>rc_client := s'\<rparr>]\<rparr>)"
    by (auto simp: hosts_ready_def list_all_iff dest!: set_update_subset_insert [THEN subsetD])
  with call show ?thesis by blast
qed

definition all_ready :: "('h, 'u) future_state \<Rightarrow> bool" where
  "all_ready st \<longleftrightarrow> (\<forall>s. hosts_ready (fs_proxy st s))"

lemma futures_made: "future_run W T X E h i st \<Longrightarrow> dom (fs_futures st) = {..<i}"
  by (induction rule: future_run.induct) (simp_all add: lessThan_Suc del: fun_upd_apply)

lemma future_calls_sent:
  assumes T: "promise_map T" "example_wire W X" "h (service_full_name MyService) \<noteq> h (service_full_name Service2)"
  shows "\<lbrakk>future_run W T X E h i st; all_ready st; i \<le> 100000\<rbrakk> \<Longrightarrow>
    \<exists>st'. future_run W T X E h 100000 st' \<and> all_ready st' \<and> fs_out st' = fs_out st"
proof (induction "100000 - i" arbitrary: i st)
  case 0
  then have "i = 100000" by simp
  with 0 show ?case by blast
next
  case (Suc k)
  then have i: "i < 100000" by simp
  let ?s = "fst (future_method i)"
  have inv: "proxy_inv W T X E h ?s (calls_before ?s i) (fs_proxy st ?s)"
    by (rule run_invD(2) [OF future_run_inv [OF T Suc.prems(1)]])
  have "calls_before ?s i < 100000" using calls_before_le [of ?s i] i by simp
  from proxy_next_call [OF T(1) inv this _ refl refl] Suc.prems(2) obtain l px' where
    px': "future_call W T X E h (Some 0) i (fs_proxy st ?s) = InFlight l px'" "hosts_ready px'"
    by (auto simp: all_ready_def)
  let ?st = "st\<lparr>fs_proxy := (fs_proxy st)(?s := px'),
    fs_futures := (fs_futures st)(i \<mapsto> (l, cl_calls (rc_client (px_clients (fs_proxy st ?s) ! l))))\<rparr>"
  have "future_run W T X E h (Suc i) ?st" by (rule future_run.call [OF Suc.prems(1) i refl px'(1)])
  moreover have "all_ready ?st" using Suc.prems(2) px'(2) by (simp add: all_ready_def)
  moreover have "k = 100000 - Suc i" "Suc i \<le> 100000" using Suc.hyps(2) i by simp_all
  ultimately show ?case using Suc.hyps(1) [of "Suc i" ?st] by simp
qed

text \<open>A callback that has not run can run, after the timer of its call if need be.\<close>

lemma future_returns:
  assumes T: "promise_map T" "example_wire W X" "h (service_full_name MyService) \<noteq> h (service_full_name Service2)"
    and run: "future_run W T X E h i st" and p: "p < i" "p \<notin> fst ` set (fs_out st)"
  shows "\<exists>st' r. future_run W T X E h i st' \<and> fs_out st' = fs_out st @ [(p, r)]"
proof -
  let ?s = "fst (future_method p)" let ?n = "calls_before ?s p"
  note inv = run_invD [OF future_run_inv [OF T run]]
  obtain k q where f: "fs_futures st p = Some (k, q)" using futures_made [OF run] p(1) by (metis domD lessThan_iff prod.exhaust)
  have kq: "k = ?n mod 2" "q = ?n div 2" using inv(3) [OF f] by simp_all
  let ?c = "px_clients (fs_proxy st ?s) ! k"
  have k: "k < 2" "k < length (px_clients (fs_proxy st ?s))" using inv(2) [of ?s] kq(1) by (simp_all add: proxy_inv_def)
  have sc: "scripted W T 9223372036854775807 5000 (host_script W X E h ?s k) (host_answer W X E h ?s k)
      ((calls_before ?s i + 1 - k) div 2) (rc_client ?c)"
    using inv(2) [of ?s] k(1) by (simp add: proxy_inv_def)
  have "Suc ?n \<le> calls_before ?s i"
  proof -
    have "calls_before ?s (Suc p) \<le> calls_before ?s (Suc p + d)" for d
      by (induction d) (simp_all add: calls_before_Suc del: calls_before.simps)
    from this [of "i - Suc p"] p(1) show ?thesis by (simp add: calls_before_Suc del: calls_before.simps)
  qed
  then have q: "q < (calls_before ?s i + 1 - k) div 2" unfolding kq by presburger
  have ran: ?thesis if "future_run W T X E h i (st'\<lparr>fs_out := fs_out st' @ [(p, r)]\<rparr>)" "fs_out st' = fs_out st" for st' r
    using that by (intro exI [of _ "st'\<lparr>fs_out := fs_out st' @ [(p, r)]\<rparr>"] exI [of _ r]) simp
  show ?thesis
  proof (cases "cl_result (rc_client ?c) q")
    case (Some r)
    from ran [OF future_run.callback [OF run f p(2) Some]] show ?thesis by simp
  next
    case None
    then have "pending (rc_client ?c) q" using q scriptedD(2) [OF sc] by (simp add: pending_def)
    then have t: "cl_timer (rc_client ?c) q \<noteq> None"
      using client_invD(3) [OF promise_map.reach_inv [OF T(1) scriptedD(1) [OF sc]]] by simp
    let ?c' = "?c\<lparr>rc_client := dispatcher_timeout W T q (rc_client ?c)\<rparr>"
    let ?st = "st\<lparr>fs_proxy := (fs_proxy st)(?s := (fs_proxy st ?s)\<lparr>px_clients := (px_clients (fs_proxy st ?s))[k := ?c']\<rparr>)\<rparr>"
    have r: "future_run W T X E h i ?st"
      by (rule future_run.network [OF run k(2) network_step.timeout [OF t None]])
    have "cl_result (rc_client (px_clients (fs_proxy ?st ?s) ! k)) q = Some (local_reply W TIMEOUT (cl_arg (rc_client ?c) q))"
      using k(2) by (simp add: promise_map.timeout_sel [OF T(1)])
    with f p(2) have "future_run W T X E h i (?st\<lparr>fs_out := fs_out ?st
        @ [(p, future_callback W X E h p (local_reply W TIMEOUT (cl_arg (rc_client ?c) q)))]\<rparr>)"
      by (intro future_run.callback [OF r]) simp_all
    from ran [OF this] show ?thesis by simp
  qed
qed

lemma future_drain:
  assumes T: "promise_map T" "example_wire W X" "h (service_full_name MyService) \<noteq> h (service_full_name Service2)"
  shows "future_run W T X E h i st \<Longrightarrow>
    \<exists>st' rest. future_run W T X E h i st' \<and> fs_out st' = fs_out st @ rest \<and> {..<i} \<subseteq> fst ` set (fs_out st')"
proof (induction "card ({..<i} - fst ` set (fs_out st))" arbitrary: st)
  case 0
  then have "{..<i} \<subseteq> fst ` set (fs_out st)" by simp
  with 0 show ?case by (metis append_Nil2)
next
  case (Suc n)
  then obtain p where p: "p < i" "p \<notin> fst ` set (fs_out st)"
    by (metis DiffE card.empty ex_in_conv lessThan_iff nat.distinct(1))
  from future_returns [OF T Suc.prems p] obtain st' r where
    st': "future_run W T X E h i st'" "fs_out st' = fs_out st @ [(p, r)]" by blast
  have "{..<i} - fst ` set (fs_out st') = ({..<i} - fst ` set (fs_out st)) - {p}" by (auto simp: st'(2))
  then have "n = card ({..<i} - fst ` set (fs_out st'))" using Suc.hyps(2) p by simp
  from Suc.hyps(1) [OF this st'(1)] st'(2) show ?case by auto
qed

section \<open>Properties\<close>

text \<open>C34: The client with futures spreads the calls of each service over its two hosts, the host whose
  turn it is first: after any run the numbers of calls they got differ by at most one. Whatever the
  order of connection events, responses and timers, the callback of a call runs at most once, for a
  call that was made, and reports the line the call is meant to give, or one of the three exceptions
  for a call the dispatcher ended itself: unlike the clients over a channel it never shows a made-up
  result.\<close>

theorem future_client_balances:
  assumes "promise_map T" "example_wire W X" "h (service_full_name MyService) \<noteq> h (service_full_name Service2)"
    and "future_run W T X E h i st"
  shows "(\<forall>s. cl_calls (rc_client (px_clients (fs_proxy st s) ! 0)) = (calls_before s i + 1) div 2
        \<and> cl_calls (rc_client (px_clients (fs_proxy st s) ! 1)) = calls_before s i div 2)
    \<and> distinct (map fst (fs_out st))
    \<and> (\<forall>p r. (p, r) \<in> set (fs_out st) \<longrightarrow> p < i \<and> (r = Inr (good_line E p)
          \<or> r \<in> {Inl PENDDING_LIMIT_error, Inl INVALID_REQUEST_error, Inl RESPONSE_TIMEOUT_error}))"
proof -
  note inv = run_invD [OF future_run_inv [OF assms]]
  have "cl_calls (rc_client (px_clients (fs_proxy st s) ! j)) = (calls_before s i + 1 - j) div 2" if "j < 2" for s j
    using inv(2) [of s] that by (auto simp: proxy_inv_def dest: scriptedD(2))
  from this [of 0] this [of 1] inv(4,5) show ?thesis by (auto simp: future_errors_def)
qed

theorem future_client_balances_witness:
  "\<exists>st. future_run varint_lib alist_table text_float plain_env name_length 1 st
     \<and> cl_calls (rc_client (px_clients (fs_proxy st MyService) ! 0)) = 1 \<and> map fst (fs_out st) = [0]"
proof -
  let ?run = "future_run varint_lib alist_table text_float plain_env name_length"
  obtain px px' :: "((s64 \<times> nat) list, byte list) proxy" and c m where px: "px = future_proxy varint_lib alist_table Null 4"
    and call: "future_call varint_lib alist_table text_float plain_env name_length (Some 0) 0 px = InFlight 0 px'"
    and q: "cl_calls (rc_client (px_clients px ! 0)) = 0" and j: "0 < length (px_clients px')"
    and net: "network_step varint_lib alist_table text_float plain_env name_length (px_clients px' ! 0) c"
    and m: "cl_result (rc_client c) 0 = Some m"
    using first_future [where W = varint_lib and X = text_float and E = plain_env, OF alist.promise_map_axioms names_differ]
    by (elim exE conjE) (rule that)
  let ?st0 = "\<lparr>fs_proxy = (\<lambda>_. px), fs_futures = (\<lambda>_. None), fs_out = []\<rparr>"
  have r0: "?run 0 ?st0" unfolding px by (rule future_run.start)
  have s: "MyService = fst (future_method 0)" by (simp add: future_method_def)
  let ?st1 = "?st0\<lparr>fs_proxy := (fs_proxy ?st0)(MyService := px'),
    fs_futures := (fs_futures ?st0)(0 \<mapsto> (0, cl_calls (rc_client (px_clients (fs_proxy ?st0 MyService) ! 0))))\<rparr>"
  have r1: "?run (Suc 0) ?st1" by (rule future_run.call [where conn = "Some 0", OF r0 _ s]) (simp_all add: call)
  let ?st2 = "?st1\<lparr>fs_proxy := (fs_proxy ?st1)(MyService := (fs_proxy ?st1 MyService)
    \<lparr>px_clients := (px_clients (fs_proxy ?st1 MyService))[0 := c]\<rparr>)\<rparr>"
  have r2: "?run (Suc 0) ?st2" by (rule future_run.network [OF r1]) (use j in \<open>simp_all add: net\<close>)
  have f: "fs_futures ?st2 0 = Some (0, 0)" by (simp add: q)
  have m2: "cl_result (rc_client (px_clients (fs_proxy ?st2 (fst (future_method 0))) ! 0)) 0 = Some m"
    unfolding s [symmetric] using m j by simp
  have r3: "?run 1 (?st2\<lparr>fs_out := fs_out ?st2 @ [(0, future_callback varint_lib text_float plain_env name_length 0 m)]\<rparr>)"
    unfolding One_nat_def by (rule future_run.callback [OF r2 f _ m2]) simp
  then obtain st where st: "?run 1 st" "map fst (fs_out st) = [0]" by fastforce
  have "cl_calls (rc_client (px_clients (fs_proxy st MyService) ! 0)) = (calls_before MyService 1 + 1) div 2"
    using future_client_balances [OF alist.promise_map_axioms example_varint.example_wire_axioms names_differ st(1)]
    by blast
  with st show ?thesis by (intro exI [of _ st]) simp
qed

text \<open>C35: The client with futures can always finish: from every state of its run in which no host is
  caught between the two assignments of its connection, the loop can be completed and the continuation
  of every call's future run, each exactly once; what was printed stays.\<close>

theorem future_client_finishes:
  assumes "promise_map T" "example_wire W X" "h (service_full_name MyService) \<noteq> h (service_full_name Service2)"
    and "future_run W T X E h i st" "all_ready st"
  shows "\<exists>st' rest. future_run W T X E h 100000 st' \<and> fs_out st' = fs_out st @ rest
    \<and> distinct (map fst (fs_out st')) \<and> set (map fst (fs_out st')) = {..<100000}"
proof -
  have "i \<le> 100000" by (rule run_invD(1) [OF future_run_inv [OF assms(1-4)]])
  from future_calls_sent [OF assms(1-5) this] obtain st1 where
    st1: "future_run W T X E h 100000 st1" "fs_out st1 = fs_out st" by blast
  from future_drain [OF assms(1-3) st1(1)] obtain st' rest where
    st': "future_run W T X E h 100000 st'" "fs_out st' = fs_out st1 @ rest" "{..<100000} \<subseteq> fst ` set (fs_out st')" by blast
  note inv = run_invD [OF future_run_inv [OF assms(1-3) st'(1)]]
  have "fst ` set (fs_out st') \<subseteq> {..<100000}" using inv(5) by fastforce
  with st'(3) have "set (map fst (fs_out st')) = {..<100000}" unfolding set_map by (intro equalityI)
  with st'(1,2) st1(2) inv(4) show ?thesis by metis
qed

theorem future_client_finishes_witness:
  "\<exists>st. future_run varint_lib alist_table text_float plain_env name_length 100000 st
     \<and> set (map fst (fs_out st)) = {..<100000}"
proof -
  let ?st = "\<lparr>fs_proxy = (\<lambda>_. future_proxy varint_lib alist_table Null 4), fs_futures = (\<lambda>_. None), fs_out = []\<rparr>
    :: ((s64 \<times> nat) list, byte list) future_state"
  have run: "future_run varint_lib alist_table text_float plain_env name_length 0 ?st" by (rule future_run.start)
  have "all_ready ?st"
    by (simp add: all_ready_def hosts_ready_def host_ready_def future_proxy_def addRemoteHost_def proxy_new_def Let_def
        PbRpcClient_new_limits_def)
  from future_client_finishes [OF alist.promise_map_axioms example_varint.example_wire_axioms names_differ run this]
  show ?thesis by blast
qed

end
