(* ===== verification/ExampleMessageOps.thy ===== *)
theory ExampleMessageOps
  imports ExampleMessages RpcMessage
begin

text \<open>
  The rest of the generated classes of the example services (\<open>example/MyService.pb.h\<close>,
  \<open>example/MyService.pb.cc\<close>): accessors, copying, merging, swapping, the array serialisers and the sizes.
  The six classes have three shapes. What copying and merging promise is the same for all: a locale over
  the content of a message (the fields that are present), interpreted by each shape.
\<close>

section \<open>Accessors\<close>

named_theorems text_accessors

definition has_text :: "'u EchoMsg \<Rightarrow> bool" where
  [text_accessors]: "has_text m \<longleftrightarrow> em_has_bits m AND 1 \<noteq> 0"

definition clear_text :: "'u EchoMsg \<Rightarrow> 'u EchoMsg" where
  [text_accessors]: "clear_text m = m\<lparr>em_text := [], em_has_bits := em_has_bits m AND NOT 1\<rparr>"

definition set_text_c_string :: "byte list \<Rightarrow> 'u EchoMsg \<Rightarrow> 'u EchoMsg" where
  [text_accessors]: "set_text_c_string value m =
     m\<lparr>em_has_bits := em_has_bits m OR 1, em_text := c_string value\<rparr>"

definition set_text_mem :: "byte list \<Rightarrow> nat \<Rightarrow> 'u EchoMsg \<Rightarrow> 'u EchoMsg" where
  [text_accessors]: "set_text_mem value n m =
     m\<lparr>em_has_bits := em_has_bits m OR 1, em_text := take n value\<rparr>"

definition mutable_text :: "(byte list \<Rightarrow> byte list) \<Rightarrow> 'u EchoMsg \<Rightarrow> 'u EchoMsg" where
  [text_accessors]: "mutable_text f m = m\<lparr>em_has_bits := em_has_bits m OR 1, em_text := f (em_text m)\<rparr>"

definition release_text :: "'u EchoMsg \<Rightarrow> byte list option \<times> 'u EchoMsg" where
  [text_accessors]: "release_text m =
     (if \<not> has_text m then (None, m)
      else (Some (em_text m), m\<lparr>em_has_bits := em_has_bits m AND NOT 1, em_text := []\<rparr>))"

definition set_allocated_text :: "byte list option \<Rightarrow> 'u EchoMsg \<Rightarrow> 'u EchoMsg" where
  [text_accessors]: "set_allocated_text s m = (case s of
      Some s \<Rightarrow> m\<lparr>em_has_bits := em_has_bits m OR 1, em_text := s\<rparr>
    | None \<Rightarrow> m\<lparr>em_has_bits := em_has_bits m AND NOT 1, em_text := []\<rparr>)"

named_theorems number_accessors

definition has_a :: "('u, 'n) OperaReqMsg \<Rightarrow> bool" where
  [number_accessors]: "has_a m \<longleftrightarrow> oq_has_bits m AND 1 \<noteq> 0"

definition clear_a :: "('u, 'n :: zero) OperaReqMsg \<Rightarrow> ('u, 'n) OperaReqMsg" where
  [number_accessors]: "clear_a m = m\<lparr>oq_a := 0, oq_has_bits := oq_has_bits m AND NOT 1\<rparr>"

definition has_b :: "('u, 'n) OperaReqMsg \<Rightarrow> bool" where
  [number_accessors]: "has_b m \<longleftrightarrow> oq_has_bits m AND 2 \<noteq> 0"

definition clear_b :: "('u, 'n :: zero) OperaReqMsg \<Rightarrow> ('u, 'n) OperaReqMsg" where
  [number_accessors]: "clear_b m = m\<lparr>oq_b := 0, oq_has_bits := oq_has_bits m AND NOT 2\<rparr>"

definition has_c :: "('u, 'n) OperaResMsg \<Rightarrow> bool" where
  [number_accessors]: "has_c m \<longleftrightarrow> os_has_bits m AND 1 \<noteq> 0"

definition clear_c :: "('u, 'n :: zero) OperaResMsg \<Rightarrow> ('u, 'n) OperaResMsg" where
  [number_accessors]: "clear_c m = m\<lparr>os_c := 0, os_has_bits := os_has_bits m AND NOT 1\<rparr>"

section \<open>Copying, merging, swapping\<close>

definition EchoMsg_copy :: "'u wire_lib \<Rightarrow> 'u EchoMsg \<Rightarrow> 'u EchoMsg" where
  "EchoMsg_copy W from = \<lparr>em_has_bits = em_has_bits from, em_text = (if has_text from then em_text from else []),
     em_unknown = MergeUnknownFields W (em_unknown from) (no_unknown_fields W), em_cached_size = 0\<rparr>"

definition EchoMsg_merge :: "'u wire_lib \<Rightarrow> 'u EchoMsg \<Rightarrow> 'u EchoMsg \<Rightarrow> 'u EchoMsg" where
  "EchoMsg_merge W from m =
     (let m = m\<lparr>em_unknown := MergeUnknownFields W (em_unknown from) (em_unknown m)\<rparr>
      in if has_text from then m\<lparr>em_has_bits := em_has_bits m OR 1, em_text := em_text from\<rparr> else m)"

definition OperaReqMsg_copy :: "'u wire_lib \<Rightarrow> ('u, 'n) OperaReqMsg \<Rightarrow> ('u, 'n) OperaReqMsg" where
  "OperaReqMsg_copy W from = \<lparr>oq_has_bits = oq_has_bits from, oq_a = oq_a from, oq_b = oq_b from,
     oq_unknown = MergeUnknownFields W (oq_unknown from) (no_unknown_fields W), oq_cached_size = 0\<rparr>"

definition OperaReqMsg_merge :: "'u wire_lib \<Rightarrow> ('u, 'n) OperaReqMsg \<Rightarrow> ('u, 'n) OperaReqMsg \<Rightarrow> ('u, 'n) OperaReqMsg" where
  "OperaReqMsg_merge W from m =
     (let m = m\<lparr>oq_unknown := MergeUnknownFields W (oq_unknown from) (oq_unknown m)\<rparr>;
          cached_has_bits = oq_has_bits from
      in if cached_has_bits AND 3 \<noteq> 0 then
           (let m = (if cached_has_bits AND 1 \<noteq> 0 then m\<lparr>oq_a := oq_a from\<rparr> else m);
                m = (if cached_has_bits AND 2 \<noteq> 0 then m\<lparr>oq_b := oq_b from\<rparr> else m)
            in m\<lparr>oq_has_bits := oq_has_bits m OR cached_has_bits\<rparr>)
         else m)"

definition OperaResMsg_copy :: "'u wire_lib \<Rightarrow> ('u, 'n) OperaResMsg \<Rightarrow> ('u, 'n) OperaResMsg" where
  "OperaResMsg_copy W from = \<lparr>os_has_bits = os_has_bits from, os_c = os_c from,
     os_unknown = MergeUnknownFields W (os_unknown from) (no_unknown_fields W), os_cached_size = 0\<rparr>"

definition OperaResMsg_merge :: "'u wire_lib \<Rightarrow> ('u, 'n) OperaResMsg \<Rightarrow> ('u, 'n) OperaResMsg \<Rightarrow> ('u, 'n) OperaResMsg" where
  "OperaResMsg_merge W from m =
     (let m = m\<lparr>os_unknown := MergeUnknownFields W (os_unknown from) (os_unknown m)\<rparr>
      in if has_c from then set_c (os_c from) m else m)"

text \<open>\<open>same\<close> is the test \<open>&from == this\<close>.\<close>

definition EchoMsg_CopyFrom :: "'u wire_lib \<Rightarrow> bool \<Rightarrow> 'u EchoMsg \<Rightarrow> 'u EchoMsg \<Rightarrow> 'u EchoMsg" where
  "EchoMsg_CopyFrom W same from m = (if same then m else EchoMsg_merge W from (EchoMsg_clear W m))"

definition OperaReqMsg_CopyFrom ::
    "'u wire_lib \<Rightarrow> bool \<Rightarrow> ('u, 'n :: zero) OperaReqMsg \<Rightarrow> ('u, 'n) OperaReqMsg \<Rightarrow> ('u, 'n) OperaReqMsg" where
  "OperaReqMsg_CopyFrom W same from m = (if same then m else OperaReqMsg_merge W from (OperaReqMsg_clear W m))"

definition OperaResMsg_CopyFrom ::
    "'u wire_lib \<Rightarrow> bool \<Rightarrow> ('u, 'n :: zero) OperaResMsg \<Rightarrow> ('u, 'n) OperaResMsg \<Rightarrow> ('u, 'n) OperaResMsg" where
  "OperaResMsg_CopyFrom W same from m = (if same then m else OperaResMsg_merge W from (OperaResMsg_clear W m))"

text \<open>The overloads for a \<open>Message\<close> of any class; \<open>reflect\<close> is \<open>ReflectionOps::Merge\<close>.\<close>

definition EchoMsg_merge_message ::
    "'u wire_lib \<Rightarrow> ('o \<Rightarrow> 'u EchoMsg \<Rightarrow> 'u EchoMsg) \<Rightarrow> ('u EchoMsg, 'o) any_message
     \<Rightarrow> 'u EchoMsg \<Rightarrow> 'u EchoMsg" where
  "EchoMsg_merge_message W reflect from m = (case from of
      OtherClass x \<Rightarrow> reflect x m
    | SameClass source \<Rightarrow> EchoMsg_merge W source m)"

definition EchoMsg_copy_message ::
    "'u wire_lib \<Rightarrow> ('o \<Rightarrow> 'u EchoMsg \<Rightarrow> 'u EchoMsg) \<Rightarrow> bool \<Rightarrow> ('u EchoMsg, 'o) any_message
     \<Rightarrow> 'u EchoMsg \<Rightarrow> 'u EchoMsg" where
  "EchoMsg_copy_message W reflect same from m =
     (if same then m else EchoMsg_merge_message W reflect from (EchoMsg_clear W m))"

definition OperaReqMsg_merge_message ::
    "'u wire_lib \<Rightarrow> ('o \<Rightarrow> ('u, 'n) OperaReqMsg \<Rightarrow> ('u, 'n) OperaReqMsg) \<Rightarrow> (('u, 'n) OperaReqMsg, 'o) any_message
     \<Rightarrow> ('u, 'n) OperaReqMsg \<Rightarrow> ('u, 'n) OperaReqMsg" where
  "OperaReqMsg_merge_message W reflect from m = (case from of
      OtherClass x \<Rightarrow> reflect x m
    | SameClass source \<Rightarrow> OperaReqMsg_merge W source m)"

definition OperaReqMsg_copy_message ::
    "'u wire_lib \<Rightarrow> ('o \<Rightarrow> ('u, 'n :: zero) OperaReqMsg \<Rightarrow> ('u, 'n) OperaReqMsg) \<Rightarrow> bool \<Rightarrow> (('u, 'n) OperaReqMsg, 'o) any_message
     \<Rightarrow> ('u, 'n) OperaReqMsg \<Rightarrow> ('u, 'n) OperaReqMsg" where
  "OperaReqMsg_copy_message W reflect same from m =
     (if same then m else OperaReqMsg_merge_message W reflect from (OperaReqMsg_clear W m))"

definition OperaResMsg_merge_message ::
    "'u wire_lib \<Rightarrow> ('o \<Rightarrow> ('u, 'n) OperaResMsg \<Rightarrow> ('u, 'n) OperaResMsg) \<Rightarrow> (('u, 'n) OperaResMsg, 'o) any_message
     \<Rightarrow> ('u, 'n) OperaResMsg \<Rightarrow> ('u, 'n) OperaResMsg" where
  "OperaResMsg_merge_message W reflect from m = (case from of
      OtherClass x \<Rightarrow> reflect x m
    | SameClass source \<Rightarrow> OperaResMsg_merge W source m)"

definition OperaResMsg_copy_message ::
    "'u wire_lib \<Rightarrow> ('o \<Rightarrow> ('u, 'n :: zero) OperaResMsg \<Rightarrow> ('u, 'n) OperaResMsg) \<Rightarrow> bool \<Rightarrow> (('u, 'n) OperaResMsg, 'o) any_message
     \<Rightarrow> ('u, 'n) OperaResMsg \<Rightarrow> ('u, 'n) OperaResMsg" where
  "OperaResMsg_copy_message W reflect same from m =
     (if same then m else OperaResMsg_merge_message W reflect from (OperaResMsg_clear W m))"

text \<open>\<open>InternalSwap\<close> exchanges every member but the cached sizes.\<close>

definition EchoMsg_swap :: "bool \<Rightarrow> 'u EchoMsg \<Rightarrow> 'u EchoMsg \<Rightarrow> 'u EchoMsg \<times> 'u EchoMsg" where
  "EchoMsg_swap same m other = (if same then (m, other)
     else (other\<lparr>em_cached_size := em_cached_size m\<rparr>, m\<lparr>em_cached_size := em_cached_size other\<rparr>))"

definition OperaReqMsg_swap ::
    "bool \<Rightarrow> ('u, 'n) OperaReqMsg \<Rightarrow> ('u, 'n) OperaReqMsg \<Rightarrow> ('u, 'n) OperaReqMsg \<times> ('u, 'n) OperaReqMsg" where
  "OperaReqMsg_swap same m other = (if same then (m, other)
     else (other\<lparr>oq_cached_size := oq_cached_size m\<rparr>, m\<lparr>oq_cached_size := oq_cached_size other\<rparr>))"

definition OperaResMsg_swap ::
    "bool \<Rightarrow> ('u, 'n) OperaResMsg \<Rightarrow> ('u, 'n) OperaResMsg \<Rightarrow> ('u, 'n) OperaResMsg \<times> ('u, 'n) OperaResMsg" where
  "OperaResMsg_swap same m other = (if same then (m, other)
     else (other\<lparr>os_cached_size := os_cached_size m\<rparr>, m\<lparr>os_cached_size := os_cached_size other\<rparr>))"

section \<open>Sizes and the array serialisers\<close>

text \<open>A size is given with the message, whose cached size it sets.\<close>

definition EchoMsg_to_array :: "'u wire_lib \<Rightarrow> text_float_lib \<Rightarrow> 'u EchoMsg \<Rightarrow> byte list \<Rightarrow> byte list" where
  "EchoMsg_to_array W X m target =
     (let cached_has_bits = em_has_bits m;
          target = (if cached_has_bits AND 1 \<noteq> 0 then WriteStringToArray X 1 (em_text m) target else target)
      in if have_unknown_fields W (em_unknown m) then SerializeUnknownFieldsToArray W (em_unknown m) target else target)"

definition EchoMsg_size :: "'u wire_lib \<Rightarrow> text_float_lib \<Rightarrow> 'u EchoMsg \<Rightarrow> u64 \<times> 'u EchoMsg" where
  "EchoMsg_size W X m =
     (let total_size = 0;
          total_size = (if have_unknown_fields W (em_unknown m)
                        then total_size + ComputeUnknownFieldsSize W (em_unknown m) else total_size);
          total_size = (if has_text m then total_size + (1 + StringSize X (em_text m)) else total_size)
      in (total_size, m\<lparr>em_cached_size := ToCachedSize W total_size\<rparr>))"

text \<open>The two number types differ in how a number is written (\<open>wa\<close>) and in its size (\<open>sz\<close>).\<close>

definition OperaReqMsg_to_array ::
    "'u wire_lib \<Rightarrow> (nat \<Rightarrow> 'n \<Rightarrow> byte list \<Rightarrow> byte list) \<Rightarrow> ('u, 'n) OperaReqMsg \<Rightarrow> byte list \<Rightarrow> byte list" where
  "OperaReqMsg_to_array W wa m target =
     (let cached_has_bits = oq_has_bits m;
          target = (if cached_has_bits AND 1 \<noteq> 0 then wa 1 (oq_a m) target else target);
          target = (if cached_has_bits AND 2 \<noteq> 0 then wa 2 (oq_b m) target else target)
      in if have_unknown_fields W (oq_unknown m) then SerializeUnknownFieldsToArray W (oq_unknown m) target else target)"

definition OperaReqMsg_size_fallback :: "('n \<Rightarrow> u64) \<Rightarrow> ('u, 'n) OperaReqMsg \<Rightarrow> u64" where
  "OperaReqMsg_size_fallback sz m =
     (let total_size = 0;
          total_size = (if has_a m then total_size + (1 + sz (oq_a m)) else total_size)
      in if has_b m then total_size + (1 + sz (oq_b m)) else total_size)"

definition OperaReqMsg_size ::
    "'u wire_lib \<Rightarrow> ('n \<Rightarrow> u64) \<Rightarrow> ('u, 'n) OperaReqMsg \<Rightarrow> u64 \<times> ('u, 'n) OperaReqMsg" where
  "OperaReqMsg_size W sz m =
     (let total_size = 0;
          total_size = (if have_unknown_fields W (oq_unknown m)
                        then total_size + ComputeUnknownFieldsSize W (oq_unknown m) else total_size);
          total_size = (if (oq_has_bits m AND 3) XOR 3 = 0
                        then total_size + (1 + sz (oq_a m)) + (1 + sz (oq_b m))
                        else total_size + OperaReqMsg_size_fallback sz m)
      in (total_size, m\<lparr>oq_cached_size := ToCachedSize W total_size\<rparr>))"

definition OperaResMsg_to_array ::
    "'u wire_lib \<Rightarrow> (nat \<Rightarrow> 'n \<Rightarrow> byte list \<Rightarrow> byte list) \<Rightarrow> ('u, 'n) OperaResMsg \<Rightarrow> byte list \<Rightarrow> byte list" where
  "OperaResMsg_to_array W wa m target =
     (let cached_has_bits = os_has_bits m;
          target = (if cached_has_bits AND 1 \<noteq> 0 then wa 1 (os_c m) target else target)
      in if have_unknown_fields W (os_unknown m) then SerializeUnknownFieldsToArray W (os_unknown m) target else target)"

definition OperaResMsg_size ::
    "'u wire_lib \<Rightarrow> ('n \<Rightarrow> u64) \<Rightarrow> ('u, 'n) OperaResMsg \<Rightarrow> u64 \<times> ('u, 'n) OperaResMsg" where
  "OperaResMsg_size W sz m =
     (let total_size = 0;
          total_size = (if have_unknown_fields W (os_unknown m)
                        then total_size + ComputeUnknownFieldsSize W (os_unknown m) else total_size);
          total_size = (if has_c m then total_size + (1 + sz (os_c m)) else total_size)
      in (total_size, m\<lparr>os_cached_size := ToCachedSize W total_size\<rparr>))"

text \<open>The float classes: four bytes a number.\<close>

definition OperaReqF_to_array :: "'u wire_lib \<Rightarrow> text_float_lib \<Rightarrow> ('u, u32) OperaReqMsg \<Rightarrow> byte list \<Rightarrow> byte list" where
  "OperaReqF_to_array W X = OperaReqMsg_to_array W (WriteFloatToArray X)"

definition OperaReqF_size :: "'u wire_lib \<Rightarrow> ('u, u32) OperaReqMsg \<Rightarrow> u64 \<times> ('u, u32) OperaReqMsg" where
  "OperaReqF_size W = OperaReqMsg_size W (\<lambda>_. 4)"

definition OperaResF_to_array :: "'u wire_lib \<Rightarrow> text_float_lib \<Rightarrow> ('u, u32) OperaResMsg \<Rightarrow> byte list \<Rightarrow> byte list" where
  "OperaResF_to_array W X = OperaResMsg_to_array W (WriteFloatToArray X)"

definition OperaResF_size :: "'u wire_lib \<Rightarrow> ('u, u32) OperaResMsg \<Rightarrow> u64 \<times> ('u, u32) OperaResMsg" where
  "OperaResF_size W = OperaResMsg_size W (\<lambda>_. 4)"

section \<open>The content of a message\<close>

text \<open>The abstract view of the three shapes: the fields that are present, and the unknown fields. The
  class invariants say that no other has-bit is set and that an absent field holds its default.\<close>

definition echo_wf :: "'u EchoMsg \<Rightarrow> bool" where
  "echo_wf m \<longleftrightarrow> em_has_bits m = 1 \<or> em_has_bits m = 0 \<and> em_text m = []"

definition request_wf :: "('u, 'n :: zero) OperaReqMsg \<Rightarrow> bool" where
  "request_wf m \<longleftrightarrow> oq_has_bits m = 3 \<or> oq_has_bits m = 2 \<and> oq_a m = 0 \<or> oq_has_bits m = 1 \<and> oq_b m = 0
     \<or> oq_has_bits m = 0 \<and> oq_a m = 0 \<and> oq_b m = 0"

definition result_wf :: "('u, 'n :: zero) OperaResMsg \<Rightarrow> bool" where
  "result_wf m \<longleftrightarrow> os_has_bits m = 1 \<or> os_has_bits m = 0 \<and> os_c m = 0"

definition echo_content :: "'u EchoMsg \<Rightarrow> byte list option \<times> 'u" where
  "echo_content m = (if has_text m then Some (em_text m) else None, em_unknown m)"

definition request_content :: "('u, 'n) OperaReqMsg \<Rightarrow> 'n option \<times> 'n option \<times> 'u" where
  "request_content m = (if has_a m then Some (oq_a m) else None, if has_b m then Some (oq_b m) else None,
     oq_unknown m)"

definition result_content :: "('u, 'n) OperaResMsg \<Rightarrow> 'n option \<times> 'u" where
  "result_content m = (if has_c m then Some (os_c m) else None, os_unknown m)"

definition merge_one :: "'u wire_lib \<Rightarrow> 'a option \<times> 'u \<Rightarrow> 'a option \<times> 'u \<Rightarrow> 'a option \<times> 'u" where
  "merge_one W c d = (overlay (fst c) (fst d), MergeUnknownFields W (snd c) (snd d))"

definition merge_two ::
    "'u wire_lib \<Rightarrow> 'a option \<times> 'a option \<times> 'u \<Rightarrow> 'a option \<times> 'a option \<times> 'u \<Rightarrow> 'a option \<times> 'a option \<times> 'u" where
  "merge_two W c d = (overlay (fst c) (fst d), merge_one W (snd c) (snd d))"

lemmas echo_defs = echo_wf_def echo_content_def text_accessors EchoMsg_merge_def EchoMsg_clear_def
  EchoMsg_copy_def EchoMsg_new_def set_text_def Let_def

lemmas request_defs = request_wf_def request_content_def number_accessors OperaReqMsg_merge_def
  OperaReqMsg_clear_def OperaReqMsg_copy_def OperaReqMsg_new_def set_a_def set_b_def Let_def

lemmas result_defs = result_wf_def result_content_def number_accessors OperaResMsg_merge_def
  OperaResMsg_clear_def OperaResMsg_copy_def OperaResMsg_new_def set_c_def Let_def

text \<open>What the generated copying operations owe each other, over the content.\<close>

locale message_ops =
  fixes wf :: "'m \<Rightarrow> bool" and view :: "'m \<Rightarrow> 'c" and cached :: "'m \<Rightarrow> s32" and set_cached :: "s32 \<Rightarrow> 'm \<Rightarrow> 'm"
    and fresh :: 'm and clr :: "'m \<Rightarrow> 'm" and merge :: "'m \<Rightarrow> 'm \<Rightarrow> 'm" and dup :: "'m \<Rightarrow> 'm"
    and join :: "'c \<Rightarrow> 'c \<Rightarrow> 'c"
  assumes fresh_wf: "wf fresh"
    and clear_wf: "wf m \<Longrightarrow> wf (clr m)"
    and clear_view: "view (clr m) = view fresh"
    and clear_cached: "cached (clr m) = cached m"
    and merge_wf: "\<lbrakk>wf n; wf m\<rbrakk> \<Longrightarrow> wf (merge n m)"
    and merge_view: "\<lbrakk>wf n; wf m\<rbrakk> \<Longrightarrow> view (merge n m) = join (view n) (view m)"
    and merge_cached: "cached (merge n m) = cached m"
    and dup_wf: "wf n \<Longrightarrow> wf (dup n)"
    and dup_view: "view (dup n) = view n"
    and dup_cached: "cached (dup n) = 0"
    and join_fresh: "join c (view fresh) = c"
    and set_cached_wf: "wf (set_cached k m) = wf m"
    and set_cached_view: "view (set_cached k m) = view m"
    and cached_set: "cached (set_cached k m) = k"
    and view_determines: "\<lbrakk>wf n; wf m; view n = view m; cached n = cached m\<rbrakk> \<Longrightarrow> n = m"
begin

lemma same_content: "\<lbrakk>wf n; wf m; view m = view n\<rbrakk> \<Longrightarrow> m = set_cached (cached m) n"
  by (rule view_determines) (simp_all add: set_cached_wf set_cached_view cached_set)

lemma cleared: "wf m \<Longrightarrow> clr m = set_cached (cached m) fresh"
  using same_content [OF fresh_wf clear_wf clear_view] by (simp add: clear_cached)

lemma copy_from: "\<lbrakk>wf n; wf m\<rbrakk> \<Longrightarrow> merge n (clr m) = set_cached (cached m) n"
  using same_content [of n "merge n (clr m)"]
  by (simp add: merge_wf clear_wf merge_view clear_view join_fresh merge_cached clear_cached)

lemma dup_copy: "wf n \<Longrightarrow> dup n = set_cached 0 n"
  using same_content [of n "dup n"] by (simp add: dup_wf dup_view dup_cached)

end

lemma word_flags [simp]:
  "(1 :: u32) AND NOT 1 = 0" "(2 :: u32) AND NOT 1 = 2" "(3 :: u32) AND NOT 1 = 2" "(1 :: u32) AND NOT 2 = 1"
  "(2 :: u32) AND NOT 2 = 0" "(3 :: u32) AND NOT 2 = 1"
  by simp_all

sublocale wire \<subseteq> echo_ops: message_ops echo_wf echo_content em_cached_size "\<lambda>k. em_cached_size_update (\<lambda>_. k)"
    "EchoMsg_new W :: 'u EchoMsg" "EchoMsg_clear W" "EchoMsg_merge W" "EchoMsg_copy W" "merge_one W"
  by unfold_locales (auto simp: echo_defs merge_one_def unknown split: if_splits)

lemma request_cases [consumes 1]:
  assumes "request_wf m"
  obtains a b u k where "m = \<lparr>oq_has_bits = 3, oq_a = a, oq_b = b, oq_unknown = u, oq_cached_size = k\<rparr>"
    | b u k where "m = \<lparr>oq_has_bits = 2, oq_a = 0, oq_b = b, oq_unknown = u, oq_cached_size = k\<rparr>"
    | a u k where "m = \<lparr>oq_has_bits = 1, oq_a = a, oq_b = 0, oq_unknown = u, oq_cached_size = k\<rparr>"
    | u k where "m = \<lparr>oq_has_bits = 0, oq_a = 0, oq_b = 0, oq_unknown = u, oq_cached_size = k\<rparr>"
  using assms by (cases m) (auto simp: request_wf_def)

sublocale wire \<subseteq> request_ops: message_ops request_wf request_content oq_cached_size
    "\<lambda>k. oq_cached_size_update (\<lambda>_. k)" "OperaReqMsg_new W :: ('u, 'n :: zero) OperaReqMsg" "OperaReqMsg_clear W"
    "OperaReqMsg_merge W" "OperaReqMsg_copy W" "merge_two W"
proof (unfold_locales, goal_cases)
  case (5 n m)
  from 5(1) show ?case by (cases rule: request_cases) (use 5(2) in \<open>cases rule: request_cases, simp_all add: request_defs\<close>)+
next
  case (6 n m)
  from 6(1) show ?case
    by (cases rule: request_cases) (use 6(2) in \<open>cases rule: request_cases, simp_all add: request_defs merge_two_def merge_one_def\<close>)+
next
  case (15 n m)
  from 15(1,3,4) show ?case
    by (cases rule: request_cases) (use 15(2) in \<open>cases rule: request_cases, simp_all add: request_defs\<close>)+
qed (auto simp: request_defs merge_two_def merge_one_def unknown)

sublocale wire \<subseteq> result_ops: message_ops result_wf result_content os_cached_size
    "\<lambda>k. os_cached_size_update (\<lambda>_. k)" "OperaResMsg_new W :: ('u, 'n :: zero) OperaResMsg" "OperaResMsg_clear W"
    "OperaResMsg_merge W" "OperaResMsg_copy W" "merge_one W"
  by unfold_locales (auto simp: result_defs merge_one_def unknown split: if_splits)

context wire
begin

lemma echo_copying:
  "\<lbrakk>echo_wf e; echo_wf e'\<rbrakk> \<Longrightarrow> EchoMsg_merge W e (EchoMsg_clear W e') = e\<lparr>em_cached_size := em_cached_size e'\<rparr>"
  "echo_wf e \<Longrightarrow> EchoMsg_copy W e = e\<lparr>em_cached_size := 0\<rparr>"
  "echo_wf e' \<Longrightarrow> EchoMsg_clear W e' = (EchoMsg_new W)\<lparr>em_cached_size := em_cached_size e'\<rparr>"
  "\<lbrakk>echo_wf e; echo_wf e'\<rbrakk> \<Longrightarrow>
    echo_content (EchoMsg_merge W e e') = merge_one W (echo_content e) (echo_content e')"
  by (fact echo_ops.copy_from echo_ops.dup_copy echo_ops.cleared echo_ops.merge_view)+

lemma request_copying:
  "\<lbrakk>request_wf q; request_wf q'\<rbrakk> \<Longrightarrow>
    OperaReqMsg_merge W q (OperaReqMsg_clear W q') = q\<lparr>oq_cached_size := oq_cached_size q'\<rparr>"
  "request_wf q \<Longrightarrow> OperaReqMsg_copy W q = q\<lparr>oq_cached_size := 0\<rparr>"
  "request_wf q' \<Longrightarrow> OperaReqMsg_clear W q' = (OperaReqMsg_new W)\<lparr>oq_cached_size := oq_cached_size q'\<rparr>"
  "\<lbrakk>request_wf q; request_wf q'\<rbrakk> \<Longrightarrow>
    request_content (OperaReqMsg_merge W q q') = merge_two W (request_content q) (request_content q')"
  by (fact request_ops.copy_from request_ops.dup_copy request_ops.cleared request_ops.merge_view)+

lemma result_copying:
  "\<lbrakk>result_wf s; result_wf s'\<rbrakk> \<Longrightarrow>
    OperaResMsg_merge W s (OperaResMsg_clear W s') = s\<lparr>os_cached_size := os_cached_size s'\<rparr>"
  "result_wf s \<Longrightarrow> OperaResMsg_copy W s = s\<lparr>os_cached_size := 0\<rparr>"
  "result_wf s' \<Longrightarrow> OperaResMsg_clear W s' = (OperaResMsg_new W)\<lparr>os_cached_size := os_cached_size s'\<rparr>"
  "\<lbrakk>result_wf s; result_wf s'\<rbrakk> \<Longrightarrow>
    result_content (OperaResMsg_merge W s s') = merge_one W (result_content s) (result_content s')"
  by (fact result_ops.copy_from result_ops.dup_copy result_ops.cleared result_ops.merge_view)+

lemma ops_wf:
  "echo_wf (EchoMsg_new W)" "echo_wf e \<Longrightarrow> echo_wf (EchoMsg_copy W e)" "echo_wf e \<Longrightarrow> echo_wf (EchoMsg_clear W e)"
  "\<lbrakk>echo_wf e; echo_wf e'\<rbrakk> \<Longrightarrow> echo_wf (EchoMsg_merge W e e')"
  "request_wf (OperaReqMsg_new W)" "request_wf q \<Longrightarrow> request_wf (OperaReqMsg_copy W q)"
  "request_wf q \<Longrightarrow> request_wf (OperaReqMsg_clear W q)"
  "\<lbrakk>request_wf q; request_wf q'\<rbrakk> \<Longrightarrow> request_wf (OperaReqMsg_merge W q q')"
  "result_wf (OperaResMsg_new W)" "result_wf s \<Longrightarrow> result_wf (OperaResMsg_copy W s)"
  "result_wf s \<Longrightarrow> result_wf (OperaResMsg_clear W s)"
  "\<lbrakk>result_wf s; result_wf s'\<rbrakk> \<Longrightarrow> result_wf (OperaResMsg_merge W s s')"
  by (fact echo_ops.fresh_wf echo_ops.dup_wf echo_ops.clear_wf echo_ops.merge_wf
      request_ops.fresh_wf request_ops.dup_wf request_ops.clear_wf request_ops.merge_wf
      result_ops.fresh_wf result_ops.dup_wf result_ops.clear_wf result_ops.merge_wf)+

end

section \<open>Parsing keeps the class invariants\<close>

context generated_parser
begin

lemma turn_keeps:
  assumes "P m" and "\<And>k low rd m inp. \<lbrakk>(k, low, rd) \<in> set tbl; P m\<rbrakk> \<Longrightarrow> P (fst (rd m inp))"
    and "\<And>u m. P m \<Longrightarrow> P (upd u m)"
  shows "case field_turn W tbl unk upd m inp of Again m' r \<Rightarrow> P m' | Stop ok m' r \<Rightarrow> P m'"
proof -
  obtain tag second r0 where t: "ReadTagWithCutoffNoLastTag W inp = ((tag, second), r0)"
    by (metis prod.exhaust)
  have u: "case unusual_turn W unk upd tag m r0 of Again m' r \<Rightarrow> P m' | Stop ok m' r \<Rightarrow> P m'"
    using assms(1,3) by (auto simp: unusual_turn_def split: prod.splits option.splits)
  show ?thesis
  proof (cases "find (\<lambda>(k, low, rd). GetTagFieldNumber W tag = k) tbl")
    case None
    with t u show ?thesis by (simp add: field_turn_def)
  next
    case (Some c)
    obtain k low rd where c: "c = (k, low, rd)" by (metis prod.exhaust)
    obtain m' r where rd: "rd m r0 = (m', r)" by (metis prod.exhaust)
    from Some c have "(k, low, rd) \<in> set tbl" using find_case by fastforce
    from assms(2) [OF this assms(1), of r0] rd have "P m'" by simp
    with t u Some c rd show ?thesis by (cases r) (simp_all add: field_turn_def)
  qed
qed

lemma loop_keeps:
  assumes "parse_loop (field_turn W tbl unk upd) m inp = Some (ok, m', r)" "P m"
    and "\<And>k low rd m inp. \<lbrakk>(k, low, rd) \<in> set tbl; P m\<rbrakk> \<Longrightarrow> P (fst (rd m inp))"
    and "\<And>u m. P m \<Longrightarrow> P (upd u m)"
  shows "P m'"
  using assms(1,2)
proof (induction inp arbitrary: m rule: length_induct)
  case (1 inp)
  have turn: "case field_turn W tbl unk upd m inp of Again m' r \<Rightarrow> P m' | Stop ok m' r \<Rightarrow> P m'"
    by (rule turn_keeps) (fact \<open>P m\<close> assms(3,4))+
  show ?case
  proof (cases "field_turn W tbl unk upd m inp")
    case (Again m1 r1)
    with 1 turn turn_shrinks [OF Again] show ?thesis by (simp add: parse_loop.simps [of _ m inp])
  next
    case (Stop ok1 m1 r1)
    with 1 turn show ?thesis by (simp add: parse_loop.simps [of _ m inp])
  qed
qed

end

lemma readers_keep:
  fixes q :: "('u, 'n :: zero) OperaReqMsg" and s :: "('u, 'n :: zero) OperaResMsg"
  shows "\<lbrakk>(k, low, reader) \<in> set (OperaReqMsg_cases la lb rd); request_wf q\<rbrakk> \<Longrightarrow> request_wf (fst (reader q inp))"
    and "\<lbrakk>(k, low, reader') \<in> set (OperaResMsg_cases la rd); result_wf s\<rbrakk> \<Longrightarrow> result_wf (fst (reader' s inp))"
    and "\<lbrakk>(k, low, reader'') \<in> set (EchoMsg_cases X); echo_wf e\<rbrakk> \<Longrightarrow> echo_wf (fst (reader'' e inp))"
proof -
  show "request_wf (fst (reader q inp))" if c: "(k, low, reader) \<in> set (OperaReqMsg_cases la lb rd)" and "request_wf q"
    using that(2) by (cases rule: request_cases)
      (use c in \<open>auto simp: OperaReqMsg_cases_def request_wf_def Let_def split: prod.splits\<close>)
qed (auto simp: OperaResMsg_cases_def result_wf_def EchoMsg_cases_def echo_wf_def Let_def split: prod.splits)

lemma unknown_wf [simp]:
  "echo_wf (e\<lparr>em_unknown := u\<rparr>) = echo_wf e" "request_wf (q\<lparr>oq_unknown := u\<rparr>) = request_wf q"
  "result_wf (s\<lparr>os_unknown := u\<rparr>) = result_wf s"
  by (simp_all add: echo_wf_def request_wf_def result_wf_def)

text \<open>The loop lemmas of the three shapes, for any number format.\<close>

context number_codec
begin

lemma operands_keep:
  assumes "parse_loop (OperaReqMsg_turn W la lb rd) m inp = Some (ok, m', r)" "P m"
    and "\<And>k low reader m inp. \<lbrakk>(k, low, reader) \<in> set (OperaReqMsg_cases la lb rd); P m\<rbrakk> \<Longrightarrow> P (fst (reader m inp))"
    and "\<And>u m. P m \<Longrightarrow> P (m\<lparr>oq_unknown := u\<rparr>)"
  shows "P m'"
  by (rule operands.loop_keeps [OF assms(1)[unfolded OperaReqMsg_turn_def]]) (fact assms)+

lemma result_keep:
  assumes "parse_loop (OperaResMsg_turn W lc rd) m inp = Some (ok, m', r)" "P m"
    and "\<And>k low reader m inp. \<lbrakk>(k, low, reader) \<in> set (OperaResMsg_cases lc rd); P m\<rbrakk> \<Longrightarrow> P (fst (reader m inp))"
    and "\<And>u m. P m \<Longrightarrow> P (m\<lparr>os_unknown := u\<rparr>)"
  shows "P m'"
  by (rule result.loop_keeps [OF assms(1)[unfolded OperaResMsg_turn_def]]) (fact assms)+

end

context example_wire
begin

lemma echo_keep:
  assumes "parse_loop (EchoMsg_turn W X) m inp = Some (ok, m', r)" "P m"
    and "\<And>k low reader m inp. \<lbrakk>(k, low, reader) \<in> set (EchoMsg_cases X); P m\<rbrakk> \<Longrightarrow> P (fst (reader m inp))"
    and "\<And>u m. P m \<Longrightarrow> P (m\<lparr>em_unknown := u\<rparr>)"
  shows "P m'"
  by (rule echo.loop_keeps [OF assms(1)[unfolded EchoMsg_turn_def]]) (fact assms)+

end

section \<open>The messages the programs can make\<close>

text \<open>Every message that some sequence of the public operations of its class makes, parses that fail in
  the middle included.\<close>

inductive echo_reach :: "'u wire_lib \<Rightarrow> text_float_lib \<Rightarrow> 'u EchoMsg \<Rightarrow> bool" for W X where
  e_new: "echo_reach W X (EchoMsg_new W)"
| e_copy: "echo_reach W X m \<Longrightarrow> echo_reach W X (EchoMsg_copy W m)"
| e_set: "echo_reach W X m \<Longrightarrow> echo_reach W X (set_text s m)"
| e_set_c_string: "echo_reach W X m \<Longrightarrow> echo_reach W X (set_text_c_string s m)"
| e_set_mem: "echo_reach W X m \<Longrightarrow> echo_reach W X (set_text_mem s n m)"
| e_mutable: "echo_reach W X m \<Longrightarrow> echo_reach W X (mutable_text f m)"
| e_release: "echo_reach W X m \<Longrightarrow> echo_reach W X (snd (release_text m))"
| e_set_allocated: "echo_reach W X m \<Longrightarrow> echo_reach W X (set_allocated_text v m)"
| e_clear_text: "echo_reach W X m \<Longrightarrow> echo_reach W X (clear_text m)"
| e_clear: "echo_reach W X m \<Longrightarrow> echo_reach W X (EchoMsg_clear W m)"
| e_merge: "\<lbrakk>echo_reach W X n; echo_reach W X m\<rbrakk> \<Longrightarrow> echo_reach W X (EchoMsg_merge W n m)"
| e_copy_from: "\<lbrakk>echo_reach W X n; echo_reach W X m\<rbrakk> \<Longrightarrow> echo_reach W X (EchoMsg_CopyFrom W b n m)"
| e_swap1: "\<lbrakk>echo_reach W X n; echo_reach W X m\<rbrakk> \<Longrightarrow> echo_reach W X (fst (EchoMsg_swap b n m))"
| e_swap2: "\<lbrakk>echo_reach W X n; echo_reach W X m\<rbrakk> \<Longrightarrow> echo_reach W X (snd (EchoMsg_swap b n m))"
| e_size: "echo_reach W X m \<Longrightarrow> echo_reach W X (snd (EchoMsg_size W X m))"
| e_parse: "\<lbrakk>echo_reach W X m; parse_loop (EchoMsg_turn W X) m inp = Some (ok, m', r)\<rbrakk> \<Longrightarrow> echo_reach W X m'"

inductive request_reach ::
    "'u wire_lib \<Rightarrow> ('n \<Rightarrow> byte list \<Rightarrow> 'n \<times> byte list option) \<Rightarrow> ('u, 'n :: zero) OperaReqMsg \<Rightarrow> bool" for W rd where
  q_new: "request_reach W rd (OperaReqMsg_new W)"
| q_copy: "request_reach W rd m \<Longrightarrow> request_reach W rd (OperaReqMsg_copy W m)"
| q_set_a: "request_reach W rd m \<Longrightarrow> request_reach W rd (set_a v m)"
| q_set_b: "request_reach W rd m \<Longrightarrow> request_reach W rd (set_b v m)"
| q_clear_a: "request_reach W rd m \<Longrightarrow> request_reach W rd (clear_a m)"
| q_clear_b: "request_reach W rd m \<Longrightarrow> request_reach W rd (clear_b m)"
| q_clear: "request_reach W rd m \<Longrightarrow> request_reach W rd (OperaReqMsg_clear W m)"
| q_merge: "\<lbrakk>request_reach W rd n; request_reach W rd m\<rbrakk> \<Longrightarrow> request_reach W rd (OperaReqMsg_merge W n m)"
| q_copy_from: "\<lbrakk>request_reach W rd n; request_reach W rd m\<rbrakk> \<Longrightarrow> request_reach W rd (OperaReqMsg_CopyFrom W b n m)"
| q_swap1: "\<lbrakk>request_reach W rd n; request_reach W rd m\<rbrakk> \<Longrightarrow> request_reach W rd (fst (OperaReqMsg_swap b n m))"
| q_swap2: "\<lbrakk>request_reach W rd n; request_reach W rd m\<rbrakk> \<Longrightarrow> request_reach W rd (snd (OperaReqMsg_swap b n m))"
| q_size: "request_reach W rd m \<Longrightarrow> request_reach W rd (snd (OperaReqMsg_size W sz m))"
| q_parse: "\<lbrakk>request_reach W rd m; parse_loop (OperaReqMsg_turn W la lb rd) m inp = Some (ok, m', r)\<rbrakk>
    \<Longrightarrow> request_reach W rd m'"

inductive result_reach ::
    "'u wire_lib \<Rightarrow> ('n \<Rightarrow> byte list \<Rightarrow> 'n \<times> byte list option) \<Rightarrow> ('u, 'n :: zero) OperaResMsg \<Rightarrow> bool" for W rd where
  s_new: "result_reach W rd (OperaResMsg_new W)"
| s_copy: "result_reach W rd m \<Longrightarrow> result_reach W rd (OperaResMsg_copy W m)"
| s_set_c: "result_reach W rd m \<Longrightarrow> result_reach W rd (set_c v m)"
| s_clear_c: "result_reach W rd m \<Longrightarrow> result_reach W rd (clear_c m)"
| s_clear: "result_reach W rd m \<Longrightarrow> result_reach W rd (OperaResMsg_clear W m)"
| s_merge: "\<lbrakk>result_reach W rd n; result_reach W rd m\<rbrakk> \<Longrightarrow> result_reach W rd (OperaResMsg_merge W n m)"
| s_copy_from: "\<lbrakk>result_reach W rd n; result_reach W rd m\<rbrakk> \<Longrightarrow> result_reach W rd (OperaResMsg_CopyFrom W b n m)"
| s_swap1: "\<lbrakk>result_reach W rd n; result_reach W rd m\<rbrakk> \<Longrightarrow> result_reach W rd (fst (OperaResMsg_swap b n m))"
| s_swap2: "\<lbrakk>result_reach W rd n; result_reach W rd m\<rbrakk> \<Longrightarrow> result_reach W rd (snd (OperaResMsg_swap b n m))"
| s_size: "result_reach W rd m \<Longrightarrow> result_reach W rd (snd (OperaResMsg_size W sz m))"
| s_parse: "\<lbrakk>result_reach W rd m; parse_loop (OperaResMsg_turn W lc rd) m inp = Some (ok, m', r)\<rbrakk>
    \<Longrightarrow> result_reach W rd m'"

lemma cached_wf [simp]:
  "echo_wf (e\<lparr>em_cached_size := k\<rparr>) = echo_wf e" "request_wf (q\<lparr>oq_cached_size := k\<rparr>) = request_wf q"
  "result_wf (s\<lparr>os_cached_size := k\<rparr>) = result_wf s"
  by (simp_all add: echo_wf_def request_wf_def result_wf_def)

lemma size_caches:
  "snd (EchoMsg_size W X e) = e\<lparr>em_cached_size := ToCachedSize W (fst (EchoMsg_size W X e))\<rparr>"
  "snd (OperaReqMsg_size W sz q) = q\<lparr>oq_cached_size := ToCachedSize W (fst (OperaReqMsg_size W sz q))\<rparr>"
  "snd (OperaResMsg_size W sz s) = s\<lparr>os_cached_size := ToCachedSize W (fst (OperaResMsg_size W sz s))\<rparr>"
  by (simp_all add: EchoMsg_size_def OperaReqMsg_size_def OperaResMsg_size_def Let_def)

lemma accessors_wf:
  "echo_wf e \<Longrightarrow> echo_wf (set_text x e)" "echo_wf e \<Longrightarrow> echo_wf (set_text_c_string x e)"
  "echo_wf e \<Longrightarrow> echo_wf (set_text_mem x n e)" "echo_wf e \<Longrightarrow> echo_wf (mutable_text f e)"
  "echo_wf e \<Longrightarrow> echo_wf (snd (release_text e))" "echo_wf e \<Longrightarrow> echo_wf (set_allocated_text v e)"
  "echo_wf e \<Longrightarrow> echo_wf (clear_text e)"
  "request_wf q \<Longrightarrow> request_wf (set_a i q)" "request_wf q \<Longrightarrow> request_wf (set_b i q)"
  "request_wf q \<Longrightarrow> request_wf (clear_a q)" "request_wf q \<Longrightarrow> request_wf (clear_b q)"
  "result_wf s \<Longrightarrow> result_wf (set_c j s)" "result_wf s \<Longrightarrow> result_wf (clear_c s)"
  by (auto simp: echo_wf_def text_accessors set_text_def split: option.splits)
    (auto simp: request_wf_def result_wf_def number_accessors set_a_def set_b_def set_c_def)

lemma swap_wf:
  "\<lbrakk>echo_wf e; echo_wf e'\<rbrakk> \<Longrightarrow> echo_wf (fst (EchoMsg_swap b e e')) \<and> echo_wf (snd (EchoMsg_swap b e e'))"
  "\<lbrakk>request_wf q; request_wf q'\<rbrakk> \<Longrightarrow>
    request_wf (fst (OperaReqMsg_swap b q q')) \<and> request_wf (snd (OperaReqMsg_swap b q q'))"
  "\<lbrakk>result_wf s; result_wf s'\<rbrakk> \<Longrightarrow>
    result_wf (fst (OperaResMsg_swap b s s')) \<and> result_wf (snd (OperaResMsg_swap b s s'))"
  by (simp_all add: EchoMsg_swap_def OperaReqMsg_swap_def OperaResMsg_swap_def)

lemma echo_reach_wf:
  assumes "example_wire W X" "echo_reach W X e"
  shows "echo_wf e"
  using assms(2)
proof (induction rule: echo_reach.induct)
  case (e_parse m inp ok m' r)
  from example_wire.echo_keep [OF assms(1) e_parse(2), of echo_wf] e_parse.IH
  show ?case by (simp add: readers_keep)
qed (simp_all add: wire.ops_wf [OF example_wire.axioms(1) [OF assms(1)]] accessors_wf swap_wf size_caches
    EchoMsg_CopyFrom_def)

lemma request_reach_wf:
  assumes "number_codec W wr rd wt" "request_reach W rd q"
  shows "request_wf q"
  using assms(2)
proof (induction rule: request_reach.induct)
  case (q_parse m la lb inp ok m' r)
  from number_codec.operands_keep [OF assms(1) q_parse(2), of request_wf] q_parse.IH
  show ?case by (simp add: readers_keep)
qed (simp_all add: wire.ops_wf [OF number_codec.axioms(1) [OF assms(1)]] accessors_wf swap_wf size_caches
    OperaReqMsg_CopyFrom_def)

lemma result_reach_wf:
  assumes "number_codec W wr rd wt" "result_reach W rd s"
  shows "result_wf s"
  using assms(2)
proof (induction rule: result_reach.induct)
  case (s_parse m lc inp ok m' r)
  from number_codec.result_keep [OF assms(1) s_parse(2), of result_wf] s_parse.IH
  show ?case by (simp add: readers_keep)
qed (simp_all add: wire.ops_wf [OF number_codec.axioms(1) [OF assms(1)]] accessors_wf swap_wf size_caches
    OperaResMsg_CopyFrom_def)

section \<open>The serialisers agree\<close>

lemma request_mask: "((h :: u32) AND 3) XOR 3 = 0 \<longleftrightarrow> bit h 0 \<and> bit h 1"
  unfolding xor_eq_0 by (simp add: and_eq_mask_iff mask_simps bit_not_iff)

context wire
begin

lemma operands_to_array:
  assumes "\<And>k v t. wa k v t = t @ wr k v"
  shows "OperaReqMsg_to_array W wa m target = target @ OperaReqMsg_serialize W wr m"
  by (simp add: OperaReqMsg_to_array_def OperaReqMsg_serialize_def Let_def assms to_array)

lemma result_to_array:
  assumes "\<And>k v t. wa k v t = t @ wr k v"
  shows "OperaResMsg_to_array W wa m target = target @ OperaResMsg_serialize W wr m"
  by (simp add: OperaResMsg_to_array_def OperaResMsg_serialize_def Let_def assms to_array)

lemma operands_size:
  assumes "\<And>k v. \<lbrakk>1 \<le> k; k \<le> 15\<rbrakk> \<Longrightarrow> of_nat (length (wr k v)) = 1 + sz v"
  shows "fst (OperaReqMsg_size W sz m) = of_nat (length (OperaReqMsg_serialize W wr m))"
proof -
  have "of_nat (length (wr 1 v)) = 1 + sz v" "of_nat (length (wr 2 v)) = 1 + sz v" for v
    using assms [of 1 v] assms [of 2 v] by simp_all
  then show ?thesis
    unfolding OperaReqMsg_size_def OperaReqMsg_size_fallback_def OperaReqMsg_serialize_def Let_def
      request_mask has_bit_simps number_accessors
    by (cases "bit (oq_has_bits m) 0"; cases "bit (oq_has_bits m) 1") (simp_all add: sizes)
qed

lemma result_size:
  assumes "\<And>k v. \<lbrakk>1 \<le> k; k \<le> 15\<rbrakk> \<Longrightarrow> of_nat (length (wr k v)) = 1 + sz v"
  shows "fst (OperaResMsg_size W sz m) = of_nat (length (OperaResMsg_serialize W wr m))"
  using assms [of 1 "os_c m"]
  by (simp add: OperaResMsg_size_def OperaResMsg_serialize_def Let_def number_accessors sizes)

end

context example_wire
begin

lemma echo_to_array: "EchoMsg_to_array W X m target = target @ EchoMsg_serialize W X m"
  by (simp add: EchoMsg_to_array_def EchoMsg_serialize_def Let_def text_to_array to_array)

lemma echo_size: "fst (EchoMsg_size W X m) = of_nat (length (EchoMsg_serialize W X m))"
  using text_size [of 1 "em_text m"]
  by (simp add: EchoMsg_size_def EchoMsg_serialize_def Let_def text_accessors sizes)

end

lemma number_sizes:
  assumes "example_wire W X"
  shows "fst (OperaReqMsg_size W (Int64Size W) q) = of_nat (length (OperaReqMsg_serialize W (WriteInt64 W) q))"
    and "fst (OperaResMsg_size W (Int64Size W) s) = of_nat (length (OperaResMsg_serialize W (WriteInt64 W) s))"
    and "fst (OperaReqF_size W qf) = of_nat (length (OperaReqMsg_serialize W (WriteFloat X) qf))"
    and "fst (OperaResF_size W sf) = of_nat (length (OperaResMsg_serialize W (WriteFloat X) sf))"
proof -
  have w: "wire W" using assms by (rule example_wire.axioms)
  show "fst (OperaReqMsg_size W (Int64Size W) q) = of_nat (length (OperaReqMsg_serialize W (WriteInt64 W) q))"
    "fst (OperaResMsg_size W (Int64Size W) s) = of_nat (length (OperaResMsg_serialize W (WriteInt64 W) s))"
    by (rule wire.operands_size [OF w] wire.result_size [OF w]; simp add: wire.sizes [OF w])+
  show "fst (OperaReqF_size W qf) = of_nat (length (OperaReqMsg_serialize W (WriteFloat X) qf))"
    "fst (OperaResF_size W sf) = of_nat (length (OperaResMsg_serialize W (WriteFloat X) sf))"
    unfolding OperaReqF_size_def OperaResF_size_def
    by (rule wire.operands_size [OF w] wire.result_size [OF w];
        rule example_wire.float_size [OF assms]; assumption)+
qed

section \<open>Properties\<close>

text \<open>C21: In the classes of the example services the two serialisers write the same bytes, and
  \<open>ByteSizeLong\<close>, on both of its paths, gives their number modulo 2^64.\<close>

theorem example_serializers_agree:
  assumes "example_wire W X"
  shows "EchoMsg_to_array W X e target = target @ EchoMsg_serialize W X e
    \<and> fst (EchoMsg_size W X e) = of_nat (length (EchoMsg_serialize W X e))
    \<and> OperaReqMsg_to_array W (WriteInt64ToArray W) q target = target @ OperaReqMsg_serialize W (WriteInt64 W) q
    \<and> fst (OperaReqMsg_size W (Int64Size W) q) = of_nat (length (OperaReqMsg_serialize W (WriteInt64 W) q))
    \<and> OperaResMsg_to_array W (WriteInt64ToArray W) s target = target @ OperaResMsg_serialize W (WriteInt64 W) s
    \<and> fst (OperaResMsg_size W (Int64Size W) s) = of_nat (length (OperaResMsg_serialize W (WriteInt64 W) s))
    \<and> OperaReqF_to_array W X qf target = target @ OperaReqMsg_serialize W (WriteFloat X) qf
    \<and> fst (OperaReqF_size W qf) = of_nat (length (OperaReqMsg_serialize W (WriteFloat X) qf))
    \<and> OperaResF_to_array W X sf target = target @ OperaResMsg_serialize W (WriteFloat X) sf
    \<and> fst (OperaResF_size W sf) = of_nat (length (OperaResMsg_serialize W (WriteFloat X) sf))"
proof -
  have w: "wire W" using assms by (rule example_wire.axioms)
  note arrays = wire.operands_to_array [OF w] wire.result_to_array [OF w]
  have "OperaReqMsg_to_array W (WriteInt64ToArray W) q target = target @ OperaReqMsg_serialize W (WriteInt64 W) q"
    "OperaResMsg_to_array W (WriteInt64ToArray W) s target = target @ OperaResMsg_serialize W (WriteInt64 W) s"
    by (rule arrays, rule wire.to_array [OF w])+
  moreover have "OperaReqF_to_array W X qf target = target @ OperaReqMsg_serialize W (WriteFloat X) qf"
    "OperaResF_to_array W X sf target = target @ OperaResMsg_serialize W (WriteFloat X) sf"
    unfolding OperaReqF_to_array_def OperaResF_to_array_def
    by (rule arrays, rule example_wire.float_to_array [OF assms])+
  ultimately show ?thesis
    using number_sizes [OF assms] example_wire.echo_to_array [OF assms] example_wire.echo_size [OF assms] by blast
qed

theorem example_serializers_agree_witness:
  "EchoMsg_to_array varint_lib text_float (set_text [104, 105] (EchoMsg_new varint_lib)) [7] = [7, 10, 2, 104, 105]
   \<and> fst (OperaReqMsg_size varint_lib (Int64Size varint_lib) (set_b 300 (OperaReqMsg_new varint_lib))) = 3
   \<and> fst (OperaResF_size varint_lib (set_c 0 (OperaResMsg_new varint_lib))) = 5"
proof -
  note agree = example_serializers_agree [OF example_varint.example_wire_axioms,
      of "set_text [104, 105] (EchoMsg_new varint_lib)" "[7]" "set_b 300 (OperaReqMsg_new varint_lib)"
        "OperaResMsg_new varint_lib" "OperaReqMsg_new varint_lib" "set_c 0 (OperaResMsg_new varint_lib)"]
  have "EchoMsg_serialize varint_lib text_float (set_text [104, 105] (EchoMsg_new varint_lib)) = [10, 2, 104, 105]"
    "length (OperaReqMsg_serialize varint_lib (WriteInt64 varint_lib) (set_b 300 (OperaReqMsg_new varint_lib))) = 3"
    "length (OperaResMsg_serialize varint_lib (WriteFloat text_float) (set_c 0 (OperaResMsg_new varint_lib))) = 5"
    by code_simp+
  with agree show ?thesis by simp
qed

text \<open>Copying from a \<open>Message\<close> of any class forgets what the target held: the copy equals a message of the
  class, and any other is reflected onto a new one (cached sizes stay).\<close>

theorem general_copies:
  fixes q q' :: "('a, 'n :: zero) OperaReqMsg" and s s' :: "('a, 'n) OperaResMsg"
  assumes "wire W" "echo_wf e" "echo_wf e'" "request_wf q" "request_wf q'" "result_wf s" "result_wf s'"
  shows "EchoMsg_copy_message W re False (SameClass e) e' = e\<lparr>em_cached_size := em_cached_size e'\<rparr>"
    "EchoMsg_copy_message W re False (OtherClass x) e' = re x ((EchoMsg_new W)\<lparr>em_cached_size := em_cached_size e'\<rparr>)"
    "OperaReqMsg_copy_message W rq False (SameClass q) q' = q\<lparr>oq_cached_size := oq_cached_size q'\<rparr>"
    "OperaReqMsg_copy_message W rq False (OtherClass x) q' = rq x ((OperaReqMsg_new W)\<lparr>oq_cached_size := oq_cached_size q'\<rparr>)"
    "OperaResMsg_copy_message W rs False (SameClass s) s' = s\<lparr>os_cached_size := os_cached_size s'\<rparr>"
    "OperaResMsg_copy_message W rs False (OtherClass x) s' = rs x ((OperaResMsg_new W)\<lparr>os_cached_size := os_cached_size s'\<rparr>)"
  using assms(2-)
  by (simp_all add: EchoMsg_copy_message_def EchoMsg_merge_message_def OperaReqMsg_copy_message_def
      OperaReqMsg_merge_message_def OperaResMsg_copy_message_def OperaResMsg_merge_message_def
      wire.echo_copying(1) [OF assms(1)] wire.request_copying(1) [OF assms(1)] wire.result_copying(1) [OF assms(1)])
    (simp_all add: wire.echo_copying(3) [OF assms(1)] wire.request_copying(3) [OF assms(1)]
      wire.result_copying(3) [OF assms(1)])

text \<open>C23: Between messages of the example classes made by any public operations (parses that fail included),
  whatever the target held, \<open>CopyFrom\<close> and the copy constructor make an equal message, \<open>Clear\<close> a new one
  and \<open>Swap\<close> exchanges two messages (cached sizes stay where they are); \<open>MergeFrom\<close> overlays the fields
  present in its argument.\<close>

theorem example_copying:
  fixes q q' :: "('a, 'n :: zero) OperaReqMsg" and s s' :: "('a, 'n) OperaResMsg"
  assumes "example_wire W X" "number_codec W wr rd wt" "echo_reach W X e" "echo_reach W X e'"
    "request_reach W rd q" "request_reach W rd q'" "result_reach W rd s" "result_reach W rd s'"
  shows "EchoMsg_CopyFrom W False e e' = e\<lparr>em_cached_size := em_cached_size e'\<rparr>
    \<and> EchoMsg_copy W e = e\<lparr>em_cached_size := 0\<rparr>
    \<and> EchoMsg_clear W e' = (EchoMsg_new W)\<lparr>em_cached_size := em_cached_size e'\<rparr>
    \<and> EchoMsg_swap False e e' = (EchoMsg_CopyFrom W False e' e, EchoMsg_CopyFrom W False e e')
    \<and> echo_content (EchoMsg_merge W e e') = merge_one W (echo_content e) (echo_content e')
    \<and> OperaReqMsg_CopyFrom W False q q' = q\<lparr>oq_cached_size := oq_cached_size q'\<rparr>
    \<and> OperaReqMsg_copy W q = q\<lparr>oq_cached_size := 0\<rparr>
    \<and> OperaReqMsg_clear W q' = (OperaReqMsg_new W)\<lparr>oq_cached_size := oq_cached_size q'\<rparr>
    \<and> OperaReqMsg_swap False q q' = (OperaReqMsg_CopyFrom W False q' q, OperaReqMsg_CopyFrom W False q q')
    \<and> request_content (OperaReqMsg_merge W q q') = merge_two W (request_content q) (request_content q')
    \<and> OperaResMsg_CopyFrom W False s s' = s\<lparr>os_cached_size := os_cached_size s'\<rparr>
    \<and> OperaResMsg_copy W s = s\<lparr>os_cached_size := 0\<rparr>
    \<and> OperaResMsg_clear W s' = (OperaResMsg_new W)\<lparr>os_cached_size := os_cached_size s'\<rparr>
    \<and> OperaResMsg_swap False s s' = (OperaResMsg_CopyFrom W False s' s, OperaResMsg_CopyFrom W False s s')
    \<and> result_content (OperaResMsg_merge W s s') = merge_one W (result_content s) (result_content s')"
proof -
  have w: "wire W" using assms(1) by (rule example_wire.axioms)
  note echo = wire.echo_copying [OF w] and request = wire.request_copying [OF w] and result = wire.result_copying [OF w]
  have wf: "echo_wf e" "echo_wf e'" "request_wf q" "request_wf q'" "result_wf s" "result_wf s'"
    using echo_reach_wf [OF assms(1)] request_reach_wf [OF assms(2)] result_reach_wf [OF assms(2)] assms(3-)
    by simp_all
  have copied: "\<lbrakk>echo_wf x; echo_wf x'\<rbrakk> \<Longrightarrow> EchoMsg_CopyFrom W False x x' = x\<lparr>em_cached_size := em_cached_size x'\<rparr>"
    "\<lbrakk>request_wf y; request_wf y'\<rbrakk> \<Longrightarrow>
      OperaReqMsg_CopyFrom W False y y' = y\<lparr>oq_cached_size := oq_cached_size y'\<rparr>"
    "\<lbrakk>result_wf z; result_wf z'\<rbrakk> \<Longrightarrow>
      OperaResMsg_CopyFrom W False z z' = z\<lparr>os_cached_size := os_cached_size z'\<rparr>"
    for x x' and y y' :: "('a, 'n) OperaReqMsg" and z z' :: "('a, 'n) OperaResMsg"
    by (simp_all add: EchoMsg_CopyFrom_def OperaReqMsg_CopyFrom_def OperaResMsg_CopyFrom_def echo(1) request(1) result(1))
  show ?thesis
    using wf
    by (simp add: copied EchoMsg_swap_def OperaReqMsg_swap_def OperaResMsg_swap_def echo(2-) request(2-) result(2-))
qed

theorem example_copying_witness:
  "EchoMsg_CopyFrom varint_lib False (set_text [9] (EchoMsg_new varint_lib)) (EchoMsg_new varint_lib)
     = set_text [9] (EchoMsg_new varint_lib)
   \<and> OperaReqMsg_clear varint_lib (set_a (5 :: s64) (OperaReqMsg_new varint_lib)) = OperaReqMsg_new varint_lib
   \<and> request_content (OperaReqMsg_merge varint_lib (set_b 7 (OperaReqMsg_new varint_lib))
       (set_a (5 :: s64) (OperaReqMsg_new varint_lib))) = (Some 5, Some 7, [])"
proof -
  let ?e = "set_text [9] (EchoMsg_new varint_lib)" and ?s = "OperaResMsg_new varint_lib :: (byte list, s64) OperaResMsg"
    and ?a = "set_a (5 :: s64) (OperaReqMsg_new varint_lib)" and ?b = "set_b (7 :: s64) (OperaReqMsg_new varint_lib)"
  have reach: "echo_reach varint_lib text_float ?e" "echo_reach varint_lib text_float (EchoMsg_new varint_lib)"
    "request_reach varint_lib (ReadInt64 varint_lib) ?a" "request_reach varint_lib (ReadInt64 varint_lib) ?b"
    "result_reach varint_lib (ReadInt64 varint_lib) ?s"
    by (intro echo_reach.intros request_reach.intros result_reach.intros)+
  note copying = example_copying [OF example_varint.example_wire_axioms example_varint.int64.number_codec_axioms
      reach(1,2,4,3,5,5)]
  have "EchoMsg_CopyFrom varint_lib False ?e (EchoMsg_new varint_lib)
      = ?e\<lparr>em_cached_size := em_cached_size (EchoMsg_new varint_lib)\<rparr>"
    and "OperaReqMsg_clear varint_lib ?a = (OperaReqMsg_new varint_lib)\<lparr>oq_cached_size := oq_cached_size ?a\<rparr>"
    and "request_content (OperaReqMsg_merge varint_lib ?b ?a) = merge_two varint_lib (request_content ?b) (request_content ?a)"
    using copying by blast+
  then show ?thesis
    by (simp add: echo_defs request_defs merge_two_def merge_one_def varint_lib_def)
qed

end
