(* ===== verification/StringUtil.thy ===== *)
theory StringUtil
  imports Prelude
begin

text \<open>
  The string splitter (\<open>util/StringUtil.cc\<close>): two overloads of the same loop over the string with
  the pattern appended. Strings are lists of characters. The loop may not end, so it is a partial
  function. \<open>split_spec\<close> is the splitting it is meant to compute: cut at each first occurrence of
  the pattern.
\<close>

section \<open>The source\<close>

text \<open>\<open>std::string::find(pattern, i)\<close>: the first position from \<open>i\<close> on where the pattern stands, or
  \<open>npos\<close>.\<close>

definition occurs_at :: "'a list \<Rightarrow> 'a list \<Rightarrow> nat \<Rightarrow> bool" where
  "occurs_at pattern str k \<longleftrightarrow> take (length pattern) (drop k str) = pattern"

definition string_find :: "'a list \<Rightarrow> 'a list \<Rightarrow> nat \<Rightarrow> nat option" where
  "string_find pattern str i = List.find (occurs_at pattern str) [i..<Suc (length str)]"

text \<open>A conversion to \<open>int\<close>.\<close>

definition to_int32 :: "int \<Rightarrow> int" where
  "to_int32 x = sint (of_int x :: s32)"

text \<open>The loop, with its counter \<open>i\<close>; \<open>pos < size\<close> is false for \<open>npos\<close>. The assignment
  \<open>i = pos + pattern.size() - 1\<close> is followed by the loop's \<open>i++\<close>.\<close>

partial_function (option) split_loop ::
    "'a list \<Rightarrow> 'a list \<Rightarrow> int \<Rightarrow> int \<Rightarrow> 'a list list \<Rightarrow> 'a list list option" where
  "split_loop pattern str sz i result =
     (if i < sz then
        (case string_find pattern str (nat i) of
           None \<Rightarrow> split_loop pattern str sz (i + 1) result
         | Some pos \<Rightarrow>
             if int pos < sz then
               split_loop pattern str sz (to_int32 (int pos + int (length pattern) - 1) + 1)
                 (result @ [take (pos - nat i) (drop (nat i) str)])
             else split_loop pattern str sz (i + 1) result)
      else Some result)"

declare split_loop.simps [code]

definition split :: "'a list \<Rightarrow> 'a list \<Rightarrow> 'a list list option" where
  "split str pattern =
     (let str = str @ pattern; sz = to_int32 (int (length str)) in split_loop pattern str sz 0 [])"

text \<open>The second overload appends the parts to a vector the caller passes.\<close>

definition split_into :: "'a list \<Rightarrow> 'a list list \<Rightarrow> 'a list \<Rightarrow> 'a list list option" where
  "split_into src result pattern =
     (let src = src @ pattern; sz = to_int32 (int (length src)) in split_loop pattern src sz 0 result)"

section \<open>The specification\<close>

lemma string_find_SomeD:
  assumes "string_find p s i = Some k"
  shows "i \<le> k" "k \<le> length s" "occurs_at p s k" "\<And>j. i \<le> j \<Longrightarrow> j < k \<Longrightarrow> \<not> occurs_at p s j"
proof -
  obtain n where n: "n < length [i..<Suc (length s)]" "occurs_at p s ([i..<Suc (length s)] ! n)"
    "k = [i..<Suc (length s)] ! n" "\<forall>j < n. \<not> occurs_at p s ([i..<Suc (length s)] ! j)"
    using assms unfolding string_find_def find_Some_iff by blast
  have l: "n < Suc (length s) - i" using n(1) by (simp del: upt_Suc)
  then have k: "k = i + n" using n(3) by (simp del: upt_Suc)
  then show "i \<le> k" "k \<le> length s" using l by auto
  show "occurs_at p s k" using n(2,3) by simp
  fix j
  assume "i \<le> j" "j < k"
  then show "\<not> occurs_at p s j"
    using n(4) [THEN spec, of "j - i"] k l by (simp del: upt_Suc)
qed

lemma string_find_SomeI:
  assumes "i \<le> k" "k \<le> length s" "occurs_at p s k" "\<And>j. i \<le> j \<Longrightarrow> j < k \<Longrightarrow> \<not> occurs_at p s j"
  shows "string_find p s i = Some k"
  unfolding string_find_def find_Some_iff
  using assms by (intro exI [of _ "k - i"]) (auto simp del: upt_Suc)

lemma string_find_NoneD: "\<lbrakk>string_find p s i = None; i \<le> j; j \<le> length s\<rbrakk> \<Longrightarrow> \<not> occurs_at p s j"
  unfolding string_find_def find_None_iff by (auto simp del: upt_Suc)

lemma occurs_at_length: "\<lbrakk>occurs_at p s k; p \<noteq> []\<rbrakk> \<Longrightarrow> k + length p \<le> length s \<and> 0 < length p"
proof -
  assume o: "occurs_at p s k" and "p \<noteq> []"
  then have "0 < length p" by simp
  moreover have "min (length p) (length s - k) = length p"
    using arg_cong [OF o [unfolded occurs_at_def], of length] by simp
  ultimately show ?thesis by linarith
qed

function split_spec :: "'a list \<Rightarrow> 'a list \<Rightarrow> 'a list list" where
  "split_spec p s = (if p = [] then [s]
     else case string_find p s 0 of
       None \<Rightarrow> [s]
     | Some k \<Rightarrow> take k s # split_spec p (drop (k + length p) s))"
  by auto
termination
proof (relation "measure (\<lambda>(p, s). length s)")
  fix p s :: "'a list" and k
  assume "p \<noteq> []" "string_find p s 0 = Some k"
  then have "k + length p \<le> length s \<and> 0 < length p"
    using occurs_at_length string_find_SomeD(3) by blast
  then have "length s - (k + length p) < length s" by linarith
  then show "((p, drop (k + length p) s), p, s) \<in> measure (\<lambda>(p, s). length s)" by simp
qed simp

declare split_spec.simps [simp del]

fun join :: "'a list \<Rightarrow> 'a list list \<Rightarrow> 'a list" where
  "join p [] = []"
| "join p [x] = x"
| "join p (x # y # ys) = x @ p @ join p (y # ys)"

text \<open>The specification splits: joined, the parts are the string, and no part contains the pattern.\<close>

lemma split_spec_nonempty: "split_spec p s \<noteq> []"
  by (subst split_spec.simps) (simp split: option.split)

lemma join_Cons: "xs \<noteq> [] \<Longrightarrow> join p (x # xs) = x @ p @ join p xs"
  by (cases xs) simp_all

lemma occurs_at_split: "occurs_at p s k \<Longrightarrow> s = take k s @ p @ drop (k + length p) s"
  by (metis append_take_drop_id add.commute drop_drop occurs_at_def)

lemma split_spec_join: "join p (split_spec p s) = s"
proof (induction p s rule: split_spec.induct)
  case (1 p s)
  show ?case
  proof (cases "p = [] \<or> string_find p s 0 = None")
    case True
    then show ?thesis by (auto simp: split_spec.simps [of p s])
  next
    case False
    then obtain k where k: "p \<noteq> []" "string_find p s 0 = Some k" by auto
    with 1 show ?thesis
      using occurs_at_split [OF string_find_SomeD(3) [OF k(2)]]
      by (simp add: split_spec.simps [of p s] join_Cons split_spec_nonempty)
  qed
qed

lemma occurs_at_take:
  "occurs_at p (take k s) j \<Longrightarrow> p \<noteq> [] \<Longrightarrow> occurs_at p s j"
  using occurs_at_length [of p "take k s" j]
  by (simp add: occurs_at_def drop_take min_def split: if_splits)

lemma split_spec_parts: "\<lbrakk>x \<in> set (split_spec p s); p \<noteq> []\<rbrakk> \<Longrightarrow> \<not> occurs_at p x j"
proof (induction p s arbitrary: x rule: split_spec.induct)
  case (1 p s)
  show ?case
  proof
    assume o: "occurs_at p x j"
    show False
    proof (cases "string_find p s 0")
      case None
      with 1(2,3) have "x = s" by (simp add: split_spec.simps [of p s])
      with None o occurs_at_length [OF o 1(3)] show False
        using string_find_NoneD [of p s 0 j] by simp
    next
      case (Some k)
      then have "x = take k s \<or> x \<in> set (split_spec p (drop (k + length p) s))"
        using 1(2,3) by (simp add: split_spec.simps [of p s])
      then show False
      proof
        assume x: "x = take k s"
        with o have t: "occurs_at p (take k s) j" by simp
        have "occurs_at p s j" by (rule occurs_at_take [OF t 1(3)])
        moreover have "j < k" using occurs_at_length [OF t 1(3)] unfolding length_take by linarith
        ultimately show False using string_find_SomeD(4) [OF Some, of j] by simp
      next
        assume "x \<in> set (split_spec p (drop (k + length p) s))"
        with 1(1) [OF 1(3) Some] 1(3) o show False by simp
      qed
    qed
  qed
qed

section \<open>The loop against the specification\<close>

text \<open>A pattern is free of borders when no proper prefix of it is also a suffix.\<close>

definition border_free :: "'a list \<Rightarrow> bool" where
  "border_free p \<longleftrightarrow> (\<forall>k \<in> {0<..<length p}. take k p \<noteq> drop (length p - k) p)"

lemma to_int32_small: "\<lbrakk>0 \<le> x; x < 2147483648\<rbrakk> \<Longrightarrow> to_int32 x = x"
  unfolding to_int32_def by (rule sint_of_int_s32) auto

text \<open>In the string with the pattern appended, an occurrence is one in the string, one that straddles
  the seam (which needs a border) or the appended pattern.\<close>

lemma occurs_at_append:
  assumes "k + length p \<le> length s"
  shows "occurs_at p (s @ p) k \<longleftrightarrow> occurs_at p s k"
  using assms by (simp add: occurs_at_def)

lemma occurs_at_end: "occurs_at p (s @ p) (length s)"
  by (simp add: occurs_at_def)

lemma occurs_at_seam:
  assumes "border_free p" "k < length s" "length s < k + length p"
  shows "\<not> occurs_at p (s @ p) k"
proof
  assume "occurs_at p (s @ p) k"
  then have o: "drop k s @ take (k + length p - length s) p = p"
    using assms(2,3) by (simp add: occurs_at_def add.commute)
  let ?b = "k + length p - length s"
  have "drop (length p - ?b) p = drop (length s - k) (drop k s @ take ?b p)"
    unfolding o using assms(2,3) by simp
  also have "\<dots> = take ?b p" using assms(2) by simp
  finally have "take ?b p = drop (length p - ?b) p" by simp
  moreover have "?b \<in> {0<..<length p}" using assms(2,3) by auto
  ultimately show False using assms(1) unfolding border_free_def by blast
qed

lemma occurs_at_drop: "i \<le> length s \<Longrightarrow> occurs_at p (drop i s) k \<longleftrightarrow> occurs_at p s (i + k)"
  by (simp add: occurs_at_def add.commute)

text \<open>What the loop finds from position \<open>i\<close>.\<close>

lemma find_none:
  assumes "border_free p" "p \<noteq> []" "i \<le> length s" "string_find p (drop i s) 0 = None"
  shows "string_find p (s @ p) i = Some (length s)"
proof (rule string_find_SomeI)
  fix j
  assume j: "i \<le> j" "j < length s"
  show "\<not> occurs_at p (s @ p) j"
  proof (cases "j + length p \<le> length s")
    case True
    have "\<not> occurs_at p (drop i s) (j - i)"
      using assms(3) j by (intro string_find_NoneD [OF assms(4)]) auto
    with j assms(3) show ?thesis by (simp add: occurs_at_append [OF True] occurs_at_drop)
  next
    case False
    with j show ?thesis by (intro occurs_at_seam [OF assms(1)]) auto
  qed
qed (use assms(3) occurs_at_end in auto)

lemma find_some:
  assumes "p \<noteq> []" "i \<le> length s" "string_find p (drop i s) 0 = Some k"
  shows "string_find p (s @ p) i = Some (i + k)" "i + k + length p \<le> length s"
proof -
  note f = string_find_SomeD [OF assms(3)]
  have le: "k + length p \<le> length (drop i s)" using occurs_at_length [OF f(3) assms(1)] by simp
  then show len: "i + k + length p \<le> length s"
    using occurs_at_length [OF f(3) assms(1)] assms(2) by simp
  show "string_find p (s @ p) i = Some (i + k)"
  proof (rule string_find_SomeI)
    show "occurs_at p (s @ p) (i + k)"
      using f(3) len assms(2) by (simp add: occurs_at_append occurs_at_drop)
    fix j
    assume j: "i \<le> j" "j < i + k"
    then have "\<not> occurs_at p (drop i s) (j - i)" by (intro f(4)) auto
    moreover have "j + length p \<le> length s" using j len by simp
    ultimately show "\<not> occurs_at p (s @ p) j"
      using j assms(2) by (simp add: occurs_at_append occurs_at_drop)
  qed (use len in simp_all)
qed

lemma split_loop_spec:
  assumes "border_free p" "p \<noteq> []" "length s + length p < 2147483648" "i \<le> length s"
  shows "split_loop p (s @ p) (int (length s + length p)) (int i) result
    = Some (result @ split_spec p (drop i s))"
  using assms(4)
proof (induction "length s - i" arbitrary: i result rule: less_induct)
  case less
  have p: "0 < length p" using assms(2) by simp
  let ?n = "int (length s + length p)"
  have lt: "int i < ?n" using less.prems p by linarith
  have step: "split_loop p (s @ p) ?n (int i) result =
      (case string_find p (s @ p) i of
         None \<Rightarrow> split_loop p (s @ p) ?n (int i + 1) result
       | Some pos \<Rightarrow> if int pos < ?n
           then split_loop p (s @ p) ?n (to_int32 (int pos + int (length p) - 1) + 1)
             (result @ [take (pos - i) (drop i (s @ p))])
           else split_loop p (s @ p) ?n (int i + 1) result)"
    by (subst split_loop.simps) (simp only: lt if_True nat_int)
  show ?case
  proof (cases "string_find p (drop i s) 0")
    case None
    note f = find_none [OF assms(1,2) less.prems None]
    have e: "to_int32 (int (length s) + int (length p) - 1) + 1 = ?n"
      using to_int32_small [of "int (length s) + int (length p) - 1"] assms(3) p by simp
    have "split_loop p (s @ p) ?n (int i) result
        = split_loop p (s @ p) ?n ?n (result @ [drop i s])"
      using less.prems p unfolding step f by (simp add: e [simplified])
    also have "\<dots> = Some (result @ [drop i s])"
      by (subst split_loop.simps) simp
    finally show ?thesis
      using None assms(2) by (simp add: split_spec.simps [of p "drop i s"])
  next
    case (Some k)
    note f = find_some [OF assms(2) less.prems Some]
    have e: "to_int32 (int (i + k) + int (length p) - 1) + 1 = int (i + k + length p)"
      using to_int32_small [of "int (i + k) + int (length p) - 1"] assms(3) p f(2) by simp
    have lt2: "int (i + k) < ?n" using f(2) p by linarith
    have "split_loop p (s @ p) ?n (int i) result
        = split_loop p (s @ p) ?n (int (i + k + length p)) (result @ [take k (drop i s)])"
      unfolding step f(1) option.case if_P [OF lt2] e using f(2) by simp
    also have "\<dots> = Some ((result @ [take k (drop i s)]) @ split_spec p (drop (i + k + length p) s))"
    proof (rule less.hyps)
      show "length s - (i + k + length p) < length s - i" using p f(2) by linarith
    qed (rule f(2))
    finally show ?thesis
      using Some assms(2) by (simp add: split_spec.simps [of p "drop i s"] add.commute add.left_commute)
  qed
qed

lemma split_refines:
  assumes "border_free p" "p \<noteq> []" "length s + length p < 2147483648"
  shows "split s p = Some (split_spec p s)" "split_into s result p = Some (result @ split_spec p s)"
proof -
  have "to_int32 (int (length s + length p)) = int (length s + length p)"
    using assms(3) by (intro to_int32_small) auto
  then show "split s p = Some (split_spec p s)" "split_into s result p = Some (result @ split_spec p s)"
    using split_loop_spec [OF assms, of 0] by (simp_all add: split_def split_into_def)
qed

text \<open>With an empty pattern every turn finds the empty match at \<open>i\<close> and leaves \<open>i\<close> where it was: no
  bound on the number of turns lets the loop return.\<close>

lemma occurs_at_Nil: "string_find [] s i = (if i \<le> length s then Some i else None)"
  by (simp add: string_find_def occurs_at_def upt_conv_Cons del: upt_Suc)

lemma split_loop_Nil_diverges:
  assumes "0 \<le> i" "i < sz" "sz \<le> int (length s)" "sz < 2147483648"
  shows "split_loop [] s sz i result = None"
proof (rule ccontr)
  assume "split_loop [] s sz i result \<noteq> None"
  then obtain r where "split_loop [] s sz i result = Some r" by auto
  moreover have "split_loop p s sz i result = Some r \<Longrightarrow> p = [] \<Longrightarrow> 0 \<le> i \<Longrightarrow> i < sz \<Longrightarrow>
      sz \<le> int (length s) \<Longrightarrow> sz < 2147483648 \<Longrightarrow> False" for p :: "'a list"
  proof (induction p s sz i result r rule: split_loop.raw_induct [rotated, consumes 1])
    case (1 f p s sz i result r)
    have f: "string_find [] s (nat i) = Some (nat i)" using 1(3-) by (simp add: occurs_at_Nil)
    have e: "to_int32 (int (nat i) + int (length []) - 1) + 1 = i"
    proof -
      have "to_int32 (i - 1) = i - 1"
        unfolding to_int32_def using 1(4-) by (intro sint_of_int_s32) auto
      then show ?thesis using 1(4) by simp
    qed
    have "f [] s sz i (result @ [take (nat i - nat i) (drop (nat i) s)]) = Some r"
      using 1(2-) f e by simp
    from 1(1) [OF this] 1(4-) show False by simp
  qed
  ultimately show False using assms by blast
qed

section \<open>Properties\<close>

text \<open>C38: With a non-empty pattern that has no border (any single character, for one) \<open>split\<close> returns,
  and its result is the specification's: the string cut at each first occurrence of the pattern. Joined
  with the pattern the parts give the string back, and no part contains the pattern. The other overload
  appends the same parts to the caller's vector.\<close>

theorem split_correct:
  assumes "border_free p" "p \<noteq> []" "length s + length p < 2147483648"
  shows "\<exists>r. split s p = Some r \<and> r = split_spec p s \<and> join p r = s
    \<and> (\<forall>x \<in> set r. \<forall>j. \<not> occurs_at p x j) \<and> split_into s result p = Some (result @ r)"
  using split_refines [OF assms] split_spec_join split_spec_parts assms(2) by blast

theorem split_correct_witness: "split ''a,b,'' '','' = Some [''a'', ''b'', '''']"
proof -
  have "border_free '',''" by (simp add: border_free_def)
  moreover have "split_spec '','' ''a,b,'' = [''a'', ''b'', '''']"
    by (simp add: split_spec.simps string_find_def occurs_at_def upt_conv_Cons)
  ultimately show ?thesis using split_correct [of "'',''" "''a,b,''" "[]"] by auto
qed

text \<open>With an empty pattern \<open>split\<close> does not return on any non-empty string: every turn of the loop
  adds an empty part and finds the next match where it stands.\<close>

theorem split_empty_pattern_diverges:
  assumes "s \<noteq> []" "length s < 2147483648"
  shows "split s [] = None \<and> split_into s result [] = None"
proof -
  have sz: "to_int32 (int (length s)) = int (length s)"
    using assms(2) by (intro to_int32_small) auto
  have "0 < int (length s)" "int (length s) < 2147483648" using assms by auto
  then show ?thesis
    using split_loop_Nil_diverges [of 0 "int (length s)" s]
    by (simp add: split_def split_into_def sz)
qed

theorem split_empty_pattern_diverges_witness: "split ''ab'' [] = None"
  using split_empty_pattern_diverges [of "''ab''"] by simp

text \<open>A pattern with a border can be found across the end of the string and the appended pattern.
  Splitting a string that ends in \<open>a\<close> by \<open>a\<close> twice drops the last character: the parts no longer
  join to the string.\<close>

theorem split_border_loses_text:
  assumes "a \<noteq> b"
  shows "split [b, a] [a, a] = Some [[b]] \<and> join [a, a] [[b]] \<noteq> [b, a]"
proof -
  have f: "string_find [a, a] [b, a, a, a] 0 = Some 1"
    using assms by (simp add: string_find_def occurs_at_def upt_conv_Cons)
  have g: "string_find [a, a] [b, a, a, a] 3 = None"
    by (simp add: string_find_def occurs_at_def upt_conv_Cons)
  have "split_loop [a, a] [b, a, a, a] 4 0 [] = split_loop [a, a] [b, a, a, a] 4 3 [[b]]"
    by (subst split_loop.simps) (simp add: f to_int32_small [of 2, simplified])
  also have "\<dots> = split_loop [a, a] [b, a, a, a] 4 4 [[b]]"
    by (subst split_loop.simps) (simp add: g)
  also have "\<dots> = Some [[b]]" by (subst split_loop.simps) simp
  finally show ?thesis by (simp add: split_def to_int32_small)
qed

theorem split_border_loses_text_witness: "split ''xa'' ''aa'' = Some [''x'']"
  using split_border_loses_text [of "CHR ''a''" "CHR ''x''"] by simp

end
