(* ===== verification/LinuxNetworkUtil.thy ===== *)
theory LinuxNetworkUtil
  imports Prelude
begin

text \<open>
  The address and hardware-address lookups of a network interface (\<open>util/LinuxNetworkUtil.cc\<close>). The
  operating system is a parameter: what \<open>socket\<close> returns, what the two \<open>ioctl\<close> requests answer for an
  interface name, and \<open>inet_ntoa\<close>. The state is the set of open descriptors.
\<close>

record net_env =
  net_socket :: "nat option" \<comment> \<open>\<open>None\<close>: -1\<close>
  net_SIOCGIFADDR :: "string \<Rightarrow> byte list option" \<comment> \<open>\<open>None\<close>: a negative result\<close>
  net_SIOCGIFHWADDR :: "string \<Rightarrow> byte list option" \<comment> \<open>\<open>sa_data\<close>\<close>
  net_inet_ntoa :: "byte list \<Rightarrow> string"

text \<open>\<open>strncpy\<close> of \<open>net_name.c_str()\<close> into a zeroed \<open>ifr_name\<close> of 16 characters, all but the last.\<close>

definition ifr_name :: "string \<Rightarrow> string" where
  "ifr_name net_name = take 15 (takeWhile (\<lambda>c. c \<noteq> CHR 0x00) net_name)"

text \<open>\<open>sprintf\<close> with \<open>%02x\<close> for an \<open>unsigned char\<close>.\<close>

definition hex_digit :: "nat \<Rightarrow> char" where
  "hex_digit n = ''0123456789abcdef'' ! n"

definition hex02 :: "byte \<Rightarrow> string" where
  "hex02 b = [hex_digit (unat b div 16), hex_digit (unat b mod 16)]"

text \<open>Each function gives its result, the string the caller passed by reference and the descriptors
  open afterwards.\<close>

definition GetIP :: "net_env \<Rightarrow> string \<Rightarrow> string \<Rightarrow> nat set \<Rightarrow> bool \<times> string \<times> nat set" where
  "GetIP env net_name strIP fds =
     (case net_socket env of
        None \<Rightarrow> (False, strIP, fds)
      | Some sock_get_ip \<Rightarrow>
          (let fds = insert sock_get_ip fds
           in case net_SIOCGIFADDR env (ifr_name net_name) of
                None \<Rightarrow> (False, strIP, fds)
              | Some sin_addr \<Rightarrow>
                  (let ipaddr = net_inet_ntoa env sin_addr; fds = fds - {sock_get_ip}
                   in (True, ipaddr, fds))))"

definition GetMAC :: "net_env \<Rightarrow> string \<Rightarrow> string \<Rightarrow> nat set \<Rightarrow> bool \<times> string \<times> nat set" where
  "GetMAC env net_name strMAC fds =
     (case net_socket env of
        None \<Rightarrow> (False, strMAC, fds)
      | Some sock_mac \<Rightarrow>
          (let fds = insert sock_mac fds
           in case net_SIOCGIFHWADDR env (ifr_name net_name) of
                None \<Rightarrow> (False, strMAC, fds)
              | Some sa_data \<Rightarrow>
                  (let mac_addr = hex02 (sa_data ! 0) @ hex02 (sa_data ! 1) @ hex02 (sa_data ! 2)
                         @ hex02 (sa_data ! 3) @ hex02 (sa_data ! 4) @ hex02 (sa_data ! 5);
                       fds = fds - {sock_mac}
                   in (True, mac_addr, fds))))"

section \<open>Reading the hardware address back\<close>

definition digit_val :: "char \<Rightarrow> nat" where
  "digit_val c = (if of_char c < (58 :: nat) then of_char c - 48 else of_char c - 87)"

fun hex_bytes :: "string \<Rightarrow> byte list" where
  "hex_bytes (a # b # cs) = of_nat (16 * digit_val a + digit_val b) # hex_bytes cs"
| "hex_bytes _ = []"

lemma all_digits: "\<forall>n \<in> set [0..<16]. digit_val (hex_digit n) = n"
  by (simp add: hex_digit_def digit_val_def upt_rec)

lemma digit_val_hex: "n < 16 \<Longrightarrow> digit_val (hex_digit n) = n"
  using all_digits by simp

lemma hex_bytes_hex02: "hex_bytes (hex02 b @ cs) = b # hex_bytes cs"
proof -
  have "unat b < 2 ^ LENGTH(8)" by (rule unsigned_less)
  then have "unat b div 16 < 16" by simp
  then have "of_nat (16 * digit_val (hex_digit (unat b div 16)) + digit_val (hex_digit (unat b mod 16))) = b"
    by (simp only: digit_val_hex mod_less_divisor zero_less_numeral mult_div_mod_eq) simp
  then show ?thesis by (simp add: hex02_def)
qed

lemma list_six:
  assumes "6 \<le> length xs"
  shows "[xs ! 0, xs ! 1, xs ! 2, xs ! 3, xs ! 4, xs ! 5] = take 6 xs"
  using assms by (auto simp: list_eq_iff_nth_eq less_Suc_eq nth_Cons' numeral_eq_Suc)

section \<open>Properties\<close>

text \<open>\<open>GetMAC\<close> answers only when the socket and the request succeed, and then with twelve lower-case
  hexadecimal digits that read back as the first six bytes of the hardware address; otherwise the
  caller's string is left as it was.\<close>

theorem GetMAC_roundtrip:
  assumes "net_SIOCGIFHWADDR env (ifr_name net_name) = Some sa_data" "6 \<le> length sa_data"
    and "net_socket env = Some fd"
  shows "\<exists>mac. GetMAC env net_name strMAC fds = (True, mac, fds - {fd}) \<and> length mac = 12
    \<and> hex_bytes mac = take 6 sa_data"
proof -
  have "hex_bytes (hex02 b) = [b]" for b using hex_bytes_hex02 [of b "[]"] by simp
  then show ?thesis
    using assms list_six [OF assms(2)]
    by (simp add: GetMAC_def Let_def hex_bytes_hex02) (simp add: hex02_def)
qed

definition sample_env :: net_env where
  "sample_env = \<lparr>net_socket = Some 7, net_SIOCGIFADDR = (\<lambda>name. None),
     net_SIOCGIFHWADDR = (\<lambda>name. Some [0x00, 0x1b, 0x2c, 0xff, 0x09, 0xa0, 0, 0]),
     net_inet_ntoa = (\<lambda>bs. [])\<rparr>"

theorem GetMAC_roundtrip_witness:
  "\<exists>mac. GetMAC sample_env ''eth0'' [] {} = (True, mac, {}) \<and> length mac = 12
     \<and> hex_bytes mac = [0x00, 0x1b, 0x2c, 0xff, 0x09, 0xa0]"
  using GetMAC_roundtrip [of sample_env "''eth0''" "[0x00, 0x1b, 0x2c, 0xff, 0x09, 0xa0, 0, 0]" 7 "[]" "{}"]
  by (simp add: sample_env_def)

text \<open>A lookup of an interface the system does not know leaves the socket open: both functions
  return without closing it, so each such call costs a descriptor; a lookup that succeeds closes it. In
  both cases only the first fifteen characters of the name count.\<close>

theorem failed_lookup_leaks:
  assumes "net_socket env = Some fd" "fd \<notin> fds"
  shows "(net_SIOCGIFADDR env (ifr_name name) = None \<longrightarrow> GetIP env name str fds = (False, str, insert fd fds))
    \<and> (net_SIOCGIFHWADDR env (ifr_name name) = None \<longrightarrow> GetMAC env name str fds = (False, str, insert fd fds))
    \<and> (net_SIOCGIFADDR env (ifr_name name) \<noteq> None \<longrightarrow> snd (snd (GetIP env name str fds)) = fds)
    \<and> (net_SIOCGIFHWADDR env (ifr_name name) \<noteq> None \<longrightarrow> snd (snd (GetMAC env name str fds)) = fds)"
  using assms by (auto simp: GetIP_def GetMAC_def Let_def)

theorem failed_lookup_leaks_witness: "GetIP sample_env ''nope'' ''x'' {1} = (False, ''x'', {7, 1})"
  using failed_lookup_leaks [of sample_env 7 "{1}" "''nope''" "''x''"] by (simp add: sample_env_def)

end
