(* ===== verification/Spec2Isabelle.thy ===== *)
theory Spec2Isabelle
  imports ExamplePrograms DispatcherThreads FutureRpcClientTest ExampleMessageOps StringUtil LinuxNetworkUtil
begin

text \<open>
  rpc-protobuf-cpp: remote procedure calls between C++ programs, over wangle pipelines and protobuf.
  The development follows the code under \<open>src/\<close>, one theory per component.

  \<^bold>\<open>The program.\<close> A client calls a method of a stub. \<open>RpcChannel::CallMethod\<close> (or a
  \<open>futureRpcCallProxy\<close>, which first selects one of several hosts) builds an \<open>RpcMessage\<close> with a fresh
  id, the hash of the service's name, the method's index and the serialised arguments, and gives it to
  the client's \<open>MultiplexClientDispatcher\<close>. The dispatcher keeps a promise under the id, starts a timer
  and writes the message down a pipeline: \<open>RpcMsgSerializeHandler\<close> makes bytes of it,
  \<open>LengthFieldPrepender\<close> puts their number in front. On the server \<open>LengthFieldBasedFrameDecoder\<close> cuts
  the frames out of the stream, the handler parses them, and a dispatcher gives each request to
  \<open>RpcMsgService\<close>, which looks the method up in the registry of \<open>pbRPCServer\<close>, runs it and returns a
  message with the id of the request. That message takes the same way back, and the client's dispatcher
  completes the promise with its id.

  \<^bold>\<open>Interfaces.\<close> What is not under \<open>src/\<close> is a parameter: a record of operations, with a locale for the
  documented laws the code relies on and an interpretation on a concrete instance.
  \<^item> \<open>IOBuf_Lib\<close>: folly's \<open>IOBuf\<close>, \<open>IOBufQueue\<close>, \<open>Cursor\<close>; locale \<open>iobuf\<close>, interpreted by chains of
    byte lists.
  \<^item> \<open>Wire_Lib\<close>: protobuf's reading and writing of tags, integers, strings and unknown fields; locale
    \<open>wire\<close>, interpreted by the varint encoding. \<open>ExampleMessages\<close> extends it with strings and floats
    (\<open>example_wire\<close>) and has the interfaces of a generated parser (\<open>generated_parser\<close>) and of a number's
    encoding (\<open>number_codec\<close>), with sublocales for the six message classes. \<open>RpcMsgSerializeHandler\<close>
    extends it with the message's entry points (\<open>message_lite\<close>), interpreted by the modelled class.
  \<^item> \<open>ClientDispatcher\<close>: folly's concurrent hash map; locale \<open>promise_map\<close>, interpreted by association
    lists. \<open>ScriptedClient\<close> extends it with a fixed sequence of calls (\<open>scripted_client\<close>), interpreted in
    \<open>ExampleClients\<close>.
  \<^item> \<open>Connection\<close>: the libraries of one pipeline (\<open>transport\<close>), extended with the client's table
    (\<open>rpc_connection\<close>), both interpreted by the instances above. \<open>ExampleMessageOps\<close>: what the generated
    copying operations owe each other (\<open>message_ops\<close>), a sublocale for each shape of message.
  \<^item> \<open>Framing\<close>: a frame encoding against a decoder of prefixes; locale \<open>stream_codec\<close>, interpreted by the
    two codecs as the pipelines configure them.

  Reflection (for \<open>MergeFrom\<close> and \<open>CopyFrom\<close> of a general \<open>Message\<close>), user code (services, their messages and names), the hash of names, socket ioctls, float arithmetic and
  the value of an overflowing signed addition are parameters without laws.

  \<^bold>\<open>The theories.\<close>
  \<^item> \<open>Prelude\<close>: integers at their width, pointers, big- and little-endian bytes, and lemmas shared by all.
  \<^item> \<open>LengthFieldPrepender\<close>, \<open>LengthFieldBasedFrameDecoder\<close> (\<open>codec/\<close>): constructors, \<open>write\<close>, \<open>decode\<close>,
    \<open>getUnadjustedFrameLength\<close>. Each operation refines a specification on bytes, for every configuration;
    \<open>Framing\<close> composes them: round trips, and a receiver of any chunks at any moments delivers exactly
    the messages sent.
  \<^item> \<open>RpcMessage\<close>, \<open>RpcMessageCoding\<close> (\<open>protobufCoder/RpcMessage.pb.h\<close>, \<open>.pb.cc\<close>): the message, all its
    accessors, copying, merging; parser, serialisers, size. A message invariant, abstract content with
    refinement lemmas, termination of the parser, round trip, parsing as merging, agreement of the two
    serialisers and the size.
  \<^item> \<open>RpcMsgSerializeHandler\<close> (\<open>protobufCoder/\<close>): the handler's operations as the events they fire.
  \<^item> \<open>ServerDispatcher\<close> (\<open>net/ServiceDispatcher/\<close>): serial, pipelined and multiplexing dispatcher; the
    order of answers under every interleaving.
  \<^item> \<open>PbRpcServer\<close> (\<open>net/PbRpcServer.*\<close>): \<open>RegisterService\<close>, \<open>GetService\<close>, \<open>GetMethod\<close>,
    \<open>handleRpcCall\<close>, \<open>RpcMsgService\<close>, the pipeline; reachable servers answer registered calls.
  \<^item> \<open>ClientDispatcher\<close> (\<open>net/ServiceDispatcher/\<close>): the call operator (split where threads may
    interleave: \<open>call_begin\<close>, \<open>limit_reached\<close>, \<open>call_send\<close>), \<open>read\<close>, the timer's callback, \<open>close\<close>. The
    relation \<open>client_reach\<close> has every order of calls, responses and timers, and \<open>client_inv\<close> holds in
    it: the table is the set of pending calls.
  \<^item> \<open>DispatcherThreads\<close>: the same dispatcher with callers, reading thread and timers interleaved at every
    point where one can see what another does (\<open>threads_reach\<close>; the histories above are some of its runs).
    Results still belong to their calls, no call is lost, the limit is exceeded by less than the number of
    calling threads, and the table is exact when ids differ. When ids are used again it is not
    (\<open>stale_timer_erases\<close>).
  \<^item> \<open>PbRpcClient\<close> (\<open>net/PbRpcClient.*\<close>): client, connect callbacks (one step per assignment), and
    \<open>RpcChannel::CallMethod\<close> up to the wait (\<open>CallMethod_start\<close>), after the result
    (\<open>CallMethod_finish\<close>) and when the future fails (\<open>CallMethod_end\<close>, on the outcomes \<open>future_outcome\<close> of
    \<open>ClientDispatcher\<close>).
  \<^item> \<open>FutureRpcCallProxy\<close> (\<open>net/futureRpcCallProxy.*\<close>): hosts, selection strategies, \<open>CallMethod\<close>, and how
    a response or an exception becomes a value or an exception.
  \<^item> \<open>Connection\<close>: client, server and both directions of the bytes between them as one step relation
    (\<open>conn_reach\<close>): connecting, calls, timers, chunks arriving, frames cut and read, requests started and
    completed by the server's threads in any order. \<open>link_ok\<close> and \<open>conn_ok\<close> say which runs the properties
    are about: every message fits a frame, a frame that was cut lies in one buffer, and (\<open>conn_ok\<close>) the
    written requests have different ids.
    Each request is executed at most once, a response reaches the call it answers, none is lost.
  \<^item> \<open>ChannelConnection\<close>: a channel on such a connection (\<open>link_reach\<close>), from the unconnected client on,
    with the steps of its connect callbacks. Its numbering makes the ids of the requests different, so
    what a stub's call returns is what the server's method computed for it.
  \<^item> \<open>StringUtil\<close>, \<open>LinuxNetworkUtil\<close> (\<open>util/\<close>): \<open>split\<close> against a specification by first occurrences, and
    the address lookups.
  \<^item> \<open>ExampleMessages\<close>, \<open>ExampleMessageOps\<close> (\<open>example/MyService.pb.*\<close>): the generated classes of the
    example services, three shapes of them: parsers and serialisers; accessors, copying, sizes.
  \<^item> \<open>RpcServerTest\<close>, \<open>ExampleClients\<close>, \<open>FutureRpcClientTest\<close> (\<open>example/\<close>): the server with its two
    services, whose calls are well typed, and the three clients, none of which can get stuck.
    What the clients print is what the services compute, with a response as one step of their runs.
  \<^item> \<open>ExamplePrograms\<close>: the two clients over a channel and the server with every byte between them: each
    such run is one of the runs of \<open>ExampleClients\<close>, so what these print holds for the bytes.
  \<^item> This theory: messages across the wire, a call from the request's frame to the result of the caller's
    future, and one response of the example server as what the pipelines do on bytes.

  \<^bold>\<open>How code is rendered.\<close> A class is a record with its fields, a method a function on it; an exception, a
  failed \<open>CHECK\<close> or an undefined dereference is a value of a sum or option type. \<open>int\<close> and
  \<open>size_t\<close> are words, and every narrowing is written out. Threads are step relations: one step for
  each part of an operation that others can observe. Loops without an evident end (\<open>split\<close>, the
  parsers) are partial functions, so not returning is a value; that they return is proved. No fuel is
  used.

  \<^bold>\<open>Bounds.\<close> Frames carry at most 65534 bytes (a header of two bytes, a decoder maximum of 65536). A
  receive queue holds fewer than \<open>2 ^ 64\<close> bytes. Serialised messages and strings are shorter than
  \<open>2 ^ 31\<close> bytes, the limit of protobuf. The pipelined dispatcher has fewer than \<open>2 ^ 32\<close> requests in
  flight, a channel makes at most \<open>2 ^ 64\<close> calls, the limit of pending calls and the threads that
  call are together at most \<open>2 ^ 64\<close>, one thread reads a client's responses, and the example clients
  have a million turns (a hundred thousand with futures), as in their loops.

  \<^bold>\<open>Not modelled.\<close> What wangle does for \<open>bind\<close>, \<open>waitForStop\<close> and \<open>connect\<close> (their outcomes are
  parameters), thread pools beyond their size; descriptor
  tables, arenas and the experimental parser of the generated code (tables for the runtime, or behind a
  macro that is off); lines printed for
  diagnosis; memory reclamation, but for the counts and sets the properties mention (\<open>live_messages\<close>, the
  allocated objects of the asynchronous client); the build files.
\<close>

section \<open>From client to server and back\<close>


lemma sample_bytes: "SerializeWithCachedSizes varint_lib sample_message
    = [8, 1, 16, 172, 2, 24, 77, 32, 3, 42, 3, 8, 150, 1]"
  by (simp add: sample_message_def SerializeWithCachedSizes_def Let_def rpc_accessors
      RpcMessage_new_def varint_lib_def vtag_def v_bytes_def varint_enc.simps)

lemma sample_wire_bytes: "wire_bytes varint_lib [sample_message]
    = [0, 14, 8, 1, 16, 172, 2, 24, 77, 32, 3, 42, 3, 8, 150, 1]"
  by (simp add: wire_bytes_def sample_bytes wire_frame_def be_bytes_2)

lemma sample_transmittable: "transmittable varint_lib sample_message"
  by (simp add: transmittable_def sample_sendable sample_bytes frameable_def)


text \<open>C1: A call completes: when the frame of a pending call's request reaches the server in one buffer
  and the server's last registered service for its service id has its method, the server writes one
  frame, and any single buffer with that frame's bytes, read by the client, completes exactly this call
  with the user's reply to the request's bytes and NO_ERROR.\<close>

theorem rpc_call_completes:
  assumes "iobuf L" "message_lite W M" "promise_map T" "server_reach W api svcs n srv"
    and "client_reach W T lim t s" "client_entries T s (rm_id req) = Some p"
    and "sendable W req" "contiguous L b" "b_bytes L b = SerializeWithCachedSizes W req"
    and "last_registered api svcs (rm_serviceid req) = Some svc"
    and "unat (rm_methodid req) < method_count api svc"
    and "sendable W (response_to W api svc req)"
  shows "\<exists>rb srv'. serve_frame L W M api b srv = Inr ([rb], srv')
    \<and> (\<forall>rb'. contiguous L rb' \<and> b_bytes L rb' = b_bytes L rb \<longrightarrow>
        (\<exists>s' r. receive_frame L W M T rb' s = Inr s' \<and> cl_result s' p = Some r
          \<and> cl_result s' = (cl_result s)(p \<mapsto> r) \<and> rm_error r = NO_ERROR
          \<and> rm_response r = reply api svc (unat (rm_methodid req)) (rm_request req)))"
proof -
  let ?req = "req\<lparr>rm_cached_size := 0\<rparr>" let ?res = "response_to W api svc req"
  let ?rb = "copyBuffer L (SerializeWithCachedSizes W ?res)"
  have "handler_read L W M b = [FireRead ?req]" by (rule read_contiguous [OF assms(2,7-9)])
  then obtain srv' where served: "serve_frame L W M api b srv = Inr ([?rb], srv')"
    using serve_frame_known [OF assms(2,4), of ?req svc L b] assms(10-12) by (auto simp: response_same)
  have known: "client_entries T s (rm_id (?res\<lparr>rm_cached_size := 0\<rparr>)) = Some p"
    using assms(6) by (simp add: response_to_def)
  have "\<exists>s'. receive_frame L W M T rb' s = Inr s' \<and> cl_result s' = (cl_result s)(p \<mapsto> ?res\<lparr>rm_cached_size := 0\<rparr>)"
    if "contiguous L rb'" "b_bytes L rb' = b_bytes L ?rb" for rb'
    using promise_map.read_known [OF assms(3) promise_map.reach_inv [OF assms(3,5)] known]
    unfolding receive_response [OF assms(1,2,12) that] by blast
  moreover have "rm_error ?res = NO_ERROR"
    "rm_response ?res = reply api svc (unat (rm_methodid req)) (rm_request req)"
    by (simp_all add: response_to_def)
  ultimately show ?thesis using served by fastforce
qed

theorem rpc_call_completes_witness:
  "\<exists>rb srv'. serve_frame chain_lib varint_lib (generated_message_lib varint_lib) echo_api
       [SerializeWithCachedSizes varint_lib sample_request] echo_server = Inr ([rb], srv')
   \<and> (\<forall>rb'. contiguous chain_lib rb' \<and> b_bytes chain_lib rb' = b_bytes chain_lib rb \<longrightarrow>
        (\<exists>s' r. receive_frame chain_lib varint_lib (generated_message_lib varint_lib) alist_table rb'
             one_call = Inr s' \<and> cl_result s' 0 = Some r \<and> rm_response r = [1, 8]))"
proof -
  have c: "contiguous chain_lib [SerializeWithCachedSizes varint_lib sample_request]"
    by (simp add: contiguous_def chain_head_def)
  have e: "client_entries alist_table one_call (rm_id sample_request) = Some 0"
    by (simp add: one_call_pending sample_request_sel)
  have "sendable varint_lib sample_request" "sendable varint_lib (response_to varint_lib echo_api 77 sample_request)"
    using call_transmittable by (simp_all add: transmittable_def)
  then show ?thesis
    using rpc_call_completes [OF chain.iobuf_axioms varint_message.message_lite_axioms alist.promise_map_axioms
      echo_reach one_call_reach e _ c, of 77]
    by (fastforce simp: sample_request_sel echo_registered echo_count echo_reply)
qed

text \<open>The example programs' surroundings are what the pipelines do: when the frame of a request the
  client has written reaches the example server in one buffer, and a single buffer with the bytes of
  the frame the server writes reaches the client, the client makes the step that the programs' runs
  have for a response.\<close>

theorem pipelines_refine_network:
  assumes "iobuf L" "message_lite W M" "req \<in> set (cl_written (rc_client c))"
    and "server_reach W (example_api W X E h) [MyService, Service2] k srv"
    and "sendable W req" "contiguous L b" "b_bytes L b = SerializeWithCachedSizes W req"
    and "serve_frame L W M (example_api W X E h) b srv = Inr ([rb], srv')"
    and "\<And>svc. last_registered (example_api W X E h) [MyService, Service2] (rm_serviceid req) = Some svc \<Longrightarrow>
      sendable W (response_to W (example_api W X E h) svc req)"
    and "contiguous L rb'" "b_bytes L rb' = b_bytes L rb"
    and "receive_frame L W M T rb' (rc_client c) = Inr s"
  shows "network_step W T X E h c (c\<lparr>rc_client := s\<rparr>)"
proof -
  let ?api = "example_api W X E h" let ?req = "req\<lparr>rm_cached_size := 0\<rparr>"
  note call = server_call [OF conjunct1 [OF server_reach_inv [OF assms(4)]], of W]
  have read: "handler_read L W M b = [FireRead ?req]" by (rule read_contiguous [OF assms(2,5-7)])
  then obtain svc where svc: "last_registered ?api [MyService, Service2] (rm_serviceid req) = Some svc"
    "unat (rm_methodid req) < method_count ?api svc"
    using assms(8) call [of ?req] by (auto simp: serve_frame_def split: option.splits if_splits)
  let ?res = "response_to W ?api svc req"
  have res: "sendable W ?res" by (rule assms(9) [OF svc(1)])
  obtain srv2 where "serve_frame L W M ?api b srv = Inr ([copyBuffer L (SerializeWithCachedSizes W ?res)], srv2)"
    using serve_frame_known [OF assms(2,4) _ _ read] svc res by (auto simp: response_same)
  with assms(8) have "rb = copyBuffer L (SerializeWithCachedSizes W ?res)" by simp
  with assms(11,12) have r: "dispatcher_read T (?res\<lparr>rm_cached_size := 0\<rparr>) (rc_client c) = Inr s"
    using receive_response [OF assms(1,2) res assms(10), of T "rc_client c"] by simp
  have "RpcMsgService_call W ?api req srv = Inr (?res, srv\<lparr>live_messages := live_messages srv + 2\<rparr>)"
    using svc by (simp add: call response_to_def)
  from network_step.read [OF assms(3,4) this r] show ?thesis .
qed

theorem pipelines_refine_network_witness:
  "\<exists>c s. network_step varint_lib alist_table text_float plain_env name_length c (c\<lparr>rc_client := s\<rparr>)
     \<and> cl_result s 0 \<noteq> None"
proof -
  let ?api = "example_api varint_lib text_float plain_env name_length"
  let ?req = "sent varint_lib text_float plain_env name_length 0" let ?res = "response_to varint_lib ?api MyService ?req"
  let ?M = "generated_message_lib varint_lib" let ?srv = "fst (server_main ?api MyService Service2 [])"
  let ?rb = "copyBuffer chain_lib (SerializeWithCachedSizes varint_lib ?res)"
  obtain c :: "((s64 \<times> nat) list, byte list) rpc_client" where ci: "client_inv varint_lib alist_table 9223372036854775807 5000 (rc_client c)"
    and w: "cl_written (rc_client c) = [?req]" and e: "client_entries alist_table (rc_client c) 0 = Some 0"
    using first_sent [where W = varint_lib and X = text_float and E = plain_env, OF alist.promise_map_axioms names_differ]
    by (elim exE conjE) (rule that)
  have c: "contiguous chain_lib [bs]" for bs by (simp add: contiguous_def chain_head_def)
  have b: "b_bytes chain_lib [bs] = bs" for bs by simp
  have svc: "last_registered ?api [MyService, Service2] (rm_serviceid ?req) = Some svc \<longleftrightarrow> svc = MyService" for svc
    using main_registered [OF names_differ, of varint_lib text_float plain_env MyService]
    by (auto simp: sent_sel client_method_def simp del: service_full_name.simps)
  have n: "unat (rm_methodid ?req) < method_count ?api MyService"
    by (simp add: sent_sel client_method_def example_api_sel)
  have reach: "server_reach varint_lib ?api [MyService, Service2] 0 ?srv" by (rule main_reach)
  have "handler_read chain_lib varint_lib ?M [SerializeWithCachedSizes varint_lib ?req] = [FireRead (?req\<lparr>rm_cached_size := 0\<rparr>)]"
    by (rule read_contiguous [OF varint_message.message_lite_axioms first_sendable(1) c b])
  from serve_frame_known [OF varint_message.message_lite_axioms reach _ _ this, of MyService] obtain srv' where
    served: "serve_frame chain_lib varint_lib ?M ?api [SerializeWithCachedSizes varint_lib ?req] ?srv = Inr ([?rb], srv')"
    using svc n first_sendable(2) by (auto simp: response_same)
  have b': "b_bytes chain_lib [SerializeWithCachedSizes varint_lib ?res] = b_bytes chain_lib ?rb"
    using iobuf.copyBuffer(1) [OF chain.iobuf_axioms] by simp
  have "client_entries alist_table (rc_client c) (rm_id (?res\<lparr>rm_cached_size := 0\<rparr>)) = Some 0"
    using e by (simp add: response_to_def sent_sel)
  from promise_map.read_known [OF alist.promise_map_axioms ci this] obtain s where
    "dispatcher_read alist_table (?res\<lparr>rm_cached_size := 0\<rparr>) (rc_client c) = Inr s" and r: "cl_result s 0 \<noteq> None"
    by auto
  then have recv: "receive_frame chain_lib varint_lib ?M alist_table [SerializeWithCachedSizes varint_lib ?res] (rc_client c) = Inr s"
    by (simp only: receive_response [OF chain.iobuf_axioms varint_message.message_lite_axioms first_sendable(2) c b'])
  have "network_step varint_lib alist_table text_float plain_env name_length c (c\<lparr>rc_client := s\<rparr>)"
    by (rule pipelines_refine_network [OF chain.iobuf_axioms varint_message.message_lite_axioms _ reach
      first_sendable(1) c b served _ c b' recv]) (use svc first_sendable(2) in \<open>auto simp: w\<close>)
  with r show ?thesis by blast
qed

end
